(* ===== verification/Hub_Prelude.thy ===== *)
theory Hub_Prelude
  imports Main "HOL-Library.Word" "HOL-Library.List_Lexorder" "HOL-Library.Char_ord"
begin

text \<open>
  The vocabulary shared by the component theories: fixed-width integers, Rust's
  \<open>Result\<close> with its early return, the two loops that validation code is made of,
  UTF-8 strings and the character classes the source tests, decimal printing,
  and \<open>BTreeMap\<close> and \<open>BTreeSet\<close> as strictly sorted lists.
\<close>

named_theorems result_simps \<open>success conditions of the \<open>Result\<close> combinators\<close>
named_theorems btree_simps \<open>lookup and well-formedness facts of ordered maps\<close>

section \<open>Machine integers\<close>

type_synonym u16 = "16 word"
type_synonym u32 = "32 word"
type_synonym u64 = "64 word"
type_synonym i32 = int

text \<open>\<open>u64::checked_add\<close> and \<open>u64::saturating_sub\<close>.\<close>

definition checked_add :: "u64 \<Rightarrow> u64 \<Rightarrow> u64 option" where
  "checked_add a b = (if unat a + unat b < 2 ^ 64 then Some (a + b) else None)"

definition saturating_sub :: "u64 \<Rightarrow> u64 \<Rightarrow> u64" where
  "saturating_sub a b = (if b \<le> a then a - b else 0)"

section \<open>Results\<close>

text \<open>
  \<open>Result<T, E>\<close> is the sum \<open>'e + 'a\<close> with \<open>Inl\<close> for \<open>Err\<close>. The operator
  \<open>?\<close> is \<open>rbind\<close>; \<open>for x in xs { f(x)?; }\<close> is \<open>try_for\<close>; a loop that threads a
  state is \<open>try_fold\<close>; and a loop that checks each item and then refuses a repeated key
  (\<open>if !seen.insert(key) { return Err(..) }\<close>) is \<open>try_unique\<close>.
\<close>

definition rbind :: "'e + 'a \<Rightarrow> ('a \<Rightarrow> 'e + 'b) \<Rightarrow> 'e + 'b" where
  "rbind r f = (case r of Inl e \<Rightarrow> Inl e | Inr x \<Rightarrow> f x)"

definition ok_or :: "'e \<Rightarrow> 'a option \<Rightarrow> 'e + 'a" where
  "ok_or e x = (case x of None \<Rightarrow> Inl e | Some y \<Rightarrow> Inr y)"

definition map_err :: "('e \<Rightarrow> 'f) \<Rightarrow> 'e + 'a \<Rightarrow> 'f + 'a" where
  "map_err g r = (case r of Inl e \<Rightarrow> Inl (g e) | Inr x \<Rightarrow> Inr x)"

fun try_for :: "('a \<Rightarrow> 'e + unit) \<Rightarrow> 'a list \<Rightarrow> 'e + unit" where
  "try_for f [] = Inr ()"
| "try_for f (x # xs) = (case f x of Inl e \<Rightarrow> Inl e | Inr _ \<Rightarrow> try_for f xs)"

fun try_fold :: "('s \<Rightarrow> 'a \<Rightarrow> 'e + 's) \<Rightarrow> 's \<Rightarrow> 'a list \<Rightarrow> 'e + 's" where
  "try_fold f s [] = Inr s"
| "try_fold f s (x # xs) = (case f s x of Inl e \<Rightarrow> Inl e | Inr s' \<Rightarrow> try_fold f s' xs)"

fun try_unique :: "('a \<Rightarrow> 'e + unit) \<Rightarrow> ('a \<Rightarrow> 'k) \<Rightarrow> ('a \<Rightarrow> 'e) \<Rightarrow> 'k set \<Rightarrow> 'a list \<Rightarrow> 'e + unit" where
  "try_unique pre key dup seen [] = Inr ()"
| "try_unique pre key dup seen (x # xs) =
     (case pre x of
        Inl e \<Rightarrow> Inl e
      | Inr _ \<Rightarrow> if key x \<in> seen then Inl (dup x)
                 else try_unique pre key dup (insert (key x) seen) xs)"

section \<open>Strings\<close>

text \<open>
  A Rust string is its UTF-8 bytes: \<open>len\<close> counts bytes, the order is bytewise, and
  \<open>chars\<close> cuts before every byte that is not a continuation byte (0x80..0xBF).
  On valid UTF-8 a piece is exactly one code point, so the classes below are exact.
\<close>

type_synonym bytes = string

definition byte_of :: "char \<Rightarrow> nat" where
  "byte_of c = of_char c"

definition is_cont :: "char \<Rightarrow> bool" where
  "is_cont c \<longleftrightarrow> 128 \<le> byte_of c \<and> byte_of c < 192"

function chars :: "string \<Rightarrow> string list" where
  "chars [] = []"
| "chars (c # cs) = (c # takeWhile is_cont cs) # chars (dropWhile is_cont cs)"
  by pat_completeness auto
termination
  by (relation "measure length") (auto simp: le_imp_less_Suc length_dropWhile_le)

definition is_ascii_lowercase :: "char \<Rightarrow> bool" where
  "is_ascii_lowercase c \<longleftrightarrow> 97 \<le> byte_of c \<and> byte_of c \<le> 122"

definition is_ascii_uppercase :: "char \<Rightarrow> bool" where
  "is_ascii_uppercase c \<longleftrightarrow> 65 \<le> byte_of c \<and> byte_of c \<le> 90"

definition is_ascii_digit :: "char \<Rightarrow> bool" where
  "is_ascii_digit c \<longleftrightarrow> 48 \<le> byte_of c \<and> byte_of c \<le> 57"

definition is_ascii_alphanumeric :: "char \<Rightarrow> bool" where
  "is_ascii_alphanumeric c \<longleftrightarrow> is_ascii_lowercase c \<or> is_ascii_uppercase c \<or> is_ascii_digit c"

definition is_ascii_hexdigit :: "char \<Rightarrow> bool" where
  "is_ascii_hexdigit c \<longleftrightarrow> is_ascii_digit c \<or> (97 \<le> byte_of c \<and> byte_of c \<le> 102)
     \<or> (65 \<le> byte_of c \<and> byte_of c \<le> 70)"

text \<open>\<open>char::is_control\<close> is the category Cc: U+0000..U+001F and U+007F..U+009F.\<close>

fun is_control :: "string \<Rightarrow> bool" where
  "is_control [c] \<longleftrightarrow> byte_of c < 32 \<or> byte_of c = 127"
| "is_control [c, d] \<longleftrightarrow> byte_of c = 194 \<and> 128 \<le> byte_of d \<and> byte_of d \<le> 159"
| "is_control _ \<longleftrightarrow> False"

text \<open>\<open>char::is_whitespace\<close> is the Unicode property White\_Space.\<close>

fun is_whitespace :: "string \<Rightarrow> bool" where
  "is_whitespace [c] \<longleftrightarrow> (9 \<le> byte_of c \<and> byte_of c \<le> 13) \<or> byte_of c = 32"
| "is_whitespace [c, d] \<longleftrightarrow> byte_of c = 194 \<and> (byte_of d = 133 \<or> byte_of d = 160)"
| "is_whitespace [c, d, e] \<longleftrightarrow>
     (byte_of c = 225 \<and> byte_of d = 154 \<and> byte_of e = 128)
     \<or> (byte_of c = 226 \<and> byte_of d = 128 \<and>
         ((128 \<le> byte_of e \<and> byte_of e \<le> 138) \<or> byte_of e = 168 \<or> byte_of e = 169 \<or> byte_of e = 175))
     \<or> (byte_of c = 226 \<and> byte_of d = 129 \<and> byte_of e = 159)
     \<or> (byte_of c = 227 \<and> byte_of d = 128 \<and> byte_of e = 128)"
| "is_whitespace _ \<longleftrightarrow> False"

definition trim :: "string \<Rightarrow> string" where
  "trim s = concat (rev (dropWhile is_whitespace (rev (dropWhile is_whitespace (chars s)))))"

text \<open>\<open>str::split\<close> on one character, \<open>split_once\<close>, prefixes, suffixes and substrings.\<close>

fun split_on :: "char \<Rightarrow> string \<Rightarrow> string list" where
  "split_on d [] = [[]]"
| "split_on d (c # cs) =
     (if c = d then [] # split_on d cs
      else (case split_on d cs of [] \<Rightarrow> [[c]] | p # ps \<Rightarrow> (c # p) # ps))"

fun split_once :: "char \<Rightarrow> string \<Rightarrow> (string \<times> string) option" where
  "split_once d [] = None"
| "split_once d (c # cs) =
     (if c = d then Some ([], cs)
      else map_option (\<lambda>(a, b). (c # a, b)) (split_once d cs))"

fun strip_prefix :: "string \<Rightarrow> string \<Rightarrow> string option" where
  "strip_prefix [] s = Some s"
| "strip_prefix (p # ps) [] = None"
| "strip_prefix (p # ps) (c # cs) = (if p = c then strip_prefix ps cs else None)"

definition strip_suffix :: "string \<Rightarrow> string \<Rightarrow> string option" where
  "strip_suffix suf s = map_option rev (strip_prefix (rev suf) (rev s))"

definition starts_with :: "string \<Rightarrow> string \<Rightarrow> bool" where
  "starts_with p s \<longleftrightarrow> strip_prefix p s \<noteq> None"

fun str_contains :: "string \<Rightarrow> string \<Rightarrow> bool" where
  "str_contains p [] \<longleftrightarrow> p = []"
| "str_contains p (c # cs) \<longleftrightarrow> starts_with p (c # cs) \<or> str_contains p cs"

fun join :: "string \<Rightarrow> string list \<Rightarrow> string" where
  "join sep [] = []"
| "join sep [s] = s"
| "join sep (s # ss) = s @ sep @ join sep ss"

text \<open>Decimal \<open>Display\<close> of integers.\<close>

definition digit_char :: "nat \<Rightarrow> char" where
  "digit_char d = char_of (48 + d)"

fun show_nat :: "nat \<Rightarrow> string" where
  "show_nat n = (if n < 10 then [digit_char n] else show_nat (n div 10) @ [digit_char (n mod 10)])"

declare show_nat.simps [simp del]

definition show_int :: "int \<Rightarrow> string" where
  "show_int i = (if i < 0 then ''-'' @ show_nat (nat (- i)) else show_nat (nat i))"

text \<open>
  Messages built by \<open>format!\<close> are kept as the template with its arguments, so that no
  information is lost and Rust's \<open>Debug\<close> escaping need not be modelled; \<open>FDebug\<close> is an
  argument printed with \<open>{:?}\<close>, \<open>FUuid\<close> one printed by the uuid crate.
\<close>

datatype message = Fmt string "farg list"
  and farg = FStr string | FNat nat | FInt int | FUuid "128 word" | FDebug string
    | FDebugs "string list" | FMsg message

abbreviation plain :: "string \<Rightarrow> message" where
  "plain s \<equiv> Fmt s []"

section \<open>Ordered maps and sets\<close>

text \<open>
  \<open>BTreeMap<K, V>\<close> is the list of its entries in iteration order, \<open>BTreeSet<K>\<close> the
  list of its elements: strictly increasing lists.
\<close>

type_synonym ('k, 'v) btree = "('k \<times> 'v) list"

fun bt_insert :: "'k::linorder \<Rightarrow> 'v \<Rightarrow> ('k, 'v) btree \<Rightarrow> ('k, 'v) btree" where
  "bt_insert k v [] = [(k, v)]"
| "bt_insert k v ((k', v') # m) =
     (if k < k' then (k, v) # (k', v') # m
      else if k = k' then (k, v) # m
      else (k', v') # bt_insert k v m)"

definition bt_remove :: "'k \<Rightarrow> ('k, 'v) btree \<Rightarrow> ('k, 'v) btree" where
  "bt_remove k m = filter (\<lambda>(k', _). k' \<noteq> k) m"

abbreviation bt_get :: "('k, 'v) btree \<Rightarrow> 'k \<Rightarrow> 'v option" where
  "bt_get m k \<equiv> map_of m k"

abbreviation bt_keys :: "('k, 'v) btree \<Rightarrow> 'k list" where
  "bt_keys m \<equiv> map fst m"

abbreviation bt_values :: "('k, 'v) btree \<Rightarrow> 'v list" where
  "bt_values m \<equiv> map snd m"

definition bt_wf :: "('k::linorder, 'v) btree \<Rightarrow> bool" where
  "bt_wf m \<longleftrightarrow> sorted_wrt (<) (bt_keys m)"

definition bt_of_list :: "('k::linorder \<times> 'v) list \<Rightarrow> ('k, 'v) btree" where
  "bt_of_list xs = fold (\<lambda>(k, v). bt_insert k v) xs []"

fun bs_insert :: "'k::linorder \<Rightarrow> 'k list \<Rightarrow> 'k list" where
  "bs_insert k [] = [k]"
| "bs_insert k (k' # s) =
     (if k < k' then k # k' # s else if k = k' then k' # s else k' # bs_insert k s)"

definition bs_remove :: "'k \<Rightarrow> 'k list \<Rightarrow> 'k list" where
  "bs_remove k s = filter (\<lambda>x. x \<noteq> k) s"

definition bs_of_list :: "'k::linorder list \<Rightarrow> 'k list" where
  "bs_of_list xs = fold bs_insert xs []"

abbreviation bs_wf :: "'k::linorder list \<Rightarrow> bool" where
  "bs_wf s \<equiv> sorted_wrt (<) s"

section \<open>Facts\<close>

subsection \<open>Results\<close>

lemma rbind_simps [simp]:
  "rbind (Inl e) f = Inl e"
  "rbind (Inr x) f = f x"
  by (simp_all add: rbind_def)

lemma rbind_Inr_iff [result_simps]:
  "rbind r f = Inr y \<longleftrightarrow> (\<exists>x. r = Inr x \<and> f x = Inr y)"
  by (cases r) simp_all

lemma if_Inl_iff: "((if b then Inl e else x) = Inr y) \<longleftrightarrow> \<not> b \<and> x = Inr y"
  by simp

lemma ok_or_simps [simp]:
  "ok_or e None = Inl e"
  "ok_or e (Some x) = Inr x"
  by (simp_all add: ok_or_def)

lemma ok_or_Inr_iff [result_simps]: "ok_or e x = Inr y \<longleftrightarrow> x = Some y"
  by (cases x) simp_all

lemma map_err_simps [simp]:
  "map_err g (Inl e) = Inl (g e)"
  "map_err g (Inr x) = Inr x"
  by (simp_all add: map_err_def)

lemma map_err_Inr_iff [result_simps]: "map_err g r = Inr y \<longleftrightarrow> r = Inr y"
  by (cases r) simp_all

lemma try_for_Inr_iff [result_simps]:
  "try_for f xs = Inr u \<longleftrightarrow> (\<forall>x\<in>set xs. f x = Inr ())"
  by (induction xs) (auto split: sum.splits)

lemma try_fold_Cons_iff:
  "try_fold f s (x # xs) = Inr s' \<longleftrightarrow> (\<exists>m. f s x = Inr m \<and> try_fold f m xs = Inr s')"
  by (simp split: sum.split)

lemma try_fold_append:
  "try_fold f s (xs @ ys) = rbind (try_fold f s xs) (\<lambda>s'. try_fold f s' ys)"
  by (induction xs arbitrary: s) (auto split: sum.splits)

lemma try_fold_snoc_iff:
  "try_fold f s (xs @ [x]) = Inr s' \<longleftrightarrow> (\<exists>m. try_fold f s xs = Inr m \<and> f m x = Inr s')"
  unfolding try_fold_append rbind_Inr_iff try_fold_Cons_iff by simp

lemma try_fold_invariant:
  assumes "try_fold f s xs = Inr s'" and "P s"
    and "\<And>s x s'. P s \<Longrightarrow> x \<in> set xs \<Longrightarrow> f s x = Inr s' \<Longrightarrow> P s'"
  shows "P s'"
  using assms
proof (induction xs arbitrary: s)
  case Nil
  then show ?case by simp
next
  case (Cons x xs)
  from Cons.prems(1) obtain t where t: "f s x = Inr t" and rest: "try_fold f t xs = Inr s'"
    by (auto split: sum.splits)
  have "P t" by (rule Cons.prems(3)[OF Cons.prems(2) _ t]) simp
  with rest show ?case
    by (rule Cons.IH) (rule Cons.prems(3), simp_all)
qed

lemma try_unique_Inr_iff [result_simps]:
  "try_unique pre key dup seen xs = Inr u \<longleftrightarrow>
     (\<forall>x\<in>set xs. pre x = Inr ()) \<and> distinct (map key xs) \<and> seen \<inter> key ` set xs = {}"
  by (induction xs arbitrary: seen) (auto split: sum.splits)

subsection \<open>Strings\<close>

lemma concat_chars [simp]: "concat (chars s) = s"
  by (induction s rule: chars.induct) simp_all

lemma strip_prefix_Some_iff: "strip_prefix p s = Some r \<longleftrightarrow> s = p @ r"
  by (induction p s rule: strip_prefix.induct) auto

lemma strip_suffix_Some_iff: "strip_suffix q s = Some r \<longleftrightarrow> s = r @ q"
  unfolding strip_suffix_def map_option_eq_Some strip_prefix_Some_iff
  by (metis rev_append rev_rev_ident)

lemma starts_with_iff: "starts_with p s \<longleftrightarrow> (\<exists>r. s = p @ r)"
  using strip_prefix_Some_iff[of p s] by (cases "strip_prefix p s") (auto simp: starts_with_def)

lemma starts_with_simps [simp]:
  "starts_with [] s"
  "\<not> starts_with (p # ps) []"
  "starts_with (p # ps) (c # cs) \<longleftrightarrow> p = c \<and> starts_with ps cs"
  by (simp_all add: starts_with_def)

lemma split_on_not_Nil [simp]: "split_on d s \<noteq> []"
  by (induction s) (auto split: list.splits)

lemma split_on_no_sep: "p \<in> set (split_on d s) \<Longrightarrow> d \<notin> set p"
  by (induction s arbitrary: p) (auto split: if_splits list.splits)

lemma show_nat_not_Nil [simp]: "show_nat n \<noteq> []"
  by (subst show_nat.simps) simp

subsection \<open>Checked arithmetic\<close>

lemma checked_add_Some_iff:
  "checked_add a b = Some c \<longleftrightarrow> unat c = unat a + unat b"
proof
  assume "checked_add a b = Some c"
  then have "unat a + unat b < 2 ^ 64" and "c = a + b"
    by (simp_all add: checked_add_def split: if_splits)
  then show "unat c = unat a + unat b"
    by (simp add: unat_word_ariths)
next
  assume eq: "unat c = unat a + unat b"
  have lt: "unat c < 2 ^ 64" using unsigned_less[of c] by simp
  have "unat (a + b) = unat c" using eq lt by (simp add: unat_word_ariths)
  then have "a + b = c" by (simp add: word_unat_eq_iff)
  with eq lt show "checked_add a b = Some c" by (simp add: checked_add_def)
qed

text \<open>The overflow test on the wrapped sum, for evaluation.\<close>

lemma checked_add_code [code]: "checked_add a b = (if a + b < a then None else Some (a + b))"
proof -
  have "unat a + unat b < 2 ^ 64 \<longleftrightarrow> \<not> a + b < a"
  proof (cases "unat a + unat b < 2 ^ 64")
    case True
    then show ?thesis by (simp add: word_less_nat_alt unat_word_ariths)
  next
    case False
    have ub: "unat a < 2 ^ 64" "unat b < 2 ^ 64" using unsigned_less[of a] unsigned_less[of b] by simp_all
    have "(unat a + unat b) mod 2 ^ 64 = (unat a + unat b - 2 ^ 64) mod 2 ^ 64"
      using False by (simp add: le_mod_geq)
    also have "\<dots> = unat a + unat b - 2 ^ 64" using ub by (intro mod_less) linarith
    finally have "(unat a + unat b) mod 2 ^ 64 < unat a" using False ub by linarith
    then show ?thesis using False by (simp add: word_less_nat_alt unat_word_ariths)
  qed
  then show ?thesis by (simp add: checked_add_def)
qed

lemma checked_add_one_gt: "checked_add a 1 = Some b \<Longrightarrow> a < b"
  by (simp add: checked_add_Some_iff word_less_nat_alt)

subsection \<open>Ordered maps\<close>

lemma bt_get_insert [simp]: "bt_get (bt_insert k v m) k' = (if k' = k then Some v else bt_get m k')"
  by (induction m) auto

lemma map_of_bt_insert: "map_of (bt_insert k v m) = (map_of m)(k \<mapsto> v)"
  by (rule ext) simp

lemma set_bt_keys_insert [simp]: "fst ` set (bt_insert k v m) = insert k (fst ` set m)"
proof -
  have "dom (map_of (bt_insert k v m)) = insert k (dom (map_of m))"
    by (simp add: map_of_bt_insert)
  then show ?thesis by (simp add: dom_map_of_conv_image_fst)
qed

lemma bt_wf_Nil [simp]: "bt_wf []"
  by (simp add: bt_wf_def)

lemma bt_wf_insert [simp, intro]: "bt_wf m \<Longrightarrow> bt_wf (bt_insert k v m)"
proof (induction m)
  case Nil
  then show ?case by (simp add: bt_wf_def)
next
  case (Cons e m)
  obtain k' v' where e: "e = (k', v')" by (cases e)
  from Cons.prems have wf: "bt_wf m" and lt: "\<forall>x\<in>fst ` set m. k' < x"
    by (auto simp: bt_wf_def e)
  from Cons.IH[OF wf] have "sorted_wrt (<) (bt_keys (bt_insert k v m))"
    by (simp add: bt_wf_def)
  moreover have "k' < k \<Longrightarrow> \<forall>x\<in>fst ` set (bt_insert k v m). k' < x"
    using lt by simp
  ultimately show ?case using Cons.prems
    by (auto simp: bt_wf_def e dest: less_trans)
qed

lemma bt_get_remove [simp]: "bt_get (bt_remove k m) k' = (if k' = k then None else bt_get m k')"
  by (induction m) (auto simp: bt_remove_def)

lemma bt_wf_remove [simp, intro]: "bt_wf m \<Longrightarrow> bt_wf (bt_remove k m)"
proof -
  have "bt_keys (bt_remove k m) = filter (\<lambda>x. x \<noteq> k) (bt_keys m)"
    by (induction m) (auto simp: bt_remove_def)
  then show "bt_wf m \<Longrightarrow> bt_wf (bt_remove k m)"
    by (simp add: bt_wf_def sorted_wrt_filter)
qed

lemma bt_wf_distinct: "bt_wf m \<Longrightarrow> distinct (bt_keys m)"
  by (simp add: bt_wf_def strict_sorted_iff)

lemma bt_wf_sorted: "bt_wf m \<Longrightarrow> sorted (bt_keys m)"
  by (simp add: bt_wf_def strict_sorted_iff)

lemma bt_mem_iff: "bt_wf m \<Longrightarrow> (k, v) \<in> set m \<longleftrightarrow> bt_get m k = Some v"
  by (metis bt_wf_distinct map_of_eq_Some_iff)

lemma bt_get_of_list: "bt_get (bt_of_list xs) k = map_of (rev xs) k"
proof -
  have "bt_get (fold (\<lambda>(k, v). bt_insert k v) xs m) k = (case map_of (rev xs) k of None \<Rightarrow> bt_get m k | Some v \<Rightarrow> Some v)" for m
    by (induction xs arbitrary: m) (auto simp: map_add_def split: option.split)
  from this[of "[]"] show ?thesis by (simp add: bt_of_list_def split: option.split)
qed

lemma bt_wf_of_list [simp]: "bt_wf (bt_of_list xs)"
proof -
  have "bt_wf m \<Longrightarrow> bt_wf (fold (\<lambda>(k, v). bt_insert k v) xs m)" for m
    by (induction xs arbitrary: m) auto
  then show ?thesis by (simp add: bt_of_list_def)
qed

lemmas bt_facts [btree_simps] =
  bt_get_insert bt_get_remove bt_wf_insert bt_wf_remove bt_wf_of_list bt_mem_iff

lemma find_SomeD: "find P xs = Some x \<Longrightarrow> x \<in> set xs \<and> P x"
  by (auto simp: find_Some_iff)

subsection \<open>Ordered sets\<close>

lemma set_bs_insert [simp]: "set (bs_insert k s) = insert k (set s)"
  by (induction s) auto

lemma bs_wf_insert [simp, intro]: "bs_wf s \<Longrightarrow> bs_wf (bs_insert k s)"
  by (induction s) (auto dest: less_trans)

lemma set_bs_remove [simp]: "set (bs_remove k s) = set s - {k}"
  by (auto simp: bs_remove_def)

lemma bs_wf_remove [simp, intro]: "bs_wf s \<Longrightarrow> bs_wf (bs_remove k s)"
  by (simp add: bs_remove_def sorted_wrt_filter)

lemma set_bs_of_list [simp]: "set (bs_of_list xs) = set xs"
proof -
  have "set (fold bs_insert xs s) = set xs \<union> set s" for s
    by (induction xs arbitrary: s) auto
  then show ?thesis by (simp add: bs_of_list_def)
qed

lemma bs_wf_of_list [simp]: "bs_wf (bs_of_list xs)"
proof -
  have "bs_wf s \<Longrightarrow> bs_wf (fold bs_insert xs s)" for s
    by (induction xs arbitrary: s) auto
  then show ?thesis by (simp add: bs_of_list_def)
qed

lemma bs_wf_distinct: "bs_wf s \<Longrightarrow> distinct s"
  by (simp add: strict_sorted_iff)

end
