(* ===== verification/Hub_Error.thy ===== *)
theory Hub_Error
  imports Hub_Prelude
begin

text \<open>
  Identifiers (\<^verbatim>\<open>crates/hub-core/src/id.rs\<close>), the three lifecycle state
  enumerations, and the typed errors of \<^verbatim>\<open>crates/hub-core/src/error.rs\<close> with
  their \<open>Display\<close> form.
\<close>

section \<open>Identifiers\<close>

text \<open>
  The macro \<open>uuid_id!\<close> generates six newtypes over \<open>Uuid\<close> that differ only in their
  name. The model is one datatype with a phantom parameter, so the six kinds of
  identifier cannot be mixed and one instance serves all; the derived order of the
  newtypes is the order of the 128-bit value.
\<close>

type_synonym uuid = "128 word"

datatype 'kind uuid_id = UuidId (as_uuid: uuid)

datatype component_kind_tag = ComponentTag
datatype run_tag = RunTag
datatype attempt_tag = AttemptTag
datatype artifact_tag = ArtifactTag
datatype workflow_tag = WorkflowTag
datatype task_tag = TaskTag

type_synonym component_id = "component_kind_tag uuid_id"
type_synonym run_id = "run_tag uuid_id"
type_synonym attempt_id = "attempt_tag uuid_id"
type_synonym artifact_id = "artifact_tag uuid_id"
type_synonym workflow_id = "workflow_tag uuid_id"
type_synonym task_id = "task_tag uuid_id"

instantiation uuid_id :: (type) linorder
begin

definition less_eq_uuid_id :: "'a uuid_id \<Rightarrow> 'a uuid_id \<Rightarrow> bool" where
  "less_eq_uuid_id a b \<longleftrightarrow> as_uuid a \<le> as_uuid b"

definition less_uuid_id :: "'a uuid_id \<Rightarrow> 'a uuid_id \<Rightarrow> bool" where
  "less_uuid_id a b \<longleftrightarrow> as_uuid a < as_uuid b"

instance
  by standard (auto simp: less_eq_uuid_id_def less_uuid_id_def uuid_id.expand)

end

definition id_arg :: "'k uuid_id \<Rightarrow> farg" where
  "id_arg i = FUuid (as_uuid i)"

section \<open>Lifecycle states\<close>

datatype run_state = Run_Created | Run_Validated | Run_Queued | Run_Running
  | Run_Succeeded | Run_Failed | Run_Cancelled

datatype task_state = Task_Created | Task_Admitted | Task_Running | Task_Suspended
  | Task_Succeeded | Task_Failed | Task_Cancelled | Task_Terminated

datatype workflow_state = Wf_Created | Wf_Running | Wf_Succeeded | Wf_Failed | Wf_Cancelled

text \<open>\<open>Display\<close> of \<open>RunState\<close>, \<open>TaskState::as_str\<close>, derived \<open>Debug\<close> of \<open>WorkflowState\<close>.\<close>

fun run_state_str :: "run_state \<Rightarrow> string" where
  "run_state_str Run_Created = ''created''"
| "run_state_str Run_Validated = ''validated''"
| "run_state_str Run_Queued = ''queued''"
| "run_state_str Run_Running = ''running''"
| "run_state_str Run_Succeeded = ''succeeded''"
| "run_state_str Run_Failed = ''failed''"
| "run_state_str Run_Cancelled = ''cancelled''"

fun task_state_str :: "task_state \<Rightarrow> string" where
  "task_state_str Task_Created = ''created''"
| "task_state_str Task_Admitted = ''admitted''"
| "task_state_str Task_Running = ''running''"
| "task_state_str Task_Suspended = ''suspended''"
| "task_state_str Task_Succeeded = ''succeeded''"
| "task_state_str Task_Failed = ''failed''"
| "task_state_str Task_Cancelled = ''cancelled''"
| "task_state_str Task_Terminated = ''terminated''"

fun workflow_state_debug :: "workflow_state \<Rightarrow> string" where
  "workflow_state_debug Wf_Created = ''Created''"
| "workflow_state_debug Wf_Running = ''Running''"
| "workflow_state_debug Wf_Succeeded = ''Succeeded''"
| "workflow_state_debug Wf_Failed = ''Failed''"
| "workflow_state_debug Wf_Cancelled = ''Cancelled''"

section \<open>Errors\<close>

datatype executor_failure = TimedOut u64 | ExecCancelled | Backend message

datatype core_error =
    ComponentConflict component_id string string
  | ComponentAlreadyRegistered component_id
  | ComponentNotFound component_id
  | CapabilityNotDeclared component_id string
  | MissingInputBinding string string
  | ArtifactNotFound artifact_id
  | BlobNotFound string
  | ArtifactTooLarge artifact_id u64 u64
  | RunNotFound run_id
  | TaskNotFound task_id
  | InvalidTransition run_state run_state
  | InvalidTaskTransition task_state task_state
  | InvalidWorkflowTransition workflow_state workflow_state
  | RunNotExecutable run_id run_state
  | WorkflowNotFound workflow_id
  | WorkflowNotExecutable workflow_id workflow_state
  | InvalidRunSpec message
  | InvalidManifest message
  | Validation message
  | ExecutionFailed run_id executor_failure
  | Storage message

type_synonym 'a res = "core_error + 'a"

fun failure_message :: "executor_failure \<Rightarrow> message" where
  "failure_message (TimedOut ms) = Fmt ''execution timed out after {timeout_ms} ms'' [FNat (unat ms)]"
| "failure_message ExecCancelled = plain ''execution was cancelled''"
| "failure_message (Backend r) = Fmt ''backend failure: {reason}'' [FMsg r]"

text \<open>The \<open>Display\<close> attributes of \<open>CoreError\<close>: what \<open>error.to_string()\<close> yields.\<close>

fun error_message :: "core_error \<Rightarrow> message" where
  "error_message (ComponentConflict i reg new) =
     Fmt ''component {id} is already registered with a different manifest (registered digest {registered}, new digest {new})''
       [id_arg i, FStr reg, FStr new]"
| "error_message (ComponentAlreadyRegistered i) =
     Fmt ''identical component manifest already registered for {id}'' [id_arg i]"
| "error_message (ComponentNotFound i) = Fmt ''component {0} not found'' [id_arg i]"
| "error_message (CapabilityNotDeclared i c) =
     Fmt ''component {component} does not declare capability {capability}'' [id_arg i, FStr c]"
| "error_message (MissingInputBinding c n) =
     Fmt ''input {input_name:?} of capability {capability} has no matching entry in the run spec inputs''
       [FDebug n, FStr c]"
| "error_message (ArtifactNotFound a) = Fmt ''artifact {0} not found'' [id_arg a]"
| "error_message (BlobNotFound h) = Fmt ''blob {hex} not found in artifact store'' [FStr h]"
| "error_message (ArtifactTooLarge a s l) =
     Fmt ''artifact {artifact} exceeds the configured size limit ({size} > {limit} bytes)''
       [id_arg a, FNat (unat s), FNat (unat l)]"
| "error_message (RunNotFound r) = Fmt ''run {0} not found'' [id_arg r]"
| "error_message (TaskNotFound t) = Fmt ''task {0} not found'' [id_arg t]"
| "error_message (InvalidTransition f t) =
     Fmt ''invalid transition from {from} to {to}'' [FStr (run_state_str f), FStr (run_state_str t)]"
| "error_message (InvalidTaskTransition f t) =
     Fmt ''invalid task transition from {from} to {to}'' [FStr (task_state_str f), FStr (task_state_str t)]"
| "error_message (InvalidWorkflowTransition f t) =
     Fmt ''invalid workflow transition from {from:?} to {to:?}''
       [FStr (workflow_state_debug f), FStr (workflow_state_debug t)]"
| "error_message (RunNotExecutable r c) =
     Fmt ''run {run} is not in an executable state (current state {current})''
       [id_arg r, FStr (run_state_str c)]"
| "error_message (WorkflowNotFound w) = Fmt ''workflow {0} not found'' [id_arg w]"
| "error_message (WorkflowNotExecutable w c) =
     Fmt ''workflow {workflow} is not executable (current state {current:?})''
       [id_arg w, FStr (workflow_state_debug c)]"
| "error_message (InvalidRunSpec m) = Fmt ''run spec validation failed: {0}'' [FMsg m]"
| "error_message (InvalidManifest m) = Fmt ''manifest validation failed: {0}'' [FMsg m]"
| "error_message (Validation m) = Fmt ''validation failed: {0}'' [FMsg m]"
| "error_message (ExecutionFailed r f) =
     Fmt ''executor failure during run {run}: {source}'' [id_arg r, FMsg (failure_message f)]"
| "error_message (Storage m) = Fmt ''storage failure: {0}'' [FMsg m]"

section \<open>Facts\<close>

text \<open>The state names are the wire and log vocabulary: they do not collide.\<close>

lemma run_state_str_inj [simp]: "run_state_str a = run_state_str b \<longleftrightarrow> a = b"
  by (cases a; cases b) simp_all

lemma task_state_str_inj [simp]: "task_state_str a = task_state_str b \<longleftrightarrow> a = b"
  by (cases a; cases b) simp_all

lemma workflow_state_debug_inj [simp]: "workflow_state_debug a = workflow_state_debug b \<longleftrightarrow> a = b"
  by (cases a; cases b) simp_all

lemma id_arg_inj [simp]: "id_arg a = id_arg b \<longleftrightarrow> a = b"
  by (cases a; cases b) (simp add: id_arg_def)

end
