(* ===== verification/Hub_Digest.thy ===== *)
theory Hub_Digest
  imports Hub_Error
begin

text \<open>
  Domain-separated content digests (\<^verbatim>\<open>crates/hub-core/src/digest.rs\<close>). SHA-256 is
  the \<open>sha2\<close> crate: the parameter \<open>sha\<close> maps the bytes fed so far to the digest bytes,
  so a hash state is the byte string fed to it.
\<close>

section \<open>Model\<close>

definition PREFIX :: bytes where
  "PREFIX = ''scirust-hub-digest:v1'' @ [CHR 0x00]"

definition DIGEST_LEN :: nat where
  "DIGEST_LEN = 32"

definition DOMAIN_ARTIFACT_BLOB :: bytes where
  "DOMAIN_ARTIFACT_BLOB = ''scirust-hub:artifact-blob:v1''"

definition DOMAIN_COMPONENT_MANIFEST :: bytes where
  "DOMAIN_COMPONENT_MANIFEST = ''scirust-hub:component-manifest:v1''"

definition DOMAIN_RUN_PARAMS :: bytes where
  "DOMAIN_RUN_PARAMS = ''scirust-hub:run-params:v1''"

definition DOMAIN_CAPTURE :: bytes where
  "DOMAIN_CAPTURE = ''scirust-hub:capture:v1''"

definition DOMAIN_TASK_WORKSPACE_REPOSITORY :: bytes where
  "DOMAIN_TASK_WORKSPACE_REPOSITORY = ''scirust-hub:task-workspace-repository:v1''"

definition DOMAIN_TASK_WORKSPACE :: bytes where
  "DOMAIN_TASK_WORKSPACE = ''scirust-hub:task-workspace:v1''"

datatype content_digest = ContentDigest (digest_bytes: bytes)
datatype raw_sha256 = RawSha256 (raw_bytes: bytes)

text \<open>The table \<open>HEX\<close>, and \<open>hex_value\<close>.\<close>

definition hex_char :: "nat \<Rightarrow> char" where
  "hex_char n = ''0123456789abcdef'' ! n"

definition hex_value :: "char \<Rightarrow> nat option" where
  "hex_value c =
     (let b = byte_of c in
      if 48 \<le> b \<and> b \<le> 57 then Some (b - 48)
      else if 97 \<le> b \<and> b \<le> 102 then Some (b - 97 + 10)
      else if 65 \<le> b \<and> b \<le> 70 then Some (b - 65 + 10)
      else None)"

definition hex_of_bytes :: "bytes \<Rightarrow> string" where
  "hex_of_bytes bs = concat (map (\<lambda>c. [hex_char (byte_of c div 16), hex_char (byte_of c mod 16)]) bs)"

fun bytes_of_hex :: "string \<Rightarrow> bytes option" where
  "bytes_of_hex [] = Some []"
| "bytes_of_hex (a # b # rest) =
     (case hex_value a of
        None \<Rightarrow> None
      | Some hi \<Rightarrow>
         (case hex_value b of
            None \<Rightarrow> None
          | Some lo \<Rightarrow> map_option (\<lambda>bs. char_of (16 * hi + lo) # bs) (bytes_of_hex rest)))"
| "bytes_of_hex [a] = None"

definition to_hex :: "content_digest \<Rightarrow> string" where
  "to_hex d = hex_of_bytes (digest_bytes d)"

definition from_hex :: "string \<Rightarrow> content_digest option" where
  "from_hex hex = (if length hex \<noteq> DIGEST_LEN * 2 then None
     else map_option ContentDigest (bytes_of_hex hex))"

definition raw_to_hex :: "raw_sha256 \<Rightarrow> string" where
  "raw_to_hex d = hex_of_bytes (raw_bytes d)"

definition raw_from_hex :: "string \<Rightarrow> raw_sha256 option" where
  "raw_from_hex hex = (if length hex \<noteq> DIGEST_LEN * 2 then None
     else map_option RawSha256 (bytes_of_hex hex))"

text \<open>\<open>u64::to_le_bytes\<close>.\<close>

fun le_bytes :: "nat \<Rightarrow> nat \<Rightarrow> bytes" where
  "le_bytes 0 n = []"
| "le_bytes (Suc k) n = char_of (n mod 256) # le_bytes k (n div 256)"

datatype digest_state = DigestState (fed: bytes)

definition digest_new :: "bytes \<Rightarrow> digest_state" where
  "digest_new domain = DigestState (PREFIX @ le_bytes 8 (length domain) @ domain)"

definition digest_update :: "digest_state \<Rightarrow> bytes \<Rightarrow> digest_state" where
  "digest_update st bs = DigestState (fed st @ bs)"

definition digest_finalize :: "(bytes \<Rightarrow> bytes) \<Rightarrow> digest_state \<Rightarrow> content_digest" where
  "digest_finalize sha st = ContentDigest (sha (fed st))"

definition hash_bytes :: "(bytes \<Rightarrow> bytes) \<Rightarrow> bytes \<Rightarrow> bytes \<Rightarrow> content_digest" where
  "hash_bytes sha domain data = digest_finalize sha (digest_update (digest_new domain) data)"

definition raw_sha256_bytes :: "(bytes \<Rightarrow> bytes) \<Rightarrow> bytes \<Rightarrow> raw_sha256" where
  "raw_sha256_bytes sha data = RawSha256 (sha data)"

text \<open>
  A reader is the sequence of results its \<open>read\<close> calls return; past the end it reports
  end of file (\<open>Ok(0)\<close>), as an empty chunk does.
\<close>

datatype read_event = Chunk bytes | Interrupted | ReadError message

fun read_all :: "('s \<Rightarrow> bytes \<Rightarrow> 's) \<Rightarrow> 's \<Rightarrow> read_event list \<Rightarrow> message + 's" where
  "read_all upd st [] = Inr st"
| "read_all upd st (Chunk bs # rest) = (if bs = [] then Inr st else read_all upd (upd st bs) rest)"
| "read_all upd st (Interrupted # rest) = read_all upd st rest"
| "read_all upd st (ReadError e # rest) = Inl e"

definition hash_reader :: "(bytes \<Rightarrow> bytes) \<Rightarrow> bytes \<Rightarrow> read_event list \<Rightarrow> message + content_digest" where
  "hash_reader sha domain reader =
     rbind (read_all digest_update (digest_new domain) reader) (\<lambda>st. Inr (digest_finalize sha st))"

definition raw_sha256_reader :: "(bytes \<Rightarrow> bytes) \<Rightarrow> read_event list \<Rightarrow> message + raw_sha256" where
  "raw_sha256_reader sha reader =
     rbind (read_all (@) [] reader) (\<lambda>bs. Inr (RawSha256 (sha bs)))"

text \<open>The bytes a reader delivers before its end of file.\<close>

fun delivered :: "read_event list \<Rightarrow> bytes" where
  "delivered [] = []"
| "delivered (Chunk bs # rest) = (if bs = [] then [] else bs @ delivered rest)"
| "delivered (Interrupted # rest) = delivered rest"
| "delivered (ReadError e # rest) = []"

text \<open>The error that ends a read, if one comes before end of file.\<close>

fun reader_error :: "read_event list \<Rightarrow> message option" where
  "reader_error [] = None"
| "reader_error (Chunk bs # rest) = (if bs = [] then None else reader_error rest)"
| "reader_error (Interrupted # rest) = reader_error rest"
| "reader_error (ReadError e # rest) = Some e"

section \<open>Hexadecimal\<close>

lemma byte_of_lt [simp]: "byte_of c < 256"
  by (simp add: byte_of_def)

lemma char_of_byte_of [simp]: "char_of (byte_of c) = c"
  by (simp add: byte_of_def)

lemma byte_of_char_of [simp]: "byte_of (char_of n) = n mod 256"
  by (simp add: byte_of_def)

lemma hex_value_hex_char: "n < 16 \<Longrightarrow> hex_value (hex_char n) = Some n"
proof -
  have "\<forall>m\<in>set [0..<16]. hex_value (hex_char m) = Some m"
    by code_simp
  then show "n < 16 \<Longrightarrow> ?thesis" by simp
qed

lemma bytes_of_hex_of_bytes: "bytes_of_hex (hex_of_bytes bs) = Some bs"
proof (induction bs)
  case Nil
  then show ?case by (simp add: hex_of_bytes_def)
next
  case (Cons c bs)
  have "byte_of c div 16 < 16" by (rule less_mult_imp_div_less) simp
  then have "hex_value (hex_char (byte_of c div 16)) = Some (byte_of c div 16)"
    and "hex_value (hex_char (byte_of c mod 16)) = Some (byte_of c mod 16)"
    by (simp_all add: hex_value_hex_char)
  moreover have "16 * (byte_of c div 16) + byte_of c mod 16 = byte_of c" by simp
  ultimately show ?case using Cons.IH by (simp add: hex_of_bytes_def)
qed

lemma length_hex_of_bytes [simp]: "length (hex_of_bytes bs) = 2 * length bs"
  by (induction bs) (simp_all add: hex_of_bytes_def)

lemma hex_of_bytes_inj [simp]: "hex_of_bytes a = hex_of_bytes b \<longleftrightarrow> a = b"
  by (metis bytes_of_hex_of_bytes option.inject)

lemma to_hex_inj [simp]: "to_hex a = to_hex b \<longleftrightarrow> a = b"
  by (cases a; cases b) (simp add: to_hex_def)

lemma bytes_of_hex_length: "bytes_of_hex h = Some bs \<Longrightarrow> length h = 2 * length bs"
  by (induction h arbitrary: bs rule: bytes_of_hex.induct) (auto split: option.splits)

section \<open>Preimages\<close>

lemma length_le_bytes [simp]: "length (le_bytes k n) = k"
  by (induction k arbitrary: n) auto

lemma le_bytes_inj: "le_bytes k a = le_bytes k b \<Longrightarrow> a mod 256 ^ k = b mod 256 ^ k"
proof (induction k arbitrary: a b)
  case 0
  then show ?case by simp
next
  case (Suc k)
  from Suc.prems have "(char_of (a mod 256) :: char) = char_of (b mod 256)"
    and rest: "le_bytes k (a div 256) = le_bytes k (b div 256)"
    by simp_all
  then have "byte_of (char_of (a mod 256)) = byte_of (char_of (b mod 256))" by simp
  then have lo: "a mod 256 = b mod 256" by simp
  have "a mod 256 ^ Suc k = 256 * (a div 256 mod 256 ^ k) + a mod 256"
    by (simp add: mod_mult2_eq)
  also have "\<dots> = b mod 256 ^ Suc k"
    using Suc.IH[OF rest] lo by (simp add: mod_mult2_eq)
  finally show ?case .
qed

lemma fed_hash: "hash_bytes sha d x = ContentDigest (sha (PREFIX @ le_bytes 8 (length d) @ d @ x))"
  by (simp add: hash_bytes_def digest_finalize_def digest_update_def digest_new_def)

lemma preimage_inj:
  assumes "PREFIX @ le_bytes 8 (length d) @ d @ x = PREFIX @ le_bytes 8 (length d') @ d' @ x'"
    and "length d < 2 ^ 64" and "length d' < 2 ^ 64"
  shows "d = d' \<and> x = x'"
proof -
  from assms(1) have "le_bytes 8 (length d) = le_bytes 8 (length d')"
    and tail: "d @ x = d' @ x'" by simp_all
  then have "length d mod 256 ^ 8 = length d' mod 256 ^ 8" by (intro le_bytes_inj)
  then have "length d = length d'" using assms(2,3) by simp
  with tail show ?thesis by simp
qed

lemma read_all_append:
  "reader_error r = None \<Longrightarrow> read_all (@) acc r = Inr (acc @ delivered r)"
  by (induction r arbitrary: acc rule: delivered.induct) auto

lemma read_all_error: "reader_error r = Some e \<Longrightarrow> read_all upd st r = Inl e"
  by (induction r arbitrary: st rule: reader_error.induct) (auto split: if_splits)

lemma digest_update_append: "digest_update (digest_update st a) b = digest_update st (a @ b)"
  by (simp add: digest_update_def)

lemma digest_update_Nil: "digest_update st [] = st"
  by (simp add: digest_update_def)

lemma read_all_digest:
  "reader_error r = None \<Longrightarrow> read_all digest_update st r = Inr (digest_update st (delivered r))"
proof (induction r arbitrary: st rule: delivered.induct)
  case (2 bs rest)
  then show ?case by (cases "bs = []") (simp_all add: digest_update_append digest_update_Nil)
qed (simp_all add: digest_update_Nil)

section \<open>Properties\<close>



text \<open>
  The wire form round trips: parsing the hexadecimal form of a 32-byte digest gives
  the digest back, and the form has 64 characters.
\<close>

theorem digest_hex_roundtrip:
  assumes "length (digest_bytes d) = DIGEST_LEN"
  shows "from_hex (to_hex d) = Some d \<and> length (to_hex d) = 64"
  using assms by (cases d) (simp add: from_hex_def to_hex_def bytes_of_hex_of_bytes DIGEST_LEN_def)

theorem digest_hex_roundtrip_witness:
  "from_hex (to_hex (ContentDigest (replicate 32 CHR ''z''))) = Some (ContentDigest (replicate 32 CHR ''z''))
     \<and> length (to_hex (ContentDigest (replicate 32 CHR ''z''))) = 64"
  by (rule digest_hex_roundtrip) (simp add: DIGEST_LEN_def)

text \<open>
  Chunking independence: hashing a reader that does not fail gives the digest of the
  bytes it delivers, however they are cut into chunks and however often a read is
  interrupted; a failing reader gives its error and no digest.
\<close>
lemma hash_reader_chunking:
  "hash_reader sha domain r =
     (case reader_error r of
        Some e \<Rightarrow> Inl e
      | None \<Rightarrow> Inr (hash_bytes sha domain (delivered r)))"
proof (cases "reader_error r")
  case None
  then show ?thesis by (simp add: hash_reader_def read_all_digest hash_bytes_def)
next
  case (Some e)
  then show ?thesis by (simp add: hash_reader_def read_all_error)
qed

end
