(* ===== verification/Hub_Component.thy ===== *)
theory Hub_Component
  imports Hub_Digest
begin

text \<open>
  What the registry stores: limits, versions, capability names, capabilities and component
  manifests (\<^verbatim>\<open>limits.rs\<close>, \<^verbatim>\<open>version.rs\<close>, \<^verbatim>\<open>capability.rs\<close>,
  \<^verbatim>\<open>component.rs\<close> of \<^verbatim>\<open>crates/hub-core/src\<close>), with their validation.
  Serialisation to canonical JSON is \<open>serde_json\<close>: a parameter.
\<close>

section \<open>Limits\<close>

record limits =
  max_manifest_bytes :: nat
  max_args :: nat
  max_arg_bytes :: nat
  max_params_bytes :: nat
  max_inputs :: nat
  max_outputs :: nat
  max_capture_bytes :: nat
  max_artifact_bytes :: u64
  max_timeout_ms :: u64

definition default_limits :: limits where
  "default_limits =
     \<lparr>max_manifest_bytes = 256 * 1024, max_args = 64, max_arg_bytes = 4096,
      max_params_bytes = 16 * 1024, max_inputs = 32, max_outputs = 16,
      max_capture_bytes = 1024 * 1024, max_artifact_bytes = 64 * 1024 * 1024 * 1024,
      max_timeout_ms = 60 * 60 * 1000\<rparr>"

section \<open>Versions\<close>

datatype version = Version (version_str: string)

text \<open>\<open>Ord for Version\<close> compares the strings.\<close>

instantiation version :: linorder
begin

definition less_eq_version :: "version \<Rightarrow> version \<Rightarrow> bool" where
  "less_eq_version a b \<longleftrightarrow> version_str a \<le> version_str b"

definition less_version :: "version \<Rightarrow> version \<Rightarrow> bool" where
  "less_version a b \<longleftrightarrow> version_str a < version_str b"

instance
  by standard (auto simp: less_eq_version_def less_version_def version.expand)

end

definition VERSION_MAX_LEN :: nat where
  "VERSION_MAX_LEN = 64"

definition check_version_number :: "string \<Rightarrow> string \<Rightarrow> unit res" where
  "check_version_number raw n =
     (if n = [] \<or> \<not> list_all is_ascii_digit n then
        Inl (Validation (Fmt ''version component {n:?} in {raw:?} must be numeric'' [FDebug n, FDebug raw]))
      else if length n > 1 \<and> starts_with ''0'' n then
        Inl (Validation (Fmt ''version component {n:?} in {raw:?} must not have leading zeros''
          [FDebug n, FDebug raw]))
      else Inr ())"

definition parse_version :: "string \<Rightarrow> version res" where
  "parse_version raw =
     (if raw = [] \<or> length raw > VERSION_MAX_LEN then
        Inl (Validation (Fmt ''version must be 1..={} characters, got {}''
          [FNat VERSION_MAX_LEN, FNat (length raw)]))
      else
        let (core, prerelease) =
          (case split_once CHR ''-'' raw of Some (c, p) \<Rightarrow> (c, Some p) | None \<Rightarrow> (raw, None));
          numbers = split_on CHR ''.'' core
        in if length numbers \<noteq> 3 then
             Inl (Validation (Fmt ''version {raw:?} must have exactly three numeric components'' [FDebug raw]))
           else rbind (try_for (check_version_number raw) numbers)
             (\<lambda>_. case prerelease of
                Some pre \<Rightarrow>
                  if pre = [] \<or> \<not> list_all (\<lambda>b. is_ascii_alphanumeric b \<or> b = CHR ''.'' \<or> b = CHR ''-'') pre
                  then Inl (Validation (Fmt ''prerelease {pre:?} in {raw:?} contains invalid characters''
                    [FDebug pre, FDebug raw]))
                  else Inr (Version raw)
              | None \<Rightarrow> Inr (Version raw)))"

section \<open>Capabilities\<close>

datatype capability_name = CapabilityName (cap_str: string)

definition MAX_NAME_LEN :: nat where
  "MAX_NAME_LEN = 128"

definition validate_segment :: "string \<Rightarrow> unit res" where
  "validate_segment segment =
     (if segment \<noteq> [] \<and> length segment \<le> 64
         \<and> (case segment of c # _ \<Rightarrow> is_ascii_lowercase c | [] \<Rightarrow> False)
         \<and> list_all (\<lambda>c. is_ascii_lowercase c \<or> is_ascii_digit c \<or> c = CHR ''_'') segment
      then Inr ()
      else Inl (Validation (Fmt ''capability segment {segment:?} must match [a-z][a-z0-9_]{{0,63}}''
        [FDebug segment])))"

definition parse_capability_name :: "string \<Rightarrow> capability_name res" where
  "parse_capability_name raw =
     (if raw = [] \<or> length raw > MAX_NAME_LEN then
        Inl (Validation (Fmt ''capability name must be 1..={MAX_NAME_LEN} characters'' [FNat MAX_NAME_LEN]))
      else rbind (try_for validate_segment (split_on CHR ''.'' raw)) (\<lambda>_. Inr (CapabilityName raw)))"

record port =
  port_name :: string
  port_description :: string

record capability =
  cap_name :: capability_name
  contract_version :: version
  cap_inputs :: "port list"
  cap_outputs :: "port list"
  cap_properties :: "(string, string) btree"

definition check_port :: "port \<Rightarrow> unit res" where
  "check_port p =
     (if port_name p = [] \<or> length (port_name p) > 64
      then Inl (InvalidManifest (Fmt ''port name {:?} must be 1..=64 characters'' [FDebug (port_name p)]))
      else Inr ())"

definition validate_ports :: "capability \<Rightarrow> port list \<Rightarrow> unit res" where
  "validate_ports cap side =
     try_unique check_port port_name
       (\<lambda>p. InvalidManifest (Fmt ''duplicate port name {:?} in capability {}''
          [FDebug (port_name p), FStr (cap_str (cap_name cap))])) {} side"

definition validate_capability :: "capability \<Rightarrow> unit res" where
  "validate_capability cap = try_for (validate_ports cap) [cap_inputs cap, cap_outputs cap]"

section \<open>Manifests\<close>

definition MANIFEST_SCHEMA_VERSION :: u16 where
  "MANIFEST_SCHEMA_VERSION = 1"

datatype component_kind = ComponentKind (kind_str: string)
datatype component_name = ComponentName (name_str: string)

definition parse_component_kind :: "string \<Rightarrow> component_kind res" where
  "parse_component_kind raw =
     (if raw \<noteq> [] \<and> length raw \<le> 64
         \<and> (case raw of c # _ \<Rightarrow> is_ascii_lowercase c | [] \<Rightarrow> False)
         \<and> list_all (\<lambda>c. is_ascii_lowercase c \<or> is_ascii_digit c \<or> c = CHR ''_'' \<or> c = CHR ''-'') raw
      then Inr (ComponentKind raw)
      else Inl (InvalidManifest (Fmt ''component kind {raw:?} must be 1..={} chars matching [a-z][a-z0-_-]*''
        [FDebug raw, FNat 64])))"

definition parse_component_name :: "string \<Rightarrow> component_name res" where
  "parse_component_name raw =
     (if raw = [] \<or> length raw > 128 \<or> \<not> list_all (\<lambda>c. \<not> is_control c) (chars raw)
      then Inl (InvalidManifest (Fmt ''component name must be 1..={} characters without control chars'' [FNat 128]))
      else Inr (ComponentName raw))"

record source_info =
  source_commit :: string
  source_repository :: "string option"
  source_dirty :: bool

record output_spec =
  out_name :: string
  out_path :: string
  out_media_type :: "string option"
  out_required :: bool

record process_binding =
  proc_program :: string
  proc_args :: "string list"
  proc_working_dir :: "string option"
  proc_outputs :: "output_spec list"

datatype execution_binding = Process process_binding

record component_manifest =
  manifest_schema_version :: u16
  manifest_id :: component_id
  manifest_name :: component_name
  manifest_version :: version
  manifest_kind :: component_kind
  manifest_capabilities :: "capability list"
  manifest_execution :: "execution_binding option"
  manifest_source :: "source_info option"
  manifest_metadata :: "(string, string) btree"

text \<open>
  The grammar \<open>[a-z0-9][a-z0-9_-]{0,63}\<close>, written out alike for input names, step keys,
  output names and publication step keys.
\<close>

definition slug_char :: "char \<Rightarrow> bool" where
  "slug_char c \<longleftrightarrow> is_ascii_lowercase c \<or> is_ascii_digit c \<or> c = CHR ''_'' \<or> c = CHR ''-''"

definition is_slug :: "string \<Rightarrow> bool" where
  "is_slug s \<longleftrightarrow> s \<noteq> [] \<and> length s \<le> 64
     \<and> (case s of c # _ \<Rightarrow> is_ascii_lowercase c \<or> is_ascii_digit c | [] \<Rightarrow> False)
     \<and> list_all slug_char s"

text \<open>\<open>std::path::Path::components\<close> on Unix, \<open>Path::is_absolute\<close> and \<open>Path::join\<close>.\<close>

datatype path_component = RootDir | CurDir | ParentDir | Normal string

definition normal_components :: "string list \<Rightarrow> path_component list" where
  "normal_components ps =
     map (\<lambda>p. if p = ''..'' then ParentDir else Normal p) (filter (\<lambda>p. p \<noteq> [] \<and> p \<noteq> ''.'') ps)"

definition path_components :: "string \<Rightarrow> path_component list" where
  "path_components path =
     (if starts_with ''/'' path then RootDir # normal_components (split_on CHR ''/'' path)
      else (case split_on CHR ''/'' path of
              [] \<Rightarrow> []
            | p # ps \<Rightarrow> (if p = ''.'' then [CurDir] else []) @ normal_components (p # ps)))"

definition is_absolute :: "string \<Rightarrow> bool" where
  "is_absolute path \<longleftrightarrow> starts_with ''/'' path"

definition path_join :: "string \<Rightarrow> string \<Rightarrow> string" where
  "path_join base path =
     (if is_absolute path then path
      else if base = [] \<or> last base = CHR ''/'' then base @ path
      else base @ ''/'' @ path)"

definition check_path_component :: "string \<Rightarrow> path_component \<Rightarrow> unit res" where
  "check_path_component path c =
     (case c of
        Normal _ \<Rightarrow> Inr ()
      | _ \<Rightarrow> Inl (InvalidManifest (Fmt ''output path {path:?} contains forbidden component {other:?}'' [FDebug path])))"

definition validate_relative_workdir_path :: "string \<Rightarrow> unit res" where
  "validate_relative_workdir_path path =
     (if path = [] \<or> length path > 256 then
        Inl (InvalidManifest (plain ''output path must be 1..=256 characters''))
      else if starts_with ''/'' path \<or> CHR 0x5C \<in> set path \<or> CHR 0x00 \<in> set path then
        Inl (InvalidManifest (Fmt ''output path {path:?} must be relative with forward slashes'' [FDebug path]))
      else try_for (check_path_component path) (path_components path))"

text \<open>The loop of \<open>validate_output_specs\<close>, with the sets \<open>names\<close> and \<open>paths\<close>.\<close>

definition check_media_type :: "string option \<Rightarrow> unit res" where
  "check_media_type m =
     (case m of
        None \<Rightarrow> Inr ()
      | Some media \<Rightarrow>
          if media = [] \<or> length media > 128 \<or> list_ex is_control (chars media)
          then Inl (InvalidManifest (plain ''output media_type must be 1..=128 printable characters''))
          else Inr ())"

fun check_outputs :: "string set \<Rightarrow> string set \<Rightarrow> output_spec list \<Rightarrow> unit res" where
  "check_outputs names paths [] = Inr ()"
| "check_outputs names paths (out # rest) =
     (if \<not> is_slug (out_name out) then
        Inl (InvalidManifest (Fmt ''output name {:?} must match [a-z0-9][a-z0-9_-]{{0,63}}'' [FDebug (out_name out)]))
      else if out_name out \<in> names then
        Inl (InvalidManifest (Fmt ''duplicate output name {:?}'' [FDebug (out_name out)]))
      else rbind (validate_relative_workdir_path (out_path out)) (\<lambda>_.
        if out_path out \<in> paths then
          Inl (InvalidManifest (Fmt ''duplicate output path {:?}'' [FDebug (out_path out)]))
        else rbind (check_media_type (out_media_type out)) (\<lambda>_.
          check_outputs (insert (out_name out) names) (insert (out_path out) paths) rest)))"

definition validate_output_specs :: "output_spec list \<Rightarrow> unit res" where
  "validate_output_specs outs =
     (if length outs > max_outputs default_limits then
        Inl (InvalidManifest (Fmt ''binding declares {} outputs, more than the allowed {}''
          [FNat (length outs), FNat (max_outputs default_limits)]))
      else check_outputs {} {} outs)"

definition check_arg :: "string \<Rightarrow> unit res" where
  "check_arg arg =
     (if CHR 0x00 \<in> set arg then
        Inl (InvalidManifest (plain ''binding args must not contain NUL bytes''))
      else if length arg > 4096 then
        Inl (InvalidManifest (plain ''each binding arg must be at most 4096 characters''))
      else Inr ())"

definition validate_process_binding :: "process_binding \<Rightarrow> unit res" where
  "validate_process_binding p =
     (if proc_program p = [] \<or> length (proc_program p) > 4096 then
        Inl (InvalidManifest (plain ''binding program must be 1..=4096 characters''))
      else if CHR 0x00 \<in> set (proc_program p) then
        Inl (InvalidManifest (plain ''binding program must not contain NUL bytes''))
      else if length (proc_args p) > max_args default_limits then
        Inl (InvalidManifest (Fmt ''binding declares {} args, more than the allowed {}''
          [FNat (length (proc_args p)), FNat (max_args default_limits)]))
      else rbind (try_for check_arg (proc_args p)) (\<lambda>_. validate_output_specs (proc_outputs p)))"

definition validate_binding :: "execution_binding \<Rightarrow> unit res" where
  "validate_binding b = (case b of Process p \<Rightarrow> validate_process_binding p)"

definition validate_manifest :: "component_manifest \<Rightarrow> unit res" where
  "validate_manifest m =
     (if manifest_schema_version m \<noteq> MANIFEST_SCHEMA_VERSION then
        Inl (InvalidManifest (Fmt ''unsupported manifest schema_version {}: this build understands {}''
          [FNat (unat (manifest_schema_version m)), FNat (unat MANIFEST_SCHEMA_VERSION)]))
      else rbind (try_unique validate_capability cap_name
          (\<lambda>cap. InvalidManifest (Fmt ''duplicate capability {}'' [FStr (cap_str (cap_name cap))])) {}
          (manifest_capabilities m)) (\<lambda>_.
        rbind (case manifest_execution m of None \<Rightarrow> Inr () | Some b \<Rightarrow> validate_binding b) (\<lambda>_.
          case manifest_source m of
            None \<Rightarrow> Inr ()
          | Some s \<Rightarrow>
              if source_commit s = [] \<or> length (source_commit s) > 128
              then Inl (InvalidManifest (plain ''source commit must be 1..=128 characters''))
              else Inr ())))"

definition new_v1 :: "component_id \<Rightarrow> component_name \<Rightarrow> version \<Rightarrow> component_kind \<Rightarrow> capability list
    \<Rightarrow> execution_binding option \<Rightarrow> source_info option \<Rightarrow> (string, string) btree \<Rightarrow> component_manifest res" where
  "new_v1 i name ver k caps exe src meta =
     (let m = \<lparr>manifest_schema_version = MANIFEST_SCHEMA_VERSION, manifest_id = i, manifest_name = name,
               manifest_version = ver, manifest_kind = k, manifest_capabilities = caps, manifest_execution = exe,
               manifest_source = src, manifest_metadata = meta\<rparr>
      in rbind (validate_manifest m) (\<lambda>_. Inr m))"

text \<open>
  \<open>canonical_bytes\<close> calls \<open>serde_json::to_vec\<close> (the parameter \<open>ser\<close>, whose left result is
  the serialiser's message); \<open>content_digest\<close> hashes the bytes in the manifest domain.
\<close>

definition canonical_bytes :: "(component_manifest \<Rightarrow> message + bytes) \<Rightarrow> component_manifest \<Rightarrow> bytes res" where
  "canonical_bytes ser m = map_err Storage (ser m)"

definition manifest_digest :: "(bytes \<Rightarrow> bytes) \<Rightarrow> (component_manifest \<Rightarrow> message + bytes)
    \<Rightarrow> component_manifest \<Rightarrow> content_digest res" where
  "manifest_digest sha ser m =
     rbind (canonical_bytes ser m) (\<lambda>bs. Inr (hash_bytes sha DOMAIN_COMPONENT_MANIFEST bs))"

definition find_capability :: "component_manifest \<Rightarrow> capability_name \<Rightarrow> capability option" where
  "find_capability m name = find (\<lambda>c. cap_name c = name) (manifest_capabilities m)"


section \<open>Specifications\<close>

text \<open>The version grammar, declaratively.\<close>

definition version_number :: "string \<Rightarrow> bool" where
  "version_number n \<longleftrightarrow> n \<noteq> [] \<and> list_all is_ascii_digit n \<and> (length n > 1 \<longrightarrow> hd n \<noteq> CHR ''0'')"

definition prerelease_text :: "string \<Rightarrow> bool" where
  "prerelease_text p \<longleftrightarrow> p \<noteq> [] \<and> list_all (\<lambda>b. is_ascii_alphanumeric b \<or> b = CHR ''.'' \<or> b = CHR ''-'') p"

definition version_shape :: "string \<Rightarrow> bool" where
  "version_shape raw \<longleftrightarrow>
     (\<exists>a b c. version_number a \<and> version_number b \<and> version_number c \<and>
        (let core = a @ CHR ''.'' # b @ CHR ''.'' # c in
         raw = core \<or> (\<exists>pre. prerelease_text pre \<and> raw = core @ CHR ''-'' # pre)))"

text \<open>What a well-formed manifest is, as a conjunction of independent conditions.\<close>

definition ports_wf :: "port list \<Rightarrow> bool" where
  "ports_wf ps \<longleftrightarrow> (\<forall>p\<in>set ps. port_name p \<noteq> [] \<and> length (port_name p) \<le> 64) \<and> distinct (map port_name ps)"

definition output_wf :: "output_spec \<Rightarrow> bool" where
  "output_wf out \<longleftrightarrow> is_slug (out_name out) \<and> validate_relative_workdir_path (out_path out) = Inr ()
     \<and> (\<forall>m. out_media_type out = Some m \<longrightarrow> m \<noteq> [] \<and> length m \<le> 128 \<and> list_all (\<lambda>c. \<not> is_control c) (chars m))"

definition binding_wf :: "process_binding \<Rightarrow> bool" where
  "binding_wf p \<longleftrightarrow> proc_program p \<noteq> [] \<and> length (proc_program p) \<le> 4096 \<and> CHR 0x00 \<notin> set (proc_program p)
     \<and> length (proc_args p) \<le> 64 \<and> (\<forall>a\<in>set (proc_args p). CHR 0x00 \<notin> set a \<and> length a \<le> 4096)
     \<and> length (proc_outputs p) \<le> 16 \<and> (\<forall>out\<in>set (proc_outputs p). output_wf out)
     \<and> distinct (map out_name (proc_outputs p)) \<and> distinct (map out_path (proc_outputs p))"

definition manifest_wf :: "component_manifest \<Rightarrow> bool" where
  "manifest_wf m \<longleftrightarrow> manifest_schema_version m = 1
     \<and> (\<forall>c\<in>set (manifest_capabilities m). ports_wf (cap_inputs c) \<and> ports_wf (cap_outputs c))
     \<and> distinct (map cap_name (manifest_capabilities m))
     \<and> (\<forall>p. manifest_execution m = Some (Process p) \<longrightarrow> binding_wf p)
     \<and> (\<forall>s. manifest_source m = Some s \<longrightarrow> source_commit s \<noteq> [] \<and> length (source_commit s) \<le> 128)"

section \<open>Facts\<close>

subsection \<open>Splitting\<close>

lemma split_once_None_iff: "split_once d s = None \<longleftrightarrow> d \<notin> set s"
  by (induction s) auto

lemma split_once_Some_iff: "split_once d s = Some (a, b) \<longleftrightarrow> s = a @ d # b \<and> d \<notin> set a"
proof (induction s arbitrary: a)
  case (Cons c s)
  have "split_once d (c # s) = Some (a, b) \<longleftrightarrow>
      (if c = d then a = [] \<and> s = b else \<exists>a'. a = c # a' \<and> split_once d s = Some (a', b))"
    by auto
  then show ?case using Cons.IH by (cases a) auto
qed simp

lemma split_on_no_occ: "d \<notin> set s \<Longrightarrow> split_on d s = [s]"
  by (induction s) auto

lemma split_on_append: "split_on d (a @ d # b) = split_on d a @ split_on d b"
  by (induction a) (auto split: list.splits)

lemma join_split_on: "join [d] (split_on d s) = s"
proof (induction s)
  case (Cons c s)
  obtain p ps where ps: "split_on d s = p # ps" by (cases "split_on d s") auto
  show ?case
  proof (cases "c = d")
    case True
    then show ?thesis using Cons ps by simp
  next
    case False
    then show ?thesis using Cons ps by (cases ps) simp_all
  qed
qed simp

lemma split_on_three_iff:
  "split_on d s = [a, b, c] \<longleftrightarrow> s = a @ d # b @ d # c \<and> d \<notin> set a \<and> d \<notin> set b \<and> d \<notin> set c"
proof
  assume eq: "split_on d s = [a, b, c]"
  then have "s = join [d] [a, b, c]" using join_split_on[of d s] by simp
  moreover have "d \<notin> set a" "d \<notin> set b" "d \<notin> set c"
    using split_on_no_sep[of _ d s] eq by simp_all
  ultimately show "s = a @ d # b @ d # c \<and> d \<notin> set a \<and> d \<notin> set b \<and> d \<notin> set c" by simp
next
  assume "s = a @ d # b @ d # c \<and> d \<notin> set a \<and> d \<notin> set b \<and> d \<notin> set c"
  then show "split_on d s = [a, b, c]"
    by (simp add: split_on_append split_on_no_occ)
qed

subsection \<open>Versions\<close>

lemma digit_not_sep: "is_ascii_digit c \<Longrightarrow> c \<noteq> CHR ''.'' \<and> c \<noteq> CHR ''-''"
  by (auto simp: is_ascii_digit_def byte_of_def)

lemma version_number_no_sep: "version_number n \<Longrightarrow> CHR ''.'' \<notin> set n \<and> CHR ''-'' \<notin> set n"
  by (auto simp: version_number_def list_all_iff dest: digit_not_sep)

lemma starts_with_0: "starts_with ''0'' n \<longleftrightarrow> n \<noteq> [] \<and> hd n = CHR ''0''"
  by (cases n) auto

lemma check_version_number_iff: "check_version_number raw n = Inr u \<longleftrightarrow> version_number n"
  by (auto simp: check_version_number_def version_number_def starts_with_0)

lemma core_numbers_iff:
  "length (split_on CHR ''.'' core) = 3 \<and> (\<forall>n\<in>set (split_on CHR ''.'' core). version_number n) \<longleftrightarrow>
     (\<exists>a b c. version_number a \<and> version_number b \<and> version_number c \<and> core = a @ CHR ''.'' # b @ CHR ''.'' # c)"
  (is "?l \<longleftrightarrow> ?r")
proof
  assume l: ?l
  then obtain a b c where abc: "split_on CHR ''.'' core = [a, b, c]"
    by (auto simp: numeral_3_eq_3 length_Suc_conv)
  with l show ?r by (auto simp: split_on_three_iff)
next
  assume ?r
  then obtain a b c where "version_number a" "version_number b" "version_number c"
    and "split_on CHR ''.'' core = [a, b, c]"
    using version_number_no_sep by (auto simp: split_on_three_iff)
  then show ?l by simp
qed

lemma core_no_dash:
  "version_number a \<Longrightarrow> version_number b \<Longrightarrow> version_number c \<Longrightarrow>
     CHR ''-'' \<notin> set (a @ CHR ''.'' # b @ CHR ''.'' # c)"
  using version_number_no_sep by auto

subsection \<open>Manifests\<close>

lemma validate_ports_iff [result_simps]: "validate_ports cap ps = Inr u \<longleftrightarrow> ports_wf ps"
  by (auto simp: validate_ports_def ports_wf_def check_port_def result_simps)

lemma validate_capability_iff [result_simps]:
  "validate_capability cap = Inr u \<longleftrightarrow> ports_wf (cap_inputs cap) \<and> ports_wf (cap_outputs cap)"
  unfolding validate_capability_def try_for_Inr_iff by (simp add: result_simps)

lemma check_media_type_iff [result_simps]:
  "check_media_type m = Inr u \<longleftrightarrow>
     (\<forall>t. m = Some t \<longrightarrow> t \<noteq> [] \<and> length t \<le> 128 \<and> list_all (\<lambda>c. \<not> is_control c) (chars t))"
  by (auto simp: check_media_type_def list_all_iff list_ex_iff split: option.splits)

lemma check_outputs_iff [result_simps]:
  "check_outputs names paths outs = Inr u \<longleftrightarrow>
     (\<forall>out\<in>set outs. output_wf out) \<and> distinct (map out_name outs) \<and> distinct (map out_path outs)
     \<and> names \<inter> out_name ` set outs = {} \<and> paths \<inter> out_path ` set outs = {}"
proof (induction outs arbitrary: names paths u)
  case (Cons out outs)
  show ?case
    by (auto simp: result_simps Cons.IH output_wf_def)
qed simp

lemma validate_binding_iff [result_simps]: "validate_binding (Process p) = Inr u \<longleftrightarrow> binding_wf p"
  by (auto simp: validate_binding_def validate_process_binding_def binding_wf_def
      validate_output_specs_def check_arg_def default_limits_def result_simps)

lemma manifest_valid_iff: "validate_manifest m = Inr u \<longleftrightarrow> manifest_wf m"
proof -
  have "(case manifest_execution m of None \<Rightarrow> Inr () | Some b \<Rightarrow> validate_binding b) = Inr () \<longleftrightarrow>
      (\<forall>p. manifest_execution m = Some (Process p) \<longrightarrow> binding_wf p)"
    by (cases "manifest_execution m") (auto simp: result_simps, metis execution_binding.exhaust validate_binding_iff)
  then show ?thesis
    by (auto simp: validate_manifest_def manifest_wf_def MANIFEST_SCHEMA_VERSION_def result_simps
        split: option.splits)
qed

subsection \<open>Paths\<close>

lemma normal_components_append:
  "normal_components (a @ b) = normal_components a @ normal_components b"
  by (simp add: normal_components_def)

lemma workdir_path_components:
  assumes "validate_relative_workdir_path p = Inr ()"
  obtains names where "path_components p = map Normal names" and "names \<noteq> []"
    and "normal_components (split_on CHR ''/'' p) = map Normal names" and "\<not> is_absolute p"
proof -
  from assms have ne: "p \<noteq> []" and rel: "\<not> starts_with ''/'' p"
    and all: "\<forall>c\<in>set (path_components p). check_path_component p c = Inr ()"
    by (auto simp: validate_relative_workdir_path_def result_simps split: if_splits)
  obtain q qs where q: "split_on CHR ''/'' p = q # qs" by (cases "split_on CHR ''/'' p") auto
  from ne rel obtain c cs where c: "p = c # cs" "c \<noteq> CHR ''/''"
    by (cases p) auto
  have "q \<noteq> []" using q c by (auto split: list.splits)
  moreover have "q \<noteq> ''.''"
    using all q rel by (auto simp: path_components_def check_path_component_def)
  ultimately have comps: "path_components p = normal_components (q # qs)"
    and hd: "normal_components (q # qs) \<noteq> []"
    using q rel by (simp_all add: path_components_def normal_components_def)
  have "\<forall>c\<in>set (path_components p). \<exists>n. c = Normal n"
  proof
    fix c assume "c \<in> set (path_components p)"
    with all have "check_path_component p c = Inr ()" by blast
    then show "\<exists>n. c = Normal n" by (cases c) (simp_all add: check_path_component_def)
  qed
  then obtain names where "path_components p = map Normal names"
    by (metis ex_map_conv)
  with comps hd q rel show ?thesis
    by (intro that[of names]) (auto simp: is_absolute_def)
qed

text \<open>A relative path joined to an absolute one adds its own components.\<close>

lemma path_components_join:
  assumes "is_absolute w" and "\<not> is_absolute p"
  shows "is_absolute (path_join w p)"
    and "path_components (path_join w p) = path_components w @ normal_components (split_on CHR ''/'' p)"
proof -
  have wne: "w \<noteq> []" using assms(1) by (auto simp: is_absolute_def)
  have root: "path_components v = RootDir # normal_components (split_on CHR ''/'' v)" if "is_absolute v" for v
    using that by (simp add: path_components_def is_absolute_def)
  show abs: "is_absolute (path_join w p)"
    using assms wne by (cases w) (auto simp: path_join_def is_absolute_def)
  have "normal_components (split_on CHR ''/'' (path_join w p)) =
      normal_components (split_on CHR ''/'' w) @ normal_components (split_on CHR ''/'' p)"
  proof (cases "last w = CHR ''/''")
    case True
    then obtain w' where w': "w = w' @ [CHR ''/'']" using wne by (metis append_butlast_last_id)
    have "split_on CHR ''/'' w = split_on CHR ''/'' w' @ [[]]"
      using split_on_append[of "CHR ''/''" w' "[]"] w' by simp
    moreover have "split_on CHR ''/'' (w @ p) = split_on CHR ''/'' w' @ split_on CHR ''/'' p"
      using split_on_append[of "CHR ''/''" w' p] w' by simp
    moreover have "normal_components [[]] = []" by (simp add: normal_components_def)
    ultimately show ?thesis using True assms(2)
      by (simp add: path_join_def normal_components_append)
  next
    case False
    then show ?thesis using assms(2) wne
      by (simp add: path_join_def split_on_append normal_components_append)
  qed
  with root[OF abs] root[OF assms(1)] show "path_components (path_join w p) = path_components w @ normal_components (split_on CHR ''/'' p)"
    by simp
qed

section \<open>Properties\<close>

text \<open>
  The version parser accepts exactly the grammar: at most 64 characters,
  \<open>MAJOR.MINOR.PATCH\<close> without leading zeros, optionally followed by a non-empty
  prerelease, and the accepted value is the input unchanged.
\<close>

theorem parse_version_iff:
  "parse_version raw = Inr v \<longleftrightarrow> v = Version raw \<and> length raw \<le> 64 \<and> version_shape raw"
proof (cases "split_once CHR ''-'' raw")
  case None
  then have nd: "CHR ''-'' \<notin> set raw" by (simp add: split_once_None_iff)
  have "version_shape raw \<longleftrightarrow> length (split_on CHR ''.'' raw) = 3 \<and> (\<forall>n\<in>set (split_on CHR ''.'' raw). version_number n)"
    unfolding core_numbers_iff using nd by (auto simp: version_shape_def Let_def)
  moreover have "version_shape raw \<Longrightarrow> raw \<noteq> []"
    by (auto simp: version_shape_def Let_def)
  ultimately show ?thesis using None
    by (auto simp: parse_version_def Let_def VERSION_MAX_LEN_def result_simps check_version_number_iff)
next
  case (Some cp)
  obtain core pre where cp: "cp = (core, pre)" by (cases cp)
  with Some have raw: "raw = core @ CHR ''-'' # pre" and nd: "CHR ''-'' \<notin> set core"
    by (simp_all add: split_once_Some_iff)
  have "version_shape raw \<longleftrightarrow> prerelease_text pre \<and>
      length (split_on CHR ''.'' core) = 3 \<and> (\<forall>n\<in>set (split_on CHR ''.'' core). version_number n)"
    unfolding core_numbers_iff
  proof
    assume "version_shape raw"
    then obtain a b c where nums: "version_number a" "version_number b" "version_number c"
      and sh: "raw = a @ CHR ''.'' # b @ CHR ''.'' # c \<or>
        (\<exists>p. prerelease_text p \<and> raw = (a @ CHR ''.'' # b @ CHR ''.'' # c) @ CHR ''-'' # p)"
      by (auto simp: version_shape_def Let_def)
    let ?k = "a @ CHR ''.'' # b @ CHR ''.'' # c"
    have nk: "CHR ''-'' \<notin> set ?k" by (rule core_no_dash[OF nums])
    moreover have "CHR ''-'' \<in> set raw" using raw by simp
    ultimately have "raw \<noteq> ?k" by metis
    with sh obtain p where p: "prerelease_text p" "raw = ?k @ CHR ''-'' # p" by blast
    have "split_once CHR ''-'' raw = Some (?k, p)" using p nk by (simp add: split_once_Some_iff)
    with Some cp have "core = ?k" "pre = p" by simp_all
    with p nums show "prerelease_text pre \<and> (\<exists>a b c. version_number a \<and> version_number b \<and> version_number c
        \<and> core = a @ CHR ''.'' # b @ CHR ''.'' # c)" by blast
  next
    assume "prerelease_text pre \<and> (\<exists>a b c. version_number a \<and> version_number b \<and> version_number c
        \<and> core = a @ CHR ''.'' # b @ CHR ''.'' # c)"
    then obtain a b c where "version_number a" "version_number b" "version_number c"
      and "prerelease_text pre" and "raw = (a @ CHR ''.'' # b @ CHR ''.'' # c) @ CHR ''-'' # pre"
      using raw by blast
    then show "version_shape raw" unfolding version_shape_def Let_def by blast
  qed
  then show ?thesis using Some cp raw
    by (auto simp: parse_version_def Let_def VERSION_MAX_LEN_def result_simps check_version_number_iff prerelease_text_def)
qed


text \<open>
  Declared output paths stay inside the run's working directory: for an accepted
  path, joining it to an absolute working directory gives the directory's own components
  followed by at least one ordinary name, so no \<open>..\<close>, \<open>.\<close> or root component is left.
\<close>

theorem output_path_contained:
  assumes "validate_relative_workdir_path p = Inr ()" and "is_absolute w"
  shows "\<exists>names. names \<noteq> [] \<and> path_components (path_join w p) = path_components w @ map Normal names"
  using workdir_path_components[OF assms(1)] path_components_join(2)[OF assms(2)] by metis

theorem output_path_contained_witness:
  "\<exists>names. names \<noteq> [] \<and> path_components (path_join ''/w'' ''out/r.json'') = path_components ''/w'' @ map Normal names"
  by (rule output_path_contained)
    (simp_all add: validate_relative_workdir_path_def path_components_def normal_components_def
      check_path_component_def starts_with_def is_absolute_def)

text \<open>
  Manifest validation does not look at the component name or kind: a manifest whose
  name and kind are replaced by arbitrary strings, empty ones included, validates alike.
  The grammars of \<open>ComponentName\<close> and \<open>ComponentKind\<close> hold only for values made by
  \<open>parse\<close>; their derived deserialisation does not call it.
\<close>

lemma validate_manifest_ignores_name_and_kind:
  "validate_manifest (m\<lparr>manifest_name := n, manifest_kind := k\<rparr>) = validate_manifest m"
  by (simp add: validate_manifest_def)

text \<open>
  The duplicate-path guard compares spellings: two outputs whose paths differ only in
  a repeated slash are accepted together although they name the same file.
\<close>

lemma duplicate_output_path_spelling:
  "validate_output_specs
     [\<lparr>out_name = ''a'', out_path = ''out/r'', out_media_type = None, out_required = True\<rparr>,
      \<lparr>out_name = ''b'', out_path = ''out//r'', out_media_type = None, out_required = True\<rparr>] = Inr ()
   \<and> path_components ''out/r'' = path_components ''out//r''"
  by (simp add: validate_output_specs_def default_limits_def is_slug_def slug_char_def
      is_ascii_lowercase_def is_ascii_digit_def byte_of_def validate_relative_workdir_path_def
      starts_with_def path_components_def normal_components_def check_path_component_def check_media_type_def)

end
