(* ===== verification/Hub_Dag.thy ===== *)
theory Hub_Dag
  imports Hub_Component
begin

text \<open>
  The directed acyclic graph under workflow composition
  (\<^verbatim>\<open>crates/hub-core/src/dag.rs\<close>): construction with a cycle check by depth-first
  search, and Kahn's topological sort with an ordered frontier.
\<close>

section \<open>Model\<close>

record dag_limits =
  max_nodes :: nat
  max_edges :: nat

definition default_dag_limits :: dag_limits where
  "default_dag_limits = \<lparr>max_nodes = 1024, max_edges = 4096\<rparr>"

type_synonym edge_map = "(string, string list) btree"

record 'a dag =
  dag_nodes :: "(string, 'a) btree"
  dag_edges :: edge_map

definition dag_new :: "'a dag" where
  "dag_new = \<lparr>dag_nodes = [], dag_edges = []\<rparr>"

definition node_count :: "'a dag \<Rightarrow> nat" where
  "node_count g = length (dag_nodes g)"

definition edge_count :: "'a dag \<Rightarrow> nat" where
  "edge_count g = sum_list (map length (bt_values (dag_edges g)))"

definition add_node :: "string \<Rightarrow> 'a \<Rightarrow> dag_limits \<Rightarrow> 'a dag \<Rightarrow> 'a dag res" where
  "add_node key payload lim g =
     (if bt_get (dag_nodes g) key = None \<and> length (dag_nodes g) \<ge> max_nodes lim then
        Inl (Validation (Fmt ''DAG cannot exceed {} nodes'' [FNat (max_nodes lim)]))
      else Inr (g\<lparr>dag_nodes := bt_insert key payload (dag_nodes g)\<rparr>))"

text \<open>
  \<open>Dag::reachable\<close>. The stack grows and shrinks at its end; here its top is the head, so
  \<open>extend\<close> prepends the successors in reverse.
\<close>

definition successors :: "edge_map \<Rightarrow> string \<Rightarrow> string list" where
  "successors es u = (case bt_get es u of None \<Rightarrow> [] | Some ts \<Rightarrow> ts)"

function reach_loop :: "edge_map \<Rightarrow> string \<Rightarrow> string list \<Rightarrow> string set \<Rightarrow> bool" where
  "reach_loop es target [] seen = False"
| "reach_loop es target (current # stack) seen =
     (if current = target then True
      else if current \<in> seen then reach_loop es target stack seen
      else reach_loop es target (rev (successors es current) @ stack) (insert current seen))"
  by pat_completeness auto

definition unseen_keys :: "edge_map \<Rightarrow> string set \<Rightarrow> nat" where
  "unseen_keys es seen = card (fst ` set es - seen)"

lemma unseen_keys_less:
  assumes "u \<notin> seen" and "successors es u \<noteq> []"
  shows "unseen_keys es (insert u seen) < unseen_keys es seen"
proof -
  from assms(2) have "u \<in> fst ` set es"
    by (auto simp: successors_def split: option.splits dest: map_of_SomeD) (force dest: map_of_SomeD)
  with assms(1) have "fst ` set es - insert u seen \<subset> fst ` set es - seen" by blast
  then show ?thesis unfolding unseen_keys_def by (intro psubset_card_mono) simp_all
qed

lemma unseen_keys_mono: "unseen_keys es (insert u seen) \<le> unseen_keys es seen"
  unfolding unseen_keys_def by (intro card_mono) auto

termination reach_loop
proof (relation "measures [\<lambda>(es, t, st, seen). unseen_keys es seen, \<lambda>(es, t, st, seen). length st]")
  fix es :: edge_map and target current :: string and stack seen
  assume "current \<notin> seen"
  then show "((es, target, rev (successors es current) @ stack, insert current seen),
      (es, target, current # stack, seen))
      \<in> measures [\<lambda>(es, t, st, seen). unseen_keys es seen, \<lambda>(es, t, st, seen). length st]"
    using unseen_keys_less[of current seen es] unseen_keys_mono[of es current seen]
    by (cases "successors es current = []") auto
qed auto

definition reachable :: "edge_map \<Rightarrow> string \<Rightarrow> string \<Rightarrow> bool" where
  "reachable es start target = reach_loop es target [start] {}"

definition add_edge :: "string \<Rightarrow> string \<Rightarrow> dag_limits \<Rightarrow> 'a dag \<Rightarrow> 'a dag res" where
  "add_edge from_key to_key lim g =
     (if bt_get (dag_nodes g) from_key = None \<or> bt_get (dag_nodes g) to_key = None then
        Inl (Validation (Fmt ''cannot connect unknown nodes {from:?} -> {to:?}'' [FDebug from_key, FDebug to_key]))
      else if from_key = to_key then
        Inl (Validation (Fmt ''self edge {from:?} -> {from:?} would form a cycle'' [FDebug from_key]))
      else
        let already = to_key \<in> set (successors (dag_edges g) from_key) in
        if \<not> already \<and> edge_count g \<ge> max_edges lim then
          Inl (Validation (Fmt ''DAG cannot exceed {} edges'' [FNat (max_edges lim)]))
        else if reachable (dag_edges g) to_key from_key then
          Inl (Validation (Fmt ''edge {from:?} -> {to:?} would create a cycle'' [FDebug from_key, FDebug to_key]))
        else Inr (g\<lparr>dag_edges := bt_insert from_key (bs_insert to_key (successors (dag_edges g) from_key))
               (dag_edges g)\<rparr>))"

text \<open>
  \<open>Dag::topological_order\<close>. A missing map entry (\<open>expect\<close>) and a decrement below zero
  are panics: the result \<open>None\<close>.
\<close>

type_synonym indegrees = "(string, nat) btree"

definition bt_modify :: "'k \<Rightarrow> ('v \<Rightarrow> 'v) \<Rightarrow> ('k, 'v) btree \<Rightarrow> ('k, 'v) btree" where
  "bt_modify k f m = map (\<lambda>(k', v). (k', if k' = k then f v else v)) m"

fun count_targets :: "string list \<Rightarrow> indegrees \<Rightarrow> indegrees option" where
  "count_targets [] d = Some d"
| "count_targets (t # ts) d =
     (case bt_get d t of None \<Rightarrow> None | Some _ \<Rightarrow> count_targets ts (bt_modify t Suc d))"

fun relax :: "string list \<Rightarrow> indegrees \<Rightarrow> string list \<Rightarrow> (indegrees \<times> string list) option" where
  "relax [] d ready = Some (d, ready)"
| "relax (t # ts) d ready =
     (case bt_get d t of
        None \<Rightarrow> None
      | Some n \<Rightarrow>
          if n = 0 then None
          else relax ts (bt_modify t (\<lambda>n. n - 1) d) (if n - 1 = 0 then bs_insert t ready else ready))"

lemma length_bs_insert: "length (bs_insert k s) \<le> Suc (length s)"
  by (induction s) auto

lemma sum_modify_pred:
  "bt_get d t = Some n \<Longrightarrow> 0 < n \<Longrightarrow>
     sum_list (bt_values (bt_modify t (\<lambda>n. n - 1) d)) < (sum_list (bt_values d) :: nat)"
proof (induction d)
  case (Cons e d)
  have le: "sum_list (bt_values (bt_modify t (\<lambda>n. n - 1) d)) \<le> sum_list (bt_values d)"
    by (induction d) (auto simp: bt_modify_def)
  obtain k v where e: "e = (k, v)" by (cases e)
  show ?case
  proof (cases "k = t")
    case True
    then show ?thesis using Cons.prems le e by (simp add: bt_modify_def)
  next
    case False
    then show ?thesis using Cons e by (simp add: bt_modify_def)
  qed
qed simp

lemma relax_measure:
  "relax ts d ready = Some (d', ready') \<Longrightarrow>
     2 * sum_list (bt_values d') + length ready' \<le> 2 * sum_list (bt_values d) + length ready"
proof (induction ts arbitrary: d ready)
  case (Cons t ts)
  from Cons.prems obtain n where n: "bt_get d t = Some n" "0 < n"
    and rec: "relax ts (bt_modify t (\<lambda>n. n - 1) d) (if n - 1 = 0 then bs_insert t ready else ready) = Some (d', ready')"
    by (auto split: option.splits if_splits)
  have "sum_list (bt_values (bt_modify t (\<lambda>n. n - 1) d)) < sum_list (bt_values d)"
    by (rule sum_modify_pred[OF n])
  moreover have "length (if n - 1 = 0 then bs_insert t ready else ready) \<le> Suc (length ready)"
    using length_bs_insert[of t ready] by simp
  ultimately show ?case using Cons.IH[OF rec] by linarith
qed simp

function kahn_loop :: "edge_map \<Rightarrow> indegrees \<Rightarrow> string list \<Rightarrow> string list \<Rightarrow> string list option" where
  "kahn_loop es d [] order = Some order"
| "kahn_loop es d (k # ready) order =
     (case relax (successors es k) d ready of
        None \<Rightarrow> None
      | Some (d', ready') \<Rightarrow> kahn_loop es d' ready' (order @ [k]))"
  by pat_completeness auto
termination
  by (relation "measure (\<lambda>(es, d, ready, order). 2 * sum_list (bt_values d) + length ready)")
    (auto dest!: relax_measure)

definition topological_order :: "'a dag \<Rightarrow> (string \<times> 'a) list res option" where
  "topological_order g =
     (case count_targets (concat (bt_values (dag_edges g))) (map (\<lambda>k. (k, 0)) (bt_keys (dag_nodes g))) of
        None \<Rightarrow> None
      | Some indegree \<Rightarrow>
         (case kahn_loop (dag_edges g) indegree (bt_keys (filter (\<lambda>(_, n). n = 0) indegree)) [] of
            None \<Rightarrow> None
          | Some order \<Rightarrow>
              if length order \<noteq> length (dag_nodes g) then
                Some (Inl (Validation (plain ''cycle detected during topological sort'')))
              else if list_all (\<lambda>k. bt_get (dag_nodes g) k \<noteq> None) order then
                Some (Inr (map (\<lambda>k. (k, the (bt_get (dag_nodes g) k))) order))
              else None))"


section \<open>Specifications\<close>

text \<open>The edge relation, the invariant of the type, and what a valid greedy order is.\<close>

definition edge_rel :: "edge_map \<Rightarrow> (string \<times> string) set" where
  "edge_rel es = {(u, v). v \<in> set (successors es u)}"

definition dag_wf :: "'a dag \<Rightarrow> bool" where
  "dag_wf g \<longleftrightarrow> bt_wf (dag_nodes g) \<and> bt_wf (dag_edges g)
     \<and> (\<forall>ts\<in>set (bt_values (dag_edges g)). bs_wf ts)
     \<and> edge_rel (dag_edges g) \<subseteq> fst ` set (dag_nodes g) \<times> fst ` set (dag_nodes g)
     \<and> acyclic (edge_rel (dag_edges g))"

definition within_limits :: "dag_limits \<Rightarrow> 'a dag \<Rightarrow> bool" where
  "within_limits lim g \<longleftrightarrow> node_count g \<le> max_nodes lim \<and> edge_count g \<le> max_edges lim"

definition eligible :: "string set \<Rightarrow> (string \<times> string) set \<Rightarrow> string set \<Rightarrow> string \<Rightarrow> bool" where
  "eligible N E finished v \<longleftrightarrow> v \<in> N \<and> v \<notin> finished \<and> (\<forall>u. (u, v) \<in> E \<longrightarrow> u \<in> finished)"

definition greedy_order :: "string set \<Rightarrow> (string \<times> string) set \<Rightarrow> string list \<Rightarrow> bool" where
  "greedy_order N E order \<longleftrightarrow>
     (\<forall>i < length order. eligible N E (set (take i order)) (order ! i)
        \<and> (\<forall>w. eligible N E (set (take i order)) w \<longrightarrow> order ! i \<le> w))"

datatype 'a dag_op = AddNode string 'a | AddEdge string string

fun apply_op :: "dag_limits \<Rightarrow> 'a dag \<Rightarrow> 'a dag_op \<Rightarrow> 'a dag res" where
  "apply_op lim g (AddNode k p) = add_node k p lim g"
| "apply_op lim g (AddEdge u v) = add_edge u v lim g"

definition blockers :: "(string \<times> string) set \<Rightarrow> string set \<Rightarrow> string \<Rightarrow> nat" where
  "blockers E finished v = card {u. (u, v) \<in> E \<and> u \<notin> finished}"

definition kahn_inv :: "string set \<Rightarrow> edge_map \<Rightarrow> indegrees \<Rightarrow> string list \<Rightarrow> string list \<Rightarrow> bool" where
  "kahn_inv N es d ready order \<longleftrightarrow>
     distinct order \<and> set order \<subseteq> N
     \<and> (\<forall>v. bt_get d v = (if v \<in> N then Some (blockers (edge_rel es) (set order) v) else None))
     \<and> bs_wf ready \<and> set ready = {v \<in> N. v \<notin> set order \<and> blockers (edge_rel es) (set order) v = 0}
     \<and> greedy_order N (edge_rel es) order"

section \<open>Facts\<close>

subsection \<open>Reachability\<close>

lemma edge_rel_iff: "(u, v) \<in> edge_rel es \<longleftrightarrow> v \<in> set (successors es u)"
  by (simp add: edge_rel_def)

lemma reach_loop_sound:
  "reach_loop es t st seen \<Longrightarrow> \<exists>s\<in>set st. (s, t) \<in> (edge_rel es)\<^sup>*"
proof (induction es t st seen rule: reach_loop.induct)
  case (2 es t c st seen)
  show ?case
  proof (cases "c = t \<or> c \<in> seen")
    case True
    then show ?thesis using 2 by (auto split: if_splits)
  next
    case False
    with 2 have "\<exists>s\<in>set (rev (successors es c) @ st). (s, t) \<in> (edge_rel es)\<^sup>*" by simp
    then obtain s where s: "s \<in> set (successors es c) \<or> s \<in> set st" and st: "(s, t) \<in> (edge_rel es)\<^sup>*" by auto
    from s show ?thesis
    proof
      assume "s \<in> set (successors es c)"
      then have "(c, s) \<in> edge_rel es" by (simp add: edge_rel_iff)
      with st have "(c, t) \<in> (edge_rel es)\<^sup>*" by (rule converse_rtrancl_into_rtrancl[rotated])
      then show ?thesis by simp
    next
      assume "s \<in> set st"
      with st show ?thesis by auto
    qed
  qed
qed simp

lemma closed_rtrancl:
  assumes "(s, t) \<in> R\<^sup>*" and "s \<in> A" and "\<And>u v. u \<in> A \<Longrightarrow> (u, v) \<in> R \<Longrightarrow> v \<in> A"
  shows "t \<in> A"
  using assms by (induction rule: rtrancl_induct) auto

lemma reach_loop_complete:
  assumes "\<not> reach_loop es t st seen" and "t \<notin> seen"
    and "\<forall>u\<in>seen. set (successors es u) \<subseteq> seen \<union> set st"
  shows "\<forall>s\<in>set st \<union> seen. (s, t) \<notin> (edge_rel es)\<^sup>*"
  using assms
proof (induction es t st seen rule: reach_loop.induct)
  case (1 es t seen)
  have "v \<in> seen" if "u \<in> seen" and "(u, v) \<in> edge_rel es" for u v
    using that 1 by (auto simp: edge_rel_iff)
  then have "t \<in> seen" if "s \<in> seen" and "(s, t) \<in> (edge_rel es)\<^sup>*" for s
    using closed_rtrancl[OF that(2,1)] by blast
  with 1 show ?case by auto
next
  case (2 es t c st seen)
  from "2.prems"(1) have ct: "c \<noteq> t" by auto
  show ?case
  proof (cases "c \<in> seen")
    case True
    have "\<forall>s\<in>set st \<union> seen. (s, t) \<notin> (edge_rel es)\<^sup>*"
      using "2.IH"(1)[OF ct True] "2.prems" ct True by auto
    with True show ?thesis by auto
  next
    case False
    have "\<forall>s\<in>set (rev (successors es c) @ st) \<union> insert c seen. (s, t) \<notin> (edge_rel es)\<^sup>*"
      using "2.IH"(2)[OF ct False] "2.prems" ct False by auto
    then show ?thesis by auto
  qed
qed

lemma reachable_rtrancl: "reachable es s t \<longleftrightarrow> (s, t) \<in> (edge_rel es)\<^sup>*"
  using reach_loop_sound[of es t "[s]" "{}"] reach_loop_complete[of es t "[s]" "{}"]
  by (auto simp: reachable_def simp del: reach_loop.simps)

subsection \<open>Construction\<close>

lemma successors_insert:
  "successors (bt_insert u ts es) v = (if v = u then ts else successors es v)"
  by (simp add: successors_def)

lemma edge_rel_insert:
  "edge_rel (bt_insert u (bs_insert v (successors es u)) es) = insert (u, v) (edge_rel es)"
  by (auto simp: edge_rel_iff successors_insert split: if_splits)

lemma successors_wf:
  assumes "\<forall>ts\<in>set (bt_values es). bs_wf ts"
  shows "bs_wf (successors es u)"
  using assms by (auto simp: successors_def split: option.splits dest!: map_of_SomeD)

lemma values_insert: "set (bt_values (bt_insert k v m)) \<subseteq> insert v (set (bt_values m))"
proof (induction m)
  case (Cons e m)
  obtain a b where "e = (a, b)" by (cases e)
  then show ?case using Cons by (cases "k < a"; cases "k = a"; simp) blast+
qed simp

lemma dag_wf_new: "dag_wf (dag_new :: 'a dag)"
  by (simp add: dag_wf_def dag_new_def edge_rel_def successors_def acyclic_def)

lemma dag_wf_add_node:
  assumes "dag_wf g" and "add_node k p lim g = Inr g'"
  shows "dag_wf g'"
  using assms by (auto simp: add_node_def dag_wf_def split: if_splits)

lemma add_edge_Inr:
  assumes "add_edge u v lim g = Inr g'"
  shows "u \<in> fst ` set (dag_nodes g)" "v \<in> fst ` set (dag_nodes g)" "u \<noteq> v"
    "(v, u) \<notin> (edge_rel (dag_edges g))\<^sup>*"
    "g' = g\<lparr>dag_edges := bt_insert u (bs_insert v (successors (dag_edges g) u)) (dag_edges g)\<rparr>"
    "v \<in> set (successors (dag_edges g) u) \<or> edge_count g < max_edges lim"
  using assms
  by (auto simp: add_edge_def Let_def reachable_rtrancl map_of_eq_None_iff not_le split: if_splits)

lemma dag_wf_add_edge:
  assumes "dag_wf g" and "add_edge u v lim g = Inr g'"
  shows "dag_wf g'"
proof -
  note e = add_edge_Inr[OF assms(2)]
  have "acyclic (insert (u, v) (edge_rel (dag_edges g)))"
    using assms(1) e(4) by (simp add: acyclic_insert dag_wf_def)
  moreover have "bs_wf (bs_insert v (successors (dag_edges g) u))"
    using assms(1) by (intro bs_wf_insert successors_wf) (simp add: dag_wf_def)
  then have "\<forall>ts\<in>insert (bs_insert v (successors (dag_edges g) u)) (set (bt_values (dag_edges g))). bs_wf ts"
    using assms(1) by (simp add: dag_wf_def)
  then have "\<forall>ts\<in>set (bt_values (dag_edges g')). bs_wf ts"
    using values_insert[of u "bs_insert v (successors (dag_edges g) u)" "dag_edges g"]
    unfolding e(5) by (simp del: set_map) (blast dest: subsetD)
  ultimately show ?thesis using assms(1) e(1,2)
    by (auto simp: dag_wf_def e(5) edge_rel_insert)
qed

subsection \<open>Kahn's algorithm\<close>

lemma bt_get_modify: "bt_get (bt_modify k f m) k' = (if k' = k then map_option f (bt_get m k) else bt_get m k')"
  by (induction m) (auto simp: bt_modify_def)

lemma bt_keys_modify [simp]: "bt_keys (bt_modify k f m) = bt_keys m"
  by (auto simp: bt_modify_def)

lemma count_targets_spec:
  assumes "\<forall>t\<in>set ts. bt_get d t \<noteq> None"
  shows "\<exists>d'. count_targets ts d = Some d' \<and> bt_keys d' = bt_keys d
    \<and> (\<forall>v. bt_get d' v = map_option (\<lambda>n. n + count_list ts v) (bt_get d v))"
  using assms
proof (induction ts arbitrary: d)
  case Nil
  then show ?case by (simp add: option.map_ident)
next
  case (Cons t ts)
  from Cons.prems obtain n where n: "bt_get d t = Some n" by auto
  have "\<forall>t'\<in>set ts. bt_get (bt_modify t Suc d) t' \<noteq> None"
    using Cons.prems by (auto simp: bt_get_modify)
  from Cons.IH[OF this] obtain d' where d': "count_targets ts (bt_modify t Suc d) = Some d'"
    "bt_keys d' = bt_keys d"
    "\<forall>v. bt_get d' v = map_option (\<lambda>n. n + count_list ts v) (bt_get (bt_modify t Suc d) v)"
    by auto
  show ?case
    by (rule exI[of _ d']) (use n d' in \<open>auto simp: bt_get_modify option.map_comp comp_def\<close>)
qed

lemma relax_spec:
  assumes "distinct ts" and "\<forall>t\<in>set ts. \<exists>n>0. bt_get d t = Some n" and "bs_wf ready"
  shows "\<exists>d' r'. relax ts d ready = Some (d', r') \<and> bs_wf r'
    \<and> (\<forall>v. bt_get d' v = (if v \<in> set ts then map_option (\<lambda>n. n - 1) (bt_get d v) else bt_get d v))
    \<and> set r' = set ready \<union> {t \<in> set ts. bt_get d t = Some 1}"
  using assms
proof (induction ts arbitrary: d ready)
  case (Cons t ts)
  from Cons.prems(2) obtain n where n: "bt_get d t = Some n" "0 < n" by auto
  let ?d = "bt_modify t (\<lambda>n. n - 1) d"
  let ?r = "if n - 1 = 0 then bs_insert t ready else ready"
  have wf: "bs_wf ?r" using Cons.prems(3) by (simp add: bs_wf_insert)
  have same: "bt_get ?d t' = bt_get d t'" if "t' \<in> set ts" for t'
    using Cons.prems(1) that by (auto simp: bt_get_modify)
  have ex: "\<forall>t'\<in>set ts. \<exists>n>0. bt_get ?d t' = Some n" using Cons.prems(2) same by auto
  have dts: "distinct ts" using Cons.prems(1) by simp
  obtain d' r' where rec: "relax ts ?d ?r = Some (d', r')" "bs_wf r'"
    "\<forall>v. bt_get d' v = (if v \<in> set ts then map_option (\<lambda>n. n - 1) (bt_get ?d v) else bt_get ?d v)"
    "set r' = set ?r \<union> {t' \<in> set ts. bt_get ?d t' = Some 1}"
    using Cons.IH[OF dts ex wf] by blast
  have "set r' = set ready \<union> {t' \<in> set (t # ts). bt_get d t' = Some 1}"
    using rec(4) n same by (auto split: if_splits)
  moreover have "\<forall>v. bt_get d' v = (if v \<in> set (t # ts) then map_option (\<lambda>n. n - 1) (bt_get d v) else bt_get d v)"
    using rec(3) Cons.prems(1) by (auto simp: bt_get_modify)
  ultimately show ?case using n rec(1,2) by auto
qed simp

lemma finite_edge_rel: "finite (edge_rel es)"
proof -
  have "edge_rel es \<subseteq> fst ` set es \<times> \<Union> (set ` set (bt_values es))"
  proof
    fix p assume "p \<in> edge_rel es"
    then obtain u v where p: "p = (u, v)" "v \<in> set (successors es u)" by (auto simp: edge_rel_def)
    then obtain ts where "bt_get es u = Some ts" "v \<in> set ts" by (cases "bt_get es u") (auto simp: successors_def)
    then show "p \<in> fst ` set es \<times> \<Union> (set ` set (bt_values es))"
      using p by (force dest: map_of_SomeD)
  qed
  then show ?thesis by (rule finite_subset) auto
qed

lemma finite_blockers: "finite {u. (u, v) \<in> edge_rel es \<and> u \<notin> A}"
  by (rule finite_subset[of _ "fst ` edge_rel es"]) (force simp: finite_edge_rel)+

lemma blockers_zero_iff: "blockers (edge_rel es) A v = 0 \<longleftrightarrow> (\<forall>u. (u, v) \<in> edge_rel es \<longrightarrow> u \<in> A)"
  using finite_blockers[of v es A] by (auto simp: blockers_def)

lemma blockers_insert:
  assumes "k \<notin> A"
  shows "blockers (edge_rel es) (insert k A) v =
    (if (k, v) \<in> edge_rel es then blockers (edge_rel es) A v - 1 else blockers (edge_rel es) A v)"
proof -
  have eq: "{u. (u, v) \<in> edge_rel es \<and> u \<notin> insert k A} = {u. (u, v) \<in> edge_rel es \<and> u \<notin> A} - {k}" by auto
  show ?thesis
  proof (cases "(k, v) \<in> edge_rel es")
    case True
    then have "k \<in> {u. (u, v) \<in> edge_rel es \<and> u \<notin> A}" using assms by simp
    then show ?thesis unfolding blockers_def eq using True by (simp only: card_Diff_singleton if_True)
  next
    case False
    then have "{u. (u, v) \<in> edge_rel es \<and> u \<notin> A} - {k} = {u. (u, v) \<in> edge_rel es \<and> u \<notin> A}" by auto
    then show ?thesis unfolding blockers_def eq using False by (simp only: if_False)
  qed
qed

lemma blockers_pos: "(k, v) \<in> edge_rel es \<Longrightarrow> k \<notin> A \<Longrightarrow> 0 < blockers (edge_rel es) A v"
  using blockers_zero_iff[of es A v] by blast

lemma greedy_order_snoc:
  assumes "greedy_order N E order" and "eligible N E (set order) k"
    and "\<And>w. eligible N E (set order) w \<Longrightarrow> k \<le> w"
  shows "greedy_order N E (order @ [k])"
  using assms by (auto simp: greedy_order_def nth_append less_Suc_eq)

lemma kahn_step:
  assumes inv: "kahn_inv N es d (k # ready) order"
    and wf: "\<forall>ts\<in>set (bt_values es). bs_wf ts" and N: "edge_rel es \<subseteq> N \<times> N"
  obtains d' ready' where "relax (successors es k) d ready = Some (d', ready')"
    and "kahn_inv N es d' ready' (order @ [k])"
proof -
  let ?E = "edge_rel es"
  have k: "k \<in> N" "k \<notin> set order" "blockers ?E (set order) k = 0"
    and rdy: "set (k # ready) = {v \<in> N. v \<notin> set order \<and> blockers ?E (set order) v = 0}"
    and bs: "bs_wf (k # ready)"
    and get: "\<And>v. bt_get d v = (if v \<in> N then Some (blockers ?E (set order) v) else None)"
    using inv by (auto simp: kahn_inv_def)
  have succ: "\<forall>t\<in>set (successors es k). \<exists>n>0. bt_get d t = Some n"
    using get N k(2) blockers_pos[of k _ es "set order"] by (auto simp: edge_rel_def)
  obtain d' r' where r: "relax (successors es k) d ready = Some (d', r')" "bs_wf r'"
    "\<forall>v. bt_get d' v = (if v \<in> set (successors es k) then map_option (\<lambda>n. n - 1) (bt_get d v) else bt_get d v)"
    "set r' = set ready \<union> {t \<in> set (successors es k). bt_get d t = Some 1}"
    using relax_spec[OF bs_wf_distinct[OF successors_wf[OF wf]] succ, of ready] bs by (auto simp del: One_nat_def)
  have blk: "blockers ?E (set (order @ [k])) v =
      (if (k, v) \<in> ?E then blockers ?E (set order) v - 1 else blockers ?E (set order) v)" for v
    using blockers_insert[OF k(2)] by simp
  have get': "bt_get d' v = (if v \<in> N then Some (blockers ?E (set (order @ [k])) v) else None)" for v
    using r(3) get blk by (auto simp: edge_rel_iff)
  have "set r' = {v \<in> N. v \<notin> set (order @ [k]) \<and> blockers ?E (set (order @ [k])) v = 0}"
  proof (rule set_eqI)
    fix v
    show "v \<in> set r' \<longleftrightarrow> v \<in> {v \<in> N. v \<notin> set (order @ [k]) \<and> blockers ?E (set (order @ [k])) v = 0}"
    proof (cases "(k, v) \<in> ?E")
      case True
      then have pos: "0 < blockers ?E (set order) v" "v \<in> N" "v \<in> set (successors es k)"
        using blockers_pos[OF True k(2)] N True subsetD[OF N True] by (auto simp: edge_rel_iff)
      then have nr: "v \<notin> set (k # ready)" using rdy by auto
      have no: "v \<notin> set order"
      proof
        assume "v \<in> set order"
        then obtain i where i: "i < length order" "order ! i = v" by (metis in_set_conv_nth)
        then have "eligible N ?E (set (take i order)) v" using inv by (auto simp: kahn_inv_def greedy_order_def)
        then have "k \<in> set (take i order)" using True by (auto simp: eligible_def)
        then show False using k(2) by (meson in_set_takeD)
      qed
      show ?thesis using r(4) pos nr no get blk True by auto
    next
      case False
      then have "v \<in> set r' \<longleftrightarrow> v \<in> set ready" using r(4) by (auto simp: edge_rel_iff)
      moreover have "k \<notin> set ready" using bs by auto
      ultimately show ?thesis using rdy blk False by auto
    qed
  qed
  moreover have "greedy_order N ?E (order @ [k])"
  proof (rule greedy_order_snoc)
    show "greedy_order N ?E order" using inv by (simp add: kahn_inv_def)
    show "eligible N ?E (set order) k" using k blockers_zero_iff by (auto simp: eligible_def)
    fix w assume "eligible N ?E (set order) w"
    then have "w \<in> set (k # ready)" using rdy blockers_zero_iff by (auto simp: eligible_def)
    then show "k \<le> w" using bs by auto
  qed
  ultimately have "kahn_inv N es d' r' (order @ [k])"
    using inv k(1,2) r(2) get' by (auto simp: kahn_inv_def)
  with r(1) show ?thesis by (rule that)
qed

lemma kahn_loop_spec:
  assumes "kahn_inv N es d ready order"
    and "\<forall>ts\<in>set (bt_values es). bs_wf ts" and "edge_rel es \<subseteq> N \<times> N"
  shows "\<exists>final dd. kahn_loop es d ready order = Some final \<and> kahn_inv N es dd [] final"
  using assms
proof (induction es d ready order rule: kahn_loop.induct)
  case (2 es d k ready order)
  obtain d' ready' where s: "relax (successors es k) d ready = Some (d', ready')"
    and inv: "kahn_inv N es d' ready' (order @ [k])"
    using kahn_step[OF "2.prems"] by metis
  from "2.IH"[OF s refl inv "2.prems"(2,3)] s show ?case by simp
qed auto

lemma kahn_final_complete:
  assumes "kahn_inv N es d [] order" and "edge_rel es \<subseteq> N \<times> N" and "acyclic (edge_rel es)"
  shows "set order = N"
proof (rule ccontr)
  assume "set order \<noteq> N"
  then obtain x where x: "x \<in> N - set order" using assms(1) by (auto simp: kahn_inv_def)
  have "wf (edge_rel es)" using finite_edge_rel assms(3) by (rule finite_acyclic_wf)
  then obtain z where z: "z \<in> N - set order" "\<And>y. (y, z) \<in> edge_rel es \<Longrightarrow> y \<notin> N - set order"
    using wfE_min[OF _ x] by metis
  then have "\<forall>u. (u, z) \<in> edge_rel es \<longrightarrow> u \<in> set order" using assms(2) by auto
  then have "blockers (edge_rel es) (set order) z = 0" by (simp add: blockers_zero_iff)
  with z(1) assms(1) show False by (auto simp: kahn_inv_def)
qed

lemma count_list_edges:
  assumes "bt_wf es" and "\<forall>ts\<in>set (bt_values es). bs_wf ts"
  shows "count_list (concat (bt_values es)) v = blockers (edge_rel es) {} v"
  using assms
proof (induction es)
  case Nil
  then show ?case by (simp add: blockers_def edge_rel_def successors_def)
next
  case (Cons e es)
  obtain u ts where e: "e = (u, ts)" by (cases e)
  from Cons.prems(1) have wf: "bt_wf es" and notin: "u \<notin> fst ` set es" by (auto simp: bt_wf_def e)
  have dts: "distinct ts" using Cons.prems(2) e by (simp add: bs_wf_distinct)
  have su: "successors es u = []" using notin by (simp add: successors_def map_of_eq_None_iff[THEN iffD2])
  have "{w. (w, v) \<in> edge_rel (e # es) \<and> w \<notin> {}} =
      {w. (w, v) \<in> edge_rel es \<and> w \<notin> {}} \<union> (if v \<in> set ts then {u} else {})"
    using su by (auto simp: edge_rel_def successors_def e split: option.splits if_splits)
  moreover have "u \<notin> {w. (w, v) \<in> edge_rel es \<and> w \<notin> {}}" using su by (simp add: edge_rel_def)
  moreover have "count_list ts v = (if v \<in> set ts then 1 else 0)"
    using dts by (induction ts) auto
  ultimately have "blockers (edge_rel (e # es)) {} v = count_list ts v + blockers (edge_rel es) {} v"
    using finite_blockers[of v es "{}"] by (simp add: blockers_def)
  then show ?case using Cons.IH wf Cons.prems(2) e by (simp add: count_list_append)
qed

lemma get_const_map: "bt_get (map (\<lambda>k. (k, c)) ks) v = (if v \<in> set ks then Some c else None)"
  by (induction ks) auto

lemma set_lookup_pairs:
  assumes "bt_wf m" and "set ks = fst ` set m"
  shows "set (map (\<lambda>k. (k, the (bt_get m k))) ks) = set m"
proof -
  have "(fst e, the (bt_get m (fst e))) = e" if "e \<in> set m" for e
    using that bt_mem_iff[OF assms(1), of "fst e" "snd e"] by simp
  then have "(\<lambda>e. (fst e, the (bt_get m (fst e)))) ` set m = set m" by simp
  then show ?thesis using assms(2) by (simp add: image_image)
qed

lemma kahn_start:
  assumes "dag_wf g"
  obtains d where "count_targets (concat (bt_values (dag_edges g))) (map (\<lambda>k. (k, 0)) (bt_keys (dag_nodes g))) = Some d"
    and "kahn_inv (fst ` set (dag_nodes g)) (dag_edges g) d (bt_keys (filter (\<lambda>(_, n). n = 0) d)) []"
proof -
  let ?N = "fst ` set (dag_nodes g)" and ?es = "dag_edges g"
  let ?d0 = "map (\<lambda>k. (k, 0 :: nat)) (bt_keys (dag_nodes g))"
  have wf: "bt_wf (dag_nodes g)" "bt_wf ?es" "\<forall>ts\<in>set (bt_values ?es). bs_wf ts" "edge_rel ?es \<subseteq> ?N \<times> ?N"
    using assms by (auto simp: dag_wf_def)
  have get0: "bt_get ?d0 v = (if v \<in> ?N then Some 0 else None)" for v
    unfolding get_const_map by simp
  have "\<forall>t\<in>set (concat (bt_values ?es)). bt_get ?d0 t \<noteq> None"
  proof
    fix t assume "t \<in> set (concat (bt_values ?es))"
    then obtain u ts where "(u, ts) \<in> set ?es" "t \<in> set ts" by auto
    then have "(u, t) \<in> edge_rel ?es" using bt_mem_iff[OF wf(2)] by (simp add: edge_rel_def successors_def)
    then show "bt_get ?d0 t \<noteq> None" using wf(4) get0 by auto
  qed
  from count_targets_spec[OF this] obtain d where d: "count_targets (concat (bt_values ?es)) ?d0 = Some d"
    "bt_keys d = bt_keys (dag_nodes g)" "\<And>v. bt_get d v = (if v \<in> ?N then Some (blockers (edge_rel ?es) {} v) else None)"
    using get0 count_list_edges[OF wf(2,3)] by (auto simp: comp_def)
  have dwf: "bt_wf d" using wf(1) d(2) by (simp add: bt_wf_def)
  have "bs_wf (bt_keys (filter (\<lambda>(_, n). n = 0) d))"
    using dwf by (simp add: bt_wf_def sorted_wrt_map sorted_wrt_filter)
  moreover have "set (bt_keys (filter (\<lambda>(_, n). n = 0) d)) = {v \<in> ?N. blockers (edge_rel ?es) {} v = 0}"
  proof -
    have "v \<in> set (bt_keys (filter (\<lambda>(_, n). n = 0) d)) \<longleftrightarrow> (v, 0) \<in> set d" for v by force
    then have "v \<in> set (bt_keys (filter (\<lambda>(_, n). n = 0) d)) \<longleftrightarrow> v \<in> {v \<in> ?N. blockers (edge_rel ?es) {} v = 0}" for v
      unfolding bt_mem_iff[OF dwf] d(3) by simp
    then show ?thesis by (rule set_eqI)
  qed
  ultimately have "kahn_inv ?N ?es d (bt_keys (filter (\<lambda>(_, n). n = 0) d)) []"
    using d(3) by (simp add: kahn_inv_def greedy_order_def)
  with d(1) show ?thesis by (rule that)
qed

subsection \<open>Sizes\<close>

lemma length_bt_insert: "length (bt_insert k v m) \<le> Suc (length m)"
  by (induction m) auto

lemma length_bt_insert_mem: "bt_wf m \<Longrightarrow> bt_get m k = Some w \<Longrightarrow> length (bt_insert k v m) = length m"
proof (induction m)
  case (Cons e m)
  obtain a b where e: "e = (a, b)" by (cases e)
  have wf: "bt_wf m" and lt: "\<And>x y. (x, y) \<in> set m \<Longrightarrow> a < x" using Cons.prems(1) by (auto simp: bt_wf_def e)
  show ?case
  proof (cases "k = a")
    case False
    then have m: "bt_get m k = Some w" using Cons.prems(2) e by simp
    then have "\<not> k < a" using lt[OF map_of_SomeD[OF m]] by simp
    then show ?thesis using Cons.IH[OF wf m] e False by simp
  qed (simp add: e)
qed simp

lemma length_bs_insert_mem: "bs_wf s \<Longrightarrow> k \<in> set s \<Longrightarrow> length (bs_insert k s) = length s"
  by (induction s) auto

lemma edge_sum_insert:
  "bt_wf es \<Longrightarrow> sum_list (map length (bt_values (bt_insert u ts es))) + length (successors es u)
     = sum_list (map length (bt_values es)) + length ts"
proof (induction es)
  case (Cons e es)
  obtain a b where e: "e = (a, b)" by (cases e)
  have wf: "bt_wf es" and lt: "\<forall>x\<in>fst ` set es. a < x" using Cons.prems by (auto simp: bt_wf_def e)
  have "u < a \<Longrightarrow> successors es u = []"
    using lt by (auto simp: successors_def split: option.splits dest!: map_of_SomeD)
  then show ?case using Cons.IH[OF wf] e by (auto simp: successors_def)
qed (simp add: successors_def)

lemma within_limits_add_node:
  assumes "dag_wf g" and "within_limits lim g" and "add_node k p lim g = Inr g'"
  shows "within_limits lim g'"
proof -
  have g': "g' = g\<lparr>dag_nodes := bt_insert k p (dag_nodes g)\<rparr>"
    and cap: "(\<exists>w. bt_get (dag_nodes g) k = Some w) \<or> length (dag_nodes g) < max_nodes lim"
    using assms(3) by (auto simp: add_node_def not_le split: if_splits)
  have "length (bt_insert k p (dag_nodes g)) \<le> max_nodes lim"
    using cap assms(1,2) length_bt_insert[of k p "dag_nodes g"] length_bt_insert_mem[of "dag_nodes g" k _ p]
    by (auto simp: dag_wf_def within_limits_def node_count_def)
  then show ?thesis using assms(2) g' by (simp add: within_limits_def node_count_def edge_count_def)
qed

lemma within_limits_add_edge:
  assumes "dag_wf g" and "within_limits lim g" and "add_edge u v lim g = Inr g'"
  shows "within_limits lim g'"
proof -
  note e = add_edge_Inr[OF assms(3)]
  let ?s = "successors (dag_edges g) u"
  have wf: "bt_wf (dag_edges g)" "bs_wf ?s" using assms(1) by (auto simp: dag_wf_def intro!: successors_wf)
  have "edge_count g' + length ?s = edge_count g + length (bs_insert v ?s)"
    using edge_sum_insert[OF wf(1), of u "bs_insert v ?s"] by (simp add: edge_count_def e(5))
  then have "edge_count g' \<le> max_edges lim"
    using e(6) assms(2) length_bs_insert[of v ?s] length_bs_insert_mem[OF wf(2)]
    by (auto simp: within_limits_def)
  then show ?thesis using assms(2) e(5) by (simp add: within_limits_def node_count_def)
qed

subsection \<open>The sort\<close>

lemma topological_order_spec:
  assumes "dag_wf g"
  shows "\<exists>order. topological_order g = Some (Inr order)
    \<and> distinct (map fst order) \<and> set order = set (dag_nodes g)
    \<and> greedy_order (fst ` set (dag_nodes g)) (edge_rel (dag_edges g)) (map fst order)"
proof -
  let ?N = "fst ` set (dag_nodes g)" and ?es = "dag_edges g"
  have wf: "bt_wf (dag_nodes g)" "\<forall>ts\<in>set (bt_values ?es). bs_wf ts" "edge_rel ?es \<subseteq> ?N \<times> ?N"
    "acyclic (edge_rel ?es)" using assms by (auto simp: dag_wf_def)
  obtain d where d: "count_targets (concat (bt_values ?es)) (map (\<lambda>k. (k, 0)) (bt_keys (dag_nodes g))) = Some d"
    and inv: "kahn_inv ?N ?es d (bt_keys (filter (\<lambda>(_, n). n = 0) d)) []" using kahn_start[OF assms] .
  obtain ks dd where ks: "kahn_loop ?es d (bt_keys (filter (\<lambda>(_, n). n = 0) d)) [] = Some ks"
    and fin: "kahn_inv ?N ?es dd [] ks" using kahn_loop_spec[OF inv wf(2,3)] by blast
  have all: "set ks = ?N" by (rule kahn_final_complete[OF fin wf(3,4)])
  have dist: "distinct ks" "greedy_order ?N (edge_rel ?es) ks" using fin by (auto simp: kahn_inv_def)
  have len: "length ks = length (dag_nodes g)"
    using distinct_card[OF dist(1)] distinct_card[OF bt_wf_distinct[OF wf(1)]] all by simp
  let ?order = "map (\<lambda>k. (k, the (bt_get (dag_nodes g) k))) ks"
  have "topological_order g = Some (Inr ?order)"
    using d ks len all by (simp add: topological_order_def list_all_iff map_of_eq_None_iff)
  moreover have "set ?order = set (dag_nodes g)"
    by (rule set_lookup_pairs[OF wf(1) all])
  moreover have "map fst ?order = ks" by (simp add: comp_def)
  ultimately show ?thesis using dist by metis
qed

lemma greedy_order_forward:
  assumes "greedy_order N E order" and "set order = N" and "(u, v) \<in> E" and "E \<subseteq> N \<times> N"
  shows "\<exists>i j. i < j \<and> j < length order \<and> order ! i = u \<and> order ! j = v"
proof -
  from assms(2-4) obtain j where j: "j < length order" "order ! j = v" by (metis SigmaD2 in_set_conv_nth subsetD)
  then have "u \<in> set (take j order)" using assms(1,3) by (auto simp: greedy_order_def eligible_def)
  then obtain i where "i < j" "order ! i = u" using j(1) by (auto simp: in_set_conv_nth)
  with j show ?thesis by blast
qed

section \<open>Properties\<close>

text \<open>
  C29. Whatever sequence of \<open>add_node\<close> and \<open>add_edge\<close> calls builds a graph from the empty
  one, the result is well formed: sorted, its edges connect its own nodes, it has no cycle, and
  it holds no more nodes and edges than its limits.
\<close>
theorem dag_construction_invariant:
  assumes "try_fold (apply_op lim) dag_new ops = Inr g"
  shows "dag_wf g \<and> within_limits lim g"
proof -
  let ?I = "\<lambda>g. dag_wf g \<and> within_limits lim g"
  have "within_limits lim dag_new" by (simp add: within_limits_def node_count_def edge_count_def dag_new_def)
  then have "?I dag_new" by (simp add: dag_wf_new)
  moreover have "?I g'" if "?I g0" and "apply_op lim g0 op = Inr g'" for g0 g' op
    using that by (cases op) (auto intro: dag_wf_add_node dag_wf_add_edge within_limits_add_node within_limits_add_edge)
  ultimately show ?thesis using try_fold_invariant[OF assms, of ?I] by blast
qed

theorem dag_construction_invariant_witness:
  "\<exists>g. try_fold (apply_op default_dag_limits) dag_new
       [AddNode ''b'' (1::nat), AddNode ''a'' 2, AddEdge ''b'' ''a''] = Inr g
     \<and> edge_count g = 1 \<and> dag_wf g"
proof -
  let ?ops = "[AddNode ''b'' (1::nat), AddNode ''a'' 2, AddEdge ''b'' ''a'']"
  let ?g = "\<lparr>dag_nodes = [(''a'', 2::nat), (''b'', 1)], dag_edges = [(''b'', [''a''])]\<rparr>"
  have "try_fold (apply_op default_dag_limits) dag_new ?ops = Inr ?g" by code_simp
  from dag_construction_invariant[OF this] this show ?thesis
    by (intro exI[of _ ?g]) (simp add: edge_count_def)
qed

text \<open>
  C17. \<open>add_edge\<close> between two existing nodes, with room for the edge, is accepted exactly when
  the graph with the edge is still acyclic.
\<close>
theorem add_edge_accepts_iff_acyclic:
  assumes "dag_wf g" and "u \<in> fst ` set (dag_nodes g)" and "v \<in> fst ` set (dag_nodes g)"
    and "edge_count g < max_edges lim"
  shows "(\<exists>g'. add_edge u v lim g = Inr g') \<longleftrightarrow> acyclic (insert (u, v) (edge_rel (dag_edges g)))"
  using assms
  by (auto simp: add_edge_def Let_def reachable_rtrancl map_of_eq_None_iff acyclic_insert dag_wf_def)

theorem add_edge_accepts_iff_acyclic_witness:
  "\<not> (\<exists>g'. add_edge ''a'' ''b'' default_dag_limits
        \<lparr>dag_nodes = [(''a'', ()), (''b'', ())], dag_edges = [(''b'', [''a''])]\<rparr> = Inr g')"
proof -
  let ?g = "\<lparr>dag_nodes = [(''a'', ()), (''b'', ())], dag_edges = [(''b'', [''a''])]\<rparr>"
  have E: "edge_rel (dag_edges ?g) = {(''b'', ''a'')}"
    by (auto simp: edge_rel_def successors_def split: if_splits)
  have "dag_wf ?g" unfolding dag_wf_def E
    by (simp add: bt_wf_def acyclic_insert, code_simp)
  moreover have "edge_count ?g < max_edges default_dag_limits" by code_simp
  moreover have "\<not> acyclic (insert (''a'', ''b'') (edge_rel (dag_edges ?g)))"
    unfolding E by (auto simp: acyclic_insert)
  ultimately show ?thesis using add_edge_accepts_iff_acyclic[of ?g "''a''" "''b''" default_dag_limits] by simp
qed

text \<open>
  C20. The topological sort of a well-formed graph never panics and never reports a cycle. It
  lists every node once with its payload, and each position holds the least key among the
  nodes whose predecessors are all listed before it.
\<close>
theorem topological_order_correct:
  assumes "dag_wf g"
  shows "\<exists>order. topological_order g = Some (Inr order)
    \<and> distinct (map fst order) \<and> set order = set (dag_nodes g)
    \<and> greedy_order (fst ` set (dag_nodes g)) (edge_rel (dag_edges g)) (map fst order)"
  using assms by (rule topological_order_spec)

theorem topological_order_correct_witness:
  "\<exists>order. topological_order
      \<lparr>dag_nodes = [(''a'', 1::nat), (''b'', 2), (''c'', 3)], dag_edges = [(''c'', [''a''])]\<rparr>
        = Some (Inr order) \<and> order = [(''b'', 2), (''c'', 3), (''a'', 1)]
     \<and> greedy_order {''a'', ''b'', ''c''} {(''c'', ''a'')} (map fst order)"
proof -
  let ?g = "\<lparr>dag_nodes = [(''a'', 1::nat), (''b'', 2), (''c'', 3)], dag_edges = [(''c'', [''a''])]\<rparr>"
  have E: "edge_rel (dag_edges ?g) = {(''c'', ''a'')}"
    by (auto simp: edge_rel_def successors_def split: if_splits)
  have "dag_wf ?g" unfolding dag_wf_def E by (simp add: bt_wf_def acyclic_insert, code_simp)
  from topological_order_correct[OF this] E
  obtain order where "topological_order ?g = Some (Inr order)"
    "greedy_order {''a'', ''b'', ''c''} {(''c'', ''a'')} (map fst order)" by auto
  moreover have "topological_order ?g = Some (Inr [(''b'', 2), (''c'', 3), (''a'', 1)])" by code_simp
  ultimately show ?thesis by auto
qed

end
