(* ===== verification/Hub_Run.thy ===== *)
theory Hub_Run
  imports Hub_Component
begin

text \<open>
  Runs and artifacts: \<open>src/crates/hub-core/src/run.rs\<close> and \<open>artifact.rs\<close>. Run
  specifications with their validation, the run lifecycle, run records with their
  provenance, and artifact metadata.

  JSON values are the data type of serde_json; \<open>serde_json::to_vec\<close> on the parameter map
  is the parameter \<open>ser\<close>. A fresh identifier and the clock reading are arguments.
\<close>

section \<open>The model\<close>

subsection \<open>States\<close>

fun run_can_transition_to :: "run_state \<Rightarrow> run_state \<Rightarrow> bool" where
  "run_can_transition_to Run_Created next_state \<longleftrightarrow> next_state \<in> {Run_Validated, Run_Failed, Run_Cancelled}"
| "run_can_transition_to Run_Validated next_state \<longleftrightarrow> next_state \<in> {Run_Queued, Run_Failed, Run_Cancelled}"
| "run_can_transition_to Run_Queued next_state \<longleftrightarrow> next_state \<in> {Run_Running, Run_Failed, Run_Cancelled}"
| "run_can_transition_to Run_Running next_state \<longleftrightarrow> next_state \<in> {Run_Succeeded, Run_Failed, Run_Cancelled}"
| "run_can_transition_to _ _ \<longleftrightarrow> False"

fun run_is_terminal :: "run_state \<Rightarrow> bool" where
  "run_is_terminal s \<longleftrightarrow> s = Run_Succeeded \<or> s = Run_Failed \<or> s = Run_Cancelled"

subsection \<open>Specifications of runs\<close>

datatype json = JNull | JBool bool | JNumber string | JString string | JArray "json list"
  | JObject "(string \<times> json) list"

type_synonym params = "(string, json) btree"
type_synonym params_ser = "params \<Rightarrow> message + bytes"

record input_binding =
  ib_name :: string
  ib_artifact :: artifact_id

record run_spec =
  rspec_component :: component_id
  rspec_capability :: capability_name
  rspec_parameters :: params
  rspec_inputs :: "input_binding list"
  rspec_timeout_ms :: u64

definition validate_input_name :: "string \<Rightarrow> unit res" where
  "validate_input_name name =
     (if is_slug name then Inr ()
      else Inl (InvalidRunSpec (Fmt ''input name {name:?} must match [a-z0-9][a-z0-9_-]{{0,63}}'' [FDebug name])))"

definition validate_run_spec :: "params_ser \<Rightarrow> limits \<Rightarrow> run_spec \<Rightarrow> unit res" where
  "validate_run_spec ser lim spec =
     (if rspec_timeout_ms spec = 0 \<or> rspec_timeout_ms spec > max_timeout_ms lim then
        Inl (InvalidRunSpec (Fmt ''timeout_ms must be 1..={}'' [FNat (unat (max_timeout_ms lim))]))
      else
        rbind (map_err (\<lambda>e. InvalidRunSpec (Fmt ''parameters are not JSON-safe: {e}'' [FMsg e]))
                 (ser (rspec_parameters spec)))
          (\<lambda>params_bytes.
             if length params_bytes > max_params_bytes lim then
               Inl (InvalidRunSpec (Fmt ''parameters serialize to {} bytes, over the {} byte limit''
                 [FNat (length params_bytes), FNat (max_params_bytes lim)]))
             else if length (rspec_inputs spec) > max_inputs lim then
               Inl (InvalidRunSpec (Fmt ''{} inputs exceeds the maximum of {}''
                 [FNat (length (rspec_inputs spec)), FNat (max_inputs lim)]))
             else try_unique (\<lambda>i. validate_input_name (ib_name i)) ib_name
                    (\<lambda>i. InvalidRunSpec (Fmt ''duplicate input binding {:?}'' [FDebug (ib_name i)]))
                    {} (rspec_inputs spec)))"

definition canonical_params_bytes :: "params_ser \<Rightarrow> run_spec \<Rightarrow> bytes res" where
  "canonical_params_bytes ser spec = map_err Storage (ser (rspec_parameters spec))"

definition params_digest :: "(bytes \<Rightarrow> bytes) \<Rightarrow> params_ser \<Rightarrow> run_spec \<Rightarrow> content_digest res" where
  "params_digest sha ser spec =
     rbind (canonical_params_bytes ser spec) (\<lambda>bs. Inr (hash_bytes sha DOMAIN_RUN_PARAMS bs))"

subsection \<open>Records of runs\<close>

record run_transition =
  tr_from :: run_state
  tr_to :: run_state
  tr_at :: u64

record input_provenance =
  ip_name :: string
  ip_artifact :: artifact_id
  ip_digest :: content_digest
  ip_size :: u64

record output_ref =
  oref_name :: string
  oref_artifact :: artifact_id
  oref_digest :: content_digest
  oref_size :: u64

record run_outcome =
  ro_exit_code :: "i32 option"
  ro_signal :: "i32 option"
  ro_timed_out :: bool
  ro_cancelled :: bool
  ro_executor_backend :: string
  ro_duration_ms :: u64
  ro_inputs :: "input_provenance list"
  ro_outputs :: "output_ref list"
  ro_env_keys :: "string list"
  ro_params_digest :: content_digest
  ro_failure :: "string option"

record component_admission_pin =
  pin_component_version :: version
  pin_manifest_digest :: content_digest
  pin_contract_version :: version

record run_record =
  run_id :: run_id
  run_spec_of :: run_spec
  run_state_of :: run_state
  run_component_name :: string
  run_component_version :: version
  run_manifest_digest :: "content_digest option"
  run_contract_version :: version
  run_created_at :: u64
  run_started_at :: "u64 option"
  run_finished_at :: "u64 option"
  run_transitions :: "run_transition list"
  run_outcome_of :: "run_outcome option"
  run_reproduced_from :: "run_id option"

definition run_create :: "params_ser \<Rightarrow> run_id \<Rightarrow> run_spec \<Rightarrow> string \<Rightarrow> version \<Rightarrow> version \<Rightarrow> u64
    \<Rightarrow> limits \<Rightarrow> run_record res" where
  "run_create ser fresh spec name ver contract now lim =
     rbind (validate_run_spec ser lim spec) (\<lambda>_. Inr
       \<lparr>run_id = fresh, run_spec_of = spec, run_state_of = Run_Created, run_component_name = name,
        run_component_version = ver, run_manifest_digest = None, run_contract_version = contract,
        run_created_at = now, run_started_at = None, run_finished_at = None, run_transitions = [],
        run_outcome_of = None, run_reproduced_from = None\<rparr>)"

definition get_or_insert :: "'a \<Rightarrow> 'a option \<Rightarrow> 'a option" where
  "get_or_insert x y = (case y of None \<Rightarrow> Some x | Some z \<Rightarrow> Some z)"

definition run_transition_to :: "run_state \<Rightarrow> u64 \<Rightarrow> run_record \<Rightarrow> run_record res" where
  "run_transition_to to_state now r =
     (let from_state = run_state_of r in
      if \<not> run_can_transition_to from_state to_state then Inl (InvalidTransition from_state to_state)
      else Inr (r\<lparr>run_state_of := to_state,
        run_started_at := (if to_state = Run_Running then get_or_insert now (run_started_at r) else run_started_at r),
        run_finished_at := (if run_is_terminal to_state then Some now else run_finished_at r),
        run_transitions := run_transitions r @ [\<lparr>tr_from = from_state, tr_to = to_state, tr_at = now\<rparr>]\<rparr>))"

subsection \<open>Artifact metadata\<close>

record artifact_meta =
  am_id :: artifact_id
  am_name :: string
  am_media_type :: string
  am_digest :: content_digest
  am_size :: u64
  am_created_at :: u64
  am_produced_by_run :: "run_id option"

definition validate_artifact_meta :: "artifact_meta \<Rightarrow> unit res" where
  "validate_artifact_meta m =
     (if am_name m = [] \<or> length (am_name m) > 128 then
        Inl (Validation (plain ''artifact name must be 1..=128 characters''))
      else if am_media_type m = [] \<or> length (am_media_type m) > 128
          \<or> list_ex is_control (chars (am_media_type m)) then
        Inl (Validation (plain ''artifact media_type must be at most 128 printable characters''))
      else Inr ())"

section \<open>Specifications\<close>

definition run_spec_wf :: "params_ser \<Rightarrow> limits \<Rightarrow> run_spec \<Rightarrow> bool" where
  "run_spec_wf ser lim spec \<longleftrightarrow>
     0 < rspec_timeout_ms spec \<and> rspec_timeout_ms spec \<le> max_timeout_ms lim
     \<and> (\<exists>bs. ser (rspec_parameters spec) = Inr bs \<and> length bs \<le> max_params_bytes lim)
     \<and> length (rspec_inputs spec) \<le> max_inputs lim
     \<and> (\<forall>i\<in>set (rspec_inputs spec). is_slug (ib_name i))
     \<and> distinct (map ib_name (rspec_inputs spec))"

text \<open>A history leads from one state to another when every step starts where the last ended and is legal.\<close>

fun history_ok :: "run_state \<Rightarrow> run_transition list \<Rightarrow> run_state \<Rightarrow> bool" where
  "history_ok s [] s' \<longleftrightarrow> s = s'"
| "history_ok s (t # ts) s' \<longleftrightarrow> tr_from t = s \<and> run_can_transition_to s (tr_to t) \<and> history_ok (tr_to t) ts s'"

fun run_rank :: "run_state \<Rightarrow> nat" where
  "run_rank Run_Created = 0"
| "run_rank Run_Validated = 1"
| "run_rank Run_Queued = 2"
| "run_rank Run_Running = 3"
| "run_rank _ = 4"

definition run_wf :: "run_record \<Rightarrow> bool" where
  "run_wf r \<longleftrightarrow>
     history_ok Run_Created (run_transitions r) (run_state_of r)
     \<and> run_started_at r = map_option tr_at (find (\<lambda>t. tr_to t = Run_Running) (run_transitions r))
     \<and> run_finished_at r =
         (if run_is_terminal (run_state_of r) then Some (tr_at (last (run_transitions r))) else None)"

text \<open>What no transition changes.\<close>

definition same_run :: "run_record \<Rightarrow> run_record \<Rightarrow> bool" where
  "same_run r r' \<longleftrightarrow> run_id r' = run_id r \<and> run_spec_of r' = run_spec_of r
     \<and> run_component_name r' = run_component_name r \<and> run_component_version r' = run_component_version r
     \<and> run_manifest_digest r' = run_manifest_digest r \<and> run_contract_version r' = run_contract_version r
     \<and> run_created_at r' = run_created_at r \<and> run_outcome_of r' = run_outcome_of r
     \<and> run_reproduced_from r' = run_reproduced_from r"

section \<open>Facts\<close>

lemma get_or_insert_simps [simp]:
  "get_or_insert x None = Some x"
  "get_or_insert x (Some y) = Some y"
  by (simp_all add: get_or_insert_def)

lemma validate_input_name_iff [result_simps]: "validate_input_name n = Inr u \<longleftrightarrow> is_slug n"
  by (simp add: validate_input_name_def)

lemma validate_run_spec_iff [result_simps]:
  "validate_run_spec ser lim spec = Inr u \<longleftrightarrow> run_spec_wf ser lim spec"
  by (auto simp: validate_run_spec_def run_spec_wf_def result_simps word_gt_0 not_less
      split: if_splits)

lemma run_rank_step: "run_can_transition_to s s' \<Longrightarrow> run_rank s < run_rank s'"
  by (cases s) auto

lemma run_terminal_no_step: "run_is_terminal s \<Longrightarrow> \<not> run_can_transition_to s s'"
  by auto

lemma history_rank: "history_ok s ts s' \<Longrightarrow> run_rank s + length ts \<le> run_rank s'"
proof (induction ts arbitrary: s)
  case (Cons t ts)
  then show ?case using run_rank_step[of s "tr_to t"] by (fastforce dest: Cons.IH)
qed simp

lemma history_snoc:
  "history_ok s ts s' \<Longrightarrow> run_can_transition_to s' s'' \<Longrightarrow>
     history_ok s (ts @ [\<lparr>tr_from = s', tr_to = s'', tr_at = now\<rparr>]) s''"
  by (induction ts arbitrary: s) auto

lemma run_rank_le: "run_rank s \<le> 4"
  by (cases s) auto

lemma history_no_running:
  "history_ok s ts s' \<Longrightarrow> run_rank s' < 3 \<Longrightarrow> find (\<lambda>t. tr_to t = Run_Running) ts = None"
proof (induction ts arbitrary: s)
  case (Cons t ts)
  then have h: "history_ok (tr_to t) ts s'" by simp
  with history_rank[OF h] Cons.prems(2) have "tr_to t \<noteq> Run_Running" by auto
  with Cons.IH[OF h Cons.prems(2)] show ?case by simp
qed simp

lemma find_snoc: "find P (xs @ [x]) = (case find P xs of Some y \<Rightarrow> Some y | None \<Rightarrow> if P x then Some x else None)"
  by (induction xs) auto

lemma run_wf_create: "run_create ser f spec n v c now lim = Inr r \<Longrightarrow> run_wf r"
  by (auto simp: run_create_def result_simps run_wf_def)

lemma run_transition_Inr [result_simps]:
  "run_transition_to s now r = Inr r' \<longleftrightarrow> run_can_transition_to (run_state_of r) s \<and>
     r' = r\<lparr>run_state_of := s,
        run_started_at := (if s = Run_Running then get_or_insert now (run_started_at r) else run_started_at r),
        run_finished_at := (if run_is_terminal s then Some now else run_finished_at r),
        run_transitions := run_transitions r @ [\<lparr>tr_from = run_state_of r, tr_to = s, tr_at = now\<rparr>]\<rparr>"
  by (auto simp: run_transition_to_def Let_def)

lemma run_wf_transition:
  assumes "run_wf r" and "run_transition_to s now r = Inr r'"
  shows "run_wf r'"
proof -
  have can: "run_can_transition_to (run_state_of r) s" using assms(2) by (simp add: run_transition_Inr)
  have nt: "\<not> run_is_terminal (run_state_of r)" using run_terminal_no_step can by blast
  have start: "find (\<lambda>t. tr_to t = Run_Running) (run_transitions r) = None" if "s = Run_Running"
  proof (rule history_no_running)
    show "history_ok Run_Created (run_transitions r) (run_state_of r)" using assms(1) by (simp add: run_wf_def)
    show "run_rank (run_state_of r) < 3" using can that by (cases "run_state_of r") auto
  qed
  show ?thesis
    using assms nt can start history_snoc[OF _ can]
    by (auto simp: run_wf_def run_transition_Inr find_snoc simp del: run_is_terminal.simps split: option.splits)
qed

lemma same_run_transition: "run_transition_to s now r = Inr r' \<Longrightarrow> same_run r r'"
  by (auto simp: run_transition_Inr same_run_def)

lemma run_wf_length: "run_wf r \<Longrightarrow> length (run_transitions r) \<le> run_rank (run_state_of r)"
  using history_rank[of Run_Created] by (fastforce simp: run_wf_def)

section \<open>Properties\<close>

text \<open>
  C33. A run record that was created and moved by any sequence of accepted transitions has a
  legal history from \<open>Created\<close> to its state of at most four steps. Its start time is that of its
  \<open>Running\<close> step, its finish time is set exactly in the terminal states to the time of the
  last step, and its identity and provenance fields are those it was created with.
\<close>
theorem run_history_invariant:
  assumes "run_create ser fresh spec name ver contract now lim = Inr r0"
    and "try_fold (\<lambda>r (s, t). run_transition_to s t r) r0 moves = Inr r"
  shows "run_wf r \<and> length (run_transitions r) \<le> 4 \<and> same_run r0 r"
proof -
  let ?P = "\<lambda>r. run_wf r \<and> same_run r0 r"
  have "?P r0" using run_wf_create[OF assms(1)] by (simp add: same_run_def)
  moreover have "?P r''" if "?P r'" and "(\<lambda>r (s, t). run_transition_to s t r) r' x = Inr r''" for r' r'' x
    using that run_wf_transition[of r'] same_run_transition[of _ _ r' r'']
    by (cases x) (auto simp: same_run_def)
  ultimately have "?P r" using try_fold_invariant[OF assms(2), of ?P] by blast
  then show ?thesis using run_wf_length[of r] run_rank_le[of "run_state_of r"] by auto
qed

theorem run_history_invariant_witness:
  "\<exists>r0 r. run_create (\<lambda>_. Inr ''{}'') (UuidId 7)
        \<lparr>rspec_component = UuidId 1, rspec_capability = CapabilityName ''a.b'', rspec_parameters = [],
         rspec_inputs = [], rspec_timeout_ms = 5\<rparr> ''c'' (Version ''1.0.0'') (Version ''1.0.0'') 10 default_limits = Inr r0
     \<and> try_fold (\<lambda>r (s, t). run_transition_to s t r) r0
         [(Run_Validated, 10), (Run_Queued, 10), (Run_Running, 12), (Run_Succeeded, 20)] = Inr r
     \<and> run_wf r \<and> run_started_at r = Some 12 \<and> run_finished_at r = Some 20"
proof -
  let ?spec = "\<lparr>rspec_component = UuidId 1, rspec_capability = CapabilityName ''a.b'', rspec_parameters = [],
         rspec_inputs = [], rspec_timeout_ms = 5\<rparr>"
  let ?moves = "[(Run_Validated, 10), (Run_Queued, 10), (Run_Running, 12), (Run_Succeeded, 20)]"
  obtain r0 where c: "run_create (\<lambda>_. Inr ''{}'') (UuidId 7) ?spec ''c'' (Version ''1.0.0'') (Version ''1.0.0'') 10 default_limits = Inr r0"
    and s: "run_state_of r0 = Run_Created" "run_started_at r0 = None"
    by (auto simp: run_create_def validate_run_spec_def default_limits_def)
  obtain r where f: "try_fold (\<lambda>r (s, t). run_transition_to s t r) r0 ?moves = Inr r"
    "run_started_at r = Some 12" "run_finished_at r = Some 20"
    using s by (auto simp: run_transition_to_def)
  from run_history_invariant[OF c f(1)] c f show ?thesis by blast
qed

text \<open>
  The lifecycle is a strict progression: an accepted transition strictly raises the rank
  created, validated, queued, running, terminal. A terminal run refuses every transition, a
  non-terminal run can always fail and can always be cancelled, and success is reached only
  from running.
\<close>
lemma run_lifecycle_progress:
  "(\<forall>s s'. run_can_transition_to s s' \<longrightarrow> run_rank s < run_rank s')
   \<and> (run_is_terminal (run_state_of r) \<longrightarrow>
        run_transition_to s now r = Inl (InvalidTransition (run_state_of r) s))
   \<and> (\<not> run_is_terminal (run_state_of r) \<longrightarrow>
        (\<exists>r1 r2. run_transition_to Run_Failed now r = Inr r1 \<and> run_transition_to Run_Cancelled now r = Inr r2))
   \<and> (run_transition_to Run_Succeeded now r = Inr r' \<longrightarrow> run_state_of r = Run_Running)"
proof -
  have "(\<forall>s s'. run_can_transition_to s s' \<longrightarrow> run_rank s < run_rank s')" using run_rank_step by blast
  moreover have "\<not> run_is_terminal s \<Longrightarrow> run_can_transition_to s Run_Failed \<and> run_can_transition_to s Run_Cancelled" for s
    by (cases s) auto
  moreover have "run_can_transition_to s Run_Succeeded \<Longrightarrow> s = Run_Running" for s by (cases s) auto
  ultimately show ?thesis
    using run_terminal_no_step[of "run_state_of r" s]
    by (auto simp: run_transition_to_def Let_def simp del: run_is_terminal.simps split: if_splits)
qed

text \<open>
  A run spec is accepted exactly when its timeout is within 1 and the limit, its
  parameters serialise within the byte limit, and its inputs are few enough, with distinct
  names of the input grammar.
\<close>
lemma validate_run_spec_correct: "validate_run_spec ser lim spec = Inr u \<longleftrightarrow> run_spec_wf ser lim spec"
  by (rule validate_run_spec_iff)

end
