(* ===== verification/Hub_Workflow.thy ===== *)
theory Hub_Workflow
  imports Hub_Run Hub_Dag
begin

text \<open>
  Workflow specifications and records: \<open>src/crates/hub-core/src/workflow.rs\<close>. Retry
  policies, admission pins, steps, the validation of a specification with its dependency
  graph, the direct dependencies and the deterministic order, and the workflow lifecycle.

  A panic of the topological sort is the value \<open>None\<close> of the functions that call it.
\<close>

section \<open>Model\<close>

definition WORKFLOW_SCHEMA_VERSION :: u16 where
  "WORKFLOW_SCHEMA_VERSION = 1"

definition WORKFLOW_MODEL_VERSION :: string where
  "WORKFLOW_MODEL_VERSION = ''1.2.0''"

definition MAX_WORKFLOW_CONCURRENCY :: u16 where
  "MAX_WORKFLOW_CONCURRENCY = 64"

definition WORKFLOW_ADMISSION_SCHEMA_VERSION :: u16 where
  "WORKFLOW_ADMISSION_SCHEMA_VERSION = 1"

datatype input_source = ArtifactSource artifact_id | FromStep string string

subsection \<open>Retry policy\<close>

datatype attempt_failure_category = Cat_TimedOut | Cat_StartFailure | Cat_NonZeroExit | Cat_Signaled
  | Cat_MissingRequiredOutput | Cat_Cancelled | Cat_ExecutionError

fun may_retry :: "attempt_failure_category \<Rightarrow> bool" where
  "may_retry c \<longleftrightarrow> c \<noteq> Cat_Cancelled \<and> c \<noteq> Cat_ExecutionError"

fun category_debug :: "attempt_failure_category \<Rightarrow> string" where
  "category_debug Cat_TimedOut = ''TimedOut''"
| "category_debug Cat_StartFailure = ''StartFailure''"
| "category_debug Cat_NonZeroExit = ''NonZeroExit''"
| "category_debug Cat_Signaled = ''Signaled''"
| "category_debug Cat_MissingRequiredOutput = ''MissingRequiredOutput''"
| "category_debug Cat_Cancelled = ''Cancelled''"
| "category_debug Cat_ExecutionError = ''ExecutionError''"

text \<open>\<open>retry_on\<close> is a \<open>BTreeSet\<close> in the derived order: a list.\<close>

record retry_policy =
  rp_max_attempts :: u32
  rp_backoff_ms :: "u64 option"
  rp_retry_on :: "attempt_failure_category list"

definition MAX_ATTEMPTS :: u32 where
  "MAX_ATTEMPTS = 32"

definition MAX_BACKOFF_MS :: u64 where
  "MAX_BACKOFF_MS = 3600000"

definition unwrap_or :: "'a \<Rightarrow> 'a option \<Rightarrow> 'a" where
  "unwrap_or d x = (case x of None \<Rightarrow> d | Some y \<Rightarrow> y)"

definition validate_retry :: "string \<Rightarrow> retry_policy \<Rightarrow> unit res" where
  "validate_retry key p =
     (if rp_max_attempts p = 0 \<or> rp_max_attempts p > MAX_ATTEMPTS then
        Inl (InvalidRunSpec (Fmt ''step {key:?} retry max_attempts must be 1..={}'' [FDebug key, FNat (unat MAX_ATTEMPTS)]))
      else if unwrap_or 0 (rp_backoff_ms p) > MAX_BACKOFF_MS then
        Inl (InvalidRunSpec (Fmt ''step {key:?} retry backoff_ms exceeds {}'' [FDebug key, FNat (unat MAX_BACKOFF_MS)]))
      else if rp_max_attempts p > 1 \<and> rp_retry_on p = [] then
        Inl (InvalidRunSpec (Fmt ''step {key:?} retry_on must be non-empty when max_attempts > 1'' [FDebug key]))
      else (case find (\<lambda>c. \<not> may_retry c) (rp_retry_on p) of
          Some c \<Rightarrow> Inl (InvalidRunSpec (Fmt ''step {key:?} failure category {category:?} is not retryable''
             [FDebug key, FStr (category_debug c)]))
        | None \<Rightarrow> Inr ()))"

definition retry_allows :: "retry_policy \<Rightarrow> attempt_failure_category \<Rightarrow> bool" where
  "retry_allows p c \<longleftrightarrow> may_retry c \<and> c \<in> set (rp_retry_on p)"

subsection \<open>Steps and specifications\<close>

record step =
  step_key :: string
  step_component :: component_id
  step_capability :: capability_name
  step_parameters :: params
  step_inputs :: "(string, input_source) btree"
  step_timeout_ms :: u64
  step_after :: "string list"
  step_retry :: "retry_policy option"

record workflow_spec =
  ws_schema_version :: u16
  ws_name :: string
  ws_max_concurrency :: u16
  ws_steps :: "step list"

record workflow_admission_pins =
  wap_schema_version :: u16
  wap_steps :: "(string, component_admission_pin) btree"

definition validate_pins :: "workflow_admission_pins \<Rightarrow> workflow_spec \<Rightarrow> unit res" where
  "validate_pins p spec =
     (if wap_schema_version p \<noteq> WORKFLOW_ADMISSION_SCHEMA_VERSION then
        Inl (InvalidRunSpec (Fmt ''unsupported workflow admission schema_version {}: expected {}''
          [FNat (unat (wap_schema_version p)), FNat (unat WORKFLOW_ADMISSION_SCHEMA_VERSION)]))
      else
        let expected = bs_of_list (map step_key (ws_steps spec));
            actual = bt_keys (wap_steps p) in
        if expected \<noteq> actual then
          Inl (InvalidRunSpec (Fmt ''workflow admission pins must cover every step exactly; missing={missing:?}, extra={extra:?}''
            [FDebugs (filter (\<lambda>k. k \<notin> set actual) expected), FDebugs (filter (\<lambda>k. k \<notin> set expected) actual)]))
        else Inr ())"

definition validate_key :: "string \<Rightarrow> unit res" where
  "validate_key key =
     (if is_slug key then Inr ()
      else Inl (InvalidRunSpec (Fmt ''step key {key:?} must match [a-z0-9][a-z0-9_-]{{0,63}}'' [FDebug key])))"

definition output_label_ok :: "string \<Rightarrow> bool" where
  "output_label_ok s \<longleftrightarrow> s \<noteq> [] \<and> length s \<le> 128
     \<and> list_all (\<lambda>c. \<not> is_whitespace c \<and> \<not> is_control c) (chars s)"

definition validate_output_ref_name :: "string \<Rightarrow> unit res" where
  "validate_output_ref_name output =
     (if output_label_ok output then Inr ()
      else Inl (InvalidRunSpec (Fmt ''output reference {output:?} must be 1..=128 characters without whitespace'' [FDebug output])))"

text \<open>The first loop of \<open>WorkflowSpec::validate\<close>, with the set \<open>seen\<close> of keys so far.\<close>

fun check_steps :: "string set \<Rightarrow> step list \<Rightarrow> unit res" where
  "check_steps seen [] = Inr ()"
| "check_steps seen (s # ss) =
     rbind (validate_key (step_key s)) (\<lambda>_.
       if step_key s \<in> seen then
         Inl (InvalidRunSpec (Fmt ''duplicate step key {:?}'' [FDebug (step_key s)]))
       else if step_timeout_ms s = 0 then
         Inl (InvalidRunSpec (Fmt ''step {:?} timeout_ms must be at least 1'' [FDebug (step_key s)]))
       else rbind (case step_retry s of None \<Rightarrow> Inr () | Some p \<Rightarrow> validate_retry (step_key s) p) (\<lambda>_.
         if step_key s \<in> set (step_after s) then
           Inl (InvalidRunSpec (Fmt ''step {:?} depends on itself'' [FDebug (step_key s)]))
         else check_steps (insert (step_key s) seen) ss))"

text \<open>The second loop: explicit dependencies and \<open>FromStep\<close> references name declared keys.\<close>

definition check_after :: "string set \<Rightarrow> step \<Rightarrow> string \<Rightarrow> unit res" where
  "check_after seen s dep =
     (if dep \<notin> seen then
        Inl (InvalidRunSpec (Fmt ''step {:?} depends on unknown step {dep:?}'' [FDebug (step_key s), FDebug dep]))
      else Inr ())"

definition check_input_ref :: "string set \<Rightarrow> step \<Rightarrow> string \<times> input_source \<Rightarrow> unit res" where
  "check_input_ref seen s e =
     (case e of
        (_, ArtifactSource _) \<Rightarrow> Inr ()
      | (input_name, FromStep key output) \<Rightarrow>
          if key = step_key s then
            Inl (InvalidRunSpec (Fmt ''step {:?} consumes its own output through input {input_name:?}''
              [FDebug (step_key s), FDebug input_name]))
          else if key \<notin> seen then
            Inl (InvalidRunSpec (Fmt ''input {input_name:?} of step {:?} references unknown step {key:?}''
              [FDebug input_name, FDebug (step_key s), FDebug key]))
          else validate_output_ref_name output)"

definition check_refs :: "string set \<Rightarrow> step \<Rightarrow> unit res" where
  "check_refs seen s =
     rbind (try_for (check_after seen s) (step_after s)) (\<lambda>_.
       try_for (check_input_ref seen s) (step_inputs s))"

definition step_deps :: "step \<Rightarrow> string list" where
  "step_deps s = fold (\<lambda>source deps. case source of FromStep key _ \<Rightarrow> bs_insert key deps | ArtifactSource _ \<Rightarrow> deps)
     (bt_values (step_inputs s)) (bs_of_list (step_after s))"

definition dependencies :: "workflow_spec \<Rightarrow> (string, string list) btree" where
  "dependencies spec = bt_of_list (map (\<lambda>s. (step_key s, step_deps s)) (ws_steps spec))"

definition concurrency_limit :: "workflow_spec \<Rightarrow> nat" where
  "concurrency_limit spec = unat (ws_max_concurrency spec)"

text \<open>The graph built alike by \<open>validate\<close> and \<open>topo_keys\<close>: dependency first.\<close>

definition add_dep :: "string \<Rightarrow> unit dag \<Rightarrow> string \<Rightarrow> unit dag res" where
  "add_dep key g dep = map_err (\<lambda>e. InvalidRunSpec (error_message e)) (add_edge dep key default_dag_limits g)"

definition build_dag :: "workflow_spec \<Rightarrow> unit dag res" where
  "build_dag spec =
     rbind (try_fold (\<lambda>g s. add_node (step_key s) () default_dag_limits g) dag_new (ws_steps spec)) (\<lambda>g.
       try_fold (\<lambda>g s. try_fold (add_dep (step_key s)) g (step_deps s)) g (ws_steps spec))"

definition validate_structure :: "workflow_spec \<Rightarrow> unit res" where
  "validate_structure spec =
     (if ws_schema_version spec \<noteq> WORKFLOW_SCHEMA_VERSION then
        Inl (InvalidRunSpec (Fmt ''unsupported workflow schema_version {}: expected {}''
          [FNat (unat (ws_schema_version spec)), FNat (unat WORKFLOW_SCHEMA_VERSION)]))
      else if ws_name spec = [] \<or> length (ws_name spec) > 128 \<or> CHR 0x00 \<in> set (ws_name spec) then
        Inl (InvalidRunSpec (plain ''workflow name must be 1..=128 characters''))
      else if ws_max_concurrency spec = 0 \<or> ws_max_concurrency spec > MAX_WORKFLOW_CONCURRENCY then
        Inl (InvalidRunSpec (Fmt ''workflow max_concurrency must be 1..={MAX_WORKFLOW_CONCURRENCY}''
          [FNat (unat MAX_WORKFLOW_CONCURRENCY)]))
      else if length (ws_steps spec) > max_nodes default_dag_limits then
        Inl (InvalidRunSpec (Fmt ''{} steps exceeds the maximum of {}''
          [FNat (length (ws_steps spec)), FNat (max_nodes default_dag_limits)]))
      else if ws_steps spec = [] then
        Inl (InvalidRunSpec (plain ''workflow must contain at least one step''))
      else
        rbind (check_steps {} (ws_steps spec)) (\<lambda>_.
          try_for (check_refs (step_key ` set (ws_steps spec))) (ws_steps spec)))"

definition validate_workflow :: "workflow_spec \<Rightarrow> unit res option" where
  "validate_workflow spec =
     (case rbind (validate_structure spec) (\<lambda>_. build_dag spec) of
        Inl e \<Rightarrow> Some (Inl e)
      | Inr g \<Rightarrow> map_option (\<lambda>r. map_err (\<lambda>e. InvalidRunSpec (error_message e)) (rbind r (\<lambda>_. Inr ())))
                   (topological_order g))"

definition topo_keys :: "workflow_spec \<Rightarrow> string list res option" where
  "topo_keys spec =
     (case build_dag spec of
        Inl e \<Rightarrow> Some (Inl e)
      | Inr g \<Rightarrow> map_option (\<lambda>r. rbind r (\<lambda>order. Inr (map fst order))) (topological_order g))"

definition step_run_spec :: "step \<Rightarrow> (string, artifact_id) btree \<Rightarrow> run_spec" where
  "step_run_spec s resolved =
     \<lparr>rspec_component = step_component s, rspec_capability = step_capability s,
      rspec_parameters = step_parameters s,
      rspec_inputs = map (\<lambda>(name, artifact). \<lparr>ib_name = name, ib_artifact = artifact\<rparr>) resolved,
      rspec_timeout_ms = step_timeout_ms s\<rparr>"

subsection \<open>Records\<close>

text \<open>
  Failure texts of attempts and workflows are messages: they quote rendered errors. The
  failure text of a run, a plain string, enters as \<open>run_text\<close>.
\<close>

definition run_text :: "string \<Rightarrow> message" where
  "run_text s = Fmt ''{}'' [FStr s]"

record step_attempt =
  sa_id :: attempt_id
  sa_number :: u32
  sa_run :: run_id
  sa_state :: run_state
  sa_started_at :: "u64 option"
  sa_finished_at :: "u64 option"
  sa_failure_category :: "attempt_failure_category option"
  sa_failure :: "message option"

record step_result =
  sr_key :: string
  sr_run :: run_id
  sr_state :: run_state
  sr_failure :: "message option"
  sr_attempts :: "step_attempt list"

fun wf_can_transition_to :: "workflow_state \<Rightarrow> workflow_state \<Rightarrow> bool" where
  "wf_can_transition_to Wf_Created next_state \<longleftrightarrow> next_state \<in> {Wf_Running, Wf_Cancelled}"
| "wf_can_transition_to Wf_Running next_state \<longleftrightarrow> next_state \<in> {Wf_Succeeded, Wf_Failed, Wf_Cancelled}"
| "wf_can_transition_to _ _ \<longleftrightarrow> False"

fun wf_is_terminal :: "workflow_state \<Rightarrow> bool" where
  "wf_is_terminal s \<longleftrightarrow> s = Wf_Succeeded \<or> s = Wf_Failed \<or> s = Wf_Cancelled"

record workflow_record =
  wr_id :: workflow_id
  wr_spec :: workflow_spec
  wr_admission :: "workflow_admission_pins option"
  wr_state :: workflow_state
  wr_model_version :: version
  wr_created_at :: u64
  wr_started_at :: "u64 option"
  wr_finished_at :: "u64 option"
  wr_cancel_requested_at :: "u64 option"
  wr_steps :: "step_result list"
  wr_failure :: "message option"

definition create_with_admission :: "workflow_id \<Rightarrow> workflow_spec \<Rightarrow> version \<Rightarrow> u64
    \<Rightarrow> workflow_admission_pins option \<Rightarrow> workflow_record res option" where
  "create_with_admission fresh spec model_version now admission =
     map_option (\<lambda>r. rbind r (\<lambda>_.
         rbind (case admission of None \<Rightarrow> Inr () | Some p \<Rightarrow> validate_pins p spec) (\<lambda>_. Inr
           \<lparr>wr_id = fresh, wr_spec = spec, wr_admission = admission, wr_state = Wf_Created,
            wr_model_version = model_version, wr_created_at = now, wr_started_at = None,
            wr_finished_at = None, wr_cancel_requested_at = None, wr_steps = [], wr_failure = None\<rparr>)))
       (validate_workflow spec)"

definition wf_create :: "workflow_id \<Rightarrow> workflow_spec \<Rightarrow> version \<Rightarrow> u64 \<Rightarrow> workflow_record res option" where
  "wf_create fresh spec model_version now = create_with_admission fresh spec model_version now None"

definition wf_transition_to :: "workflow_state \<Rightarrow> u64 \<Rightarrow> workflow_record \<Rightarrow> workflow_record res" where
  "wf_transition_to to_state now r =
     (let from_state = wr_state r in
      if \<not> wf_can_transition_to from_state to_state then Inl (InvalidWorkflowTransition from_state to_state)
      else Inr (r\<lparr>wr_state := to_state,
        wr_started_at := (if to_state = Wf_Running then get_or_insert now (wr_started_at r) else wr_started_at r),
        wr_finished_at := (if wf_is_terminal to_state then Some now else wr_finished_at r)\<rparr>))"

section \<open>Specifications\<close>

definition retry_wf :: "retry_policy \<Rightarrow> bool" where
  "retry_wf p \<longleftrightarrow> 1 \<le> rp_max_attempts p \<and> rp_max_attempts p \<le> 32
     \<and> unwrap_or 0 (rp_backoff_ms p) \<le> 3600000
     \<and> (rp_max_attempts p \<le> 1 \<or> rp_retry_on p \<noteq> [])
     \<and> Cat_Cancelled \<notin> set (rp_retry_on p) \<and> Cat_ExecutionError \<notin> set (rp_retry_on p)"

definition step_wf :: "string set \<Rightarrow> step \<Rightarrow> bool" where
  "step_wf keys s \<longleftrightarrow> is_slug (step_key s) \<and> step_timeout_ms s \<noteq> 0
     \<and> (\<forall>p. step_retry s = Some p \<longrightarrow> retry_wf p)
     \<and> step_key s \<notin> set (step_deps s) \<and> set (step_deps s) \<subseteq> keys
     \<and> (\<forall>name key output. (name, FromStep key output) \<in> set (step_inputs s) \<longrightarrow> output_label_ok output)"

definition dep_pairs :: "workflow_spec \<Rightarrow> (string \<times> string) list" where
  "dep_pairs spec = concat (map (\<lambda>s. map (\<lambda>d. (d, step_key s)) (step_deps s)) (ws_steps spec))"

abbreviation step_keys :: "workflow_spec \<Rightarrow> string set" where
  "step_keys spec \<equiv> step_key ` set (ws_steps spec)"

definition structure_wf :: "workflow_spec \<Rightarrow> bool" where
  "structure_wf spec \<longleftrightarrow>
     ws_schema_version spec = 1
     \<and> ws_name spec \<noteq> [] \<and> length (ws_name spec) \<le> 128 \<and> CHR 0x00 \<notin> set (ws_name spec)
     \<and> ws_max_concurrency spec \<noteq> 0 \<and> ws_max_concurrency spec \<le> 64
     \<and> ws_steps spec \<noteq> [] \<and> length (ws_steps spec) \<le> max_nodes default_dag_limits
     \<and> distinct (map step_key (ws_steps spec))
     \<and> (\<forall>s\<in>set (ws_steps spec). step_wf (step_keys spec) s)"

definition workflow_wf :: "workflow_spec \<Rightarrow> bool" where
  "workflow_wf spec \<longleftrightarrow> structure_wf spec
     \<and> length (dep_pairs spec) \<le> max_edges default_dag_limits \<and> acyclic (set (dep_pairs spec))"

section \<open>Facts\<close>

subsection \<open>Dependencies\<close>

lemma step_deps_fold:
  "set (fold (\<lambda>source deps. case source of FromStep key _ \<Rightarrow> bs_insert key deps | ArtifactSource _ \<Rightarrow> deps) xs ds)
     = set ds \<union> {k. \<exists>out. FromStep k out \<in> set xs}"
  by (induction xs arbitrary: ds) (auto split: input_source.splits)

lemma set_step_deps:
  "set (step_deps s) = set (step_after s) \<union> {k. \<exists>out. FromStep k out \<in> set (bt_values (step_inputs s))}"
  unfolding step_deps_def step_deps_fold by simp

lemma bs_wf_step_deps: "bs_wf (step_deps s)"
proof -
  have "bs_wf ds \<Longrightarrow> bs_wf (fold (\<lambda>source deps. case source of FromStep key _ \<Rightarrow> bs_insert key deps
      | ArtifactSource _ \<Rightarrow> deps) xs ds)" for xs :: "input_source list" and ds
    by (induction xs arbitrary: ds) (auto split: input_source.splits)
  then show ?thesis by (simp add: step_deps_def)
qed

lemma set_dep_pairs: "(d, k) \<in> set (dep_pairs spec) \<longleftrightarrow> (\<exists>s\<in>set (ws_steps spec). step_key s = k \<and> d \<in> set (step_deps s))"
  by (auto simp: dep_pairs_def)

lemma distinct_dep_pairs:
  assumes "distinct (map step_key ss)"
  shows "distinct (concat (map (\<lambda>s. map (\<lambda>d. (d, step_key s)) (step_deps s)) ss))"
  using assms
proof (induction ss)
  case (Cons s ss)
  have "distinct (map (\<lambda>d. (d, step_key s)) (step_deps s))"
    using bs_wf_distinct[OF bs_wf_step_deps] by (auto simp: distinct_map inj_on_def)
  then show ?case using Cons by auto
qed simp

subsection \<open>Structural validation\<close>

lemma find_not_retryable:
  "find (\<lambda>c. \<not> may_retry c) cs = None \<longleftrightarrow> Cat_Cancelled \<notin> set cs \<and> Cat_ExecutionError \<notin> set cs"
  by (auto simp: find_None_iff)

lemma word_one_le: "(1 :: u32) \<le> x \<longleftrightarrow> x \<noteq> 0"
  by (simp only: linorder_not_less[symmetric] word_less_1)

lemma validate_retry_iff [result_simps]: "validate_retry k p = Inr u \<longleftrightarrow> retry_wf p"
proof (cases "find (\<lambda>c. \<not> may_retry c) (rp_retry_on p)")
  case None
  then show ?thesis
    unfolding validate_retry_def retry_wf_def find_not_retryable[symmetric] MAX_ATTEMPTS_def MAX_BACKOFF_MS_def
    by (auto simp: word_one_le linorder_not_less[symmetric] simp del: may_retry.simps linorder_not_less)
next
  case (Some c)
  then have "\<not> (Cat_Cancelled \<notin> set (rp_retry_on p) \<and> Cat_ExecutionError \<notin> set (rp_retry_on p))"
    unfolding find_not_retryable[symmetric] by simp
  moreover have "rp_retry_on p \<noteq> []" using Some by auto
  ultimately show ?thesis using Some by (auto simp: validate_retry_def retry_wf_def simp del: may_retry.simps)
qed

lemma check_steps_iff:
  "check_steps seen ss = Inr u \<longleftrightarrow> distinct (map step_key ss) \<and> seen \<inter> step_key ` set ss = {}
     \<and> (\<forall>s\<in>set ss. is_slug (step_key s) \<and> step_timeout_ms s \<noteq> 0
          \<and> (\<forall>p. step_retry s = Some p \<longrightarrow> retry_wf p) \<and> step_key s \<notin> set (step_after s))"
  by (induction ss arbitrary: seen)
    (auto simp: result_simps validate_key_def split: if_splits option.splits)

lemma check_input_ref_iff:
  "check_input_ref seen s (n, src) = Inr u \<longleftrightarrow>
     (\<forall>k out. src = FromStep k out \<longrightarrow> k \<noteq> step_key s \<and> k \<in> seen \<and> output_label_ok out)"
  by (cases src) (auto simp: check_input_ref_def validate_output_ref_name_def)

lemma check_refs_iff:
  "check_refs seen s = Inr u \<longleftrightarrow> set (step_after s) \<subseteq> seen
     \<and> (\<forall>n k out. (n, FromStep k out) \<in> set (step_inputs s) \<longrightarrow> k \<noteq> step_key s \<and> k \<in> seen \<and> output_label_ok out)"
proof -
  have "try_for (check_input_ref seen s) (step_inputs s) = Inr u \<longleftrightarrow>
      (\<forall>n k out. (n, FromStep k out) \<in> set (step_inputs s) \<longrightarrow> k \<noteq> step_key s \<and> k \<in> seen \<and> output_label_ok out)" for u
    unfolding try_for_Inr_iff by (simp add: Ball_def check_input_ref_iff split_paired_All) metis
  moreover have "try_for (check_after seen s) (step_after s) = Inr u \<longleftrightarrow> set (step_after s) \<subseteq> seen" for u
    unfolding try_for_Inr_iff by (auto simp: check_after_def)
  ultimately show ?thesis by (simp add: check_refs_def rbind_Inr_iff)
qed

lemma step_ok_iff:
  "is_slug (step_key s) \<and> step_timeout_ms s \<noteq> 0 \<and> (\<forall>p. step_retry s = Some p \<longrightarrow> retry_wf p)
     \<and> step_key s \<notin> set (step_after s) \<and> check_refs keys s = Inr () \<longleftrightarrow> step_wf keys s"
proof -
  have "FromStep k out \<in> set (bt_values (step_inputs s)) \<longleftrightarrow> (\<exists>n. (n, FromStep k out) \<in> set (step_inputs s))" for k out
    by force
  then show ?thesis unfolding check_refs_iff step_wf_def set_step_deps by blast
qed

lemma validate_structure_iff: "validate_structure spec = Inr u \<longleftrightarrow> structure_wf spec"
proof -
  have "validate_structure spec = Inr u \<longleftrightarrow>
     ws_schema_version spec = 1
     \<and> ws_name spec \<noteq> [] \<and> length (ws_name spec) \<le> 128 \<and> CHR 0x00 \<notin> set (ws_name spec)
     \<and> ws_max_concurrency spec \<noteq> 0 \<and> ws_max_concurrency spec \<le> 64
     \<and> ws_steps spec \<noteq> [] \<and> length (ws_steps spec) \<le> max_nodes default_dag_limits
     \<and> check_steps {} (ws_steps spec) = Inr ()
     \<and> (\<forall>s\<in>set (ws_steps spec). check_refs (step_keys spec) s = Inr ())"
    by (auto simp: validate_structure_def WORKFLOW_SCHEMA_VERSION_def MAX_WORKFLOW_CONCURRENCY_def
        result_simps not_less split: if_splits)
  also have "\<dots> \<longleftrightarrow> structure_wf spec"
    unfolding structure_wf_def check_steps_iff step_ok_iff[symmetric] by blast
  finally show ?thesis .
qed

subsection \<open>The dependency graph\<close>

lemma edge_count_add_edge:
  assumes "dag_wf g" and "add_edge u v lim g = Inr g'" and "(u, v) \<notin> edge_rel (dag_edges g)"
  shows "edge_count g' = Suc (edge_count g)"
proof -
  note e = add_edge_Inr[OF assms(2)]
  let ?s = "successors (dag_edges g) u"
  have wf: "bt_wf (dag_edges g)" using assms(1) by (simp add: dag_wf_def)
  have "length (bs_insert v s) = Suc (length s)" if "v \<notin> set s" for s
    using that by (induction s) auto
  then have "length (bs_insert v ?s) = Suc (length ?s)" using assms(3) by (simp add: edge_rel_iff)
  then show ?thesis
    using edge_sum_insert[OF wf, of u "bs_insert v ?s"] by (simp add: edge_count_def e(5))
qed

abbreviation add_pairs :: "unit dag \<Rightarrow> (string \<times> string) list \<Rightarrow> unit dag res" where
  "add_pairs \<equiv> try_fold (\<lambda>g (d, k). add_dep k g d)"

lemma add_pairs_sound:
  assumes "add_pairs g es = Inr g'" and "dag_wf g" and "within_limits default_dag_limits g"
    and "distinct es" and "set es \<inter> edge_rel (dag_edges g) = {}"
  shows "dag_wf g' \<and> within_limits default_dag_limits g' \<and> dag_nodes g' = dag_nodes g
    \<and> edge_rel (dag_edges g') = edge_rel (dag_edges g) \<union> set es
    \<and> edge_count g' = edge_count g + length es"
  using assms
proof (induction es arbitrary: g)
  case (Cons e es)
  obtain d k where e: "e = (d, k)" by (cases e)
  from Cons.prems(1) obtain g1 where g1: "add_edge d k default_dag_limits g = Inr g1"
    and rest: "add_pairs g1 es = Inr g'"
    by (auto simp: e add_dep_def result_simps split: sum.splits)
  note a = add_edge_Inr[OF g1]
  have rel: "edge_rel (dag_edges g1) = insert (d, k) (edge_rel (dag_edges g))"
    by (simp add: a(5) edge_rel_insert)
  have "set es \<inter> edge_rel (dag_edges g1) = {}" using Cons.prems(4,5) rel e by auto
  from Cons.IH[OF rest dag_wf_add_edge[OF Cons.prems(2) g1] within_limits_add_edge[OF Cons.prems(2,3) g1] _ this]
  show ?case
    using Cons.prems(4,5) rel e a(5) edge_count_add_edge[OF Cons.prems(2) g1] by auto
qed simp

lemma add_pairs_complete:
  assumes "dag_wf g" and "within_limits default_dag_limits g" and "distinct es"
    and "set es \<inter> edge_rel (dag_edges g) = {}" and "set es \<subseteq> fst ` set (dag_nodes g) \<times> fst ` set (dag_nodes g)"
    and "acyclic (edge_rel (dag_edges g) \<union> set es)"
    and "edge_count g + length es \<le> max_edges default_dag_limits"
  shows "\<exists>g'. add_pairs g es = Inr g'"
  using assms
proof (induction es arbitrary: g)
  case (Cons e es)
  obtain d k where e: "e = (d, k)" by (cases e)
  let ?E = "edge_rel (dag_edges g)"
  have acyc: "acyclic (insert (d, k) ?E)" by (rule acyclic_subset[OF Cons.prems(6)]) (auto simp: e)
  have "d \<noteq> k" "(k, d) \<notin> ?E\<^sup>*" using acyc by (auto simp: acyclic_insert)
  moreover have "edge_count g < max_edges default_dag_limits" using Cons.prems(7) by simp
  moreover have "d \<in> fst ` set (dag_nodes g)" "k \<in> fst ` set (dag_nodes g)" using Cons.prems(5) e by auto
  ultimately obtain g1 where g1: "add_edge d k default_dag_limits g = Inr g1"
    by (auto simp: add_edge_def Let_def reachable_rtrancl map_of_eq_None_iff simp del: split_paired_Ex)
  note a = add_edge_Inr[OF g1]
  have rel: "edge_rel (dag_edges g1) = insert (d, k) ?E" by (simp add: a(5) edge_rel_insert)
  have "\<exists>g'. add_pairs g1 es = Inr g'"
  proof (rule Cons.IH)
    show "dag_wf g1" by (rule dag_wf_add_edge[OF Cons.prems(1) g1])
    show "within_limits default_dag_limits g1" by (rule within_limits_add_edge[OF Cons.prems(1,2) g1])
    show "distinct es" using Cons.prems(3) by simp
    show "set es \<inter> edge_rel (dag_edges g1) = {}" using Cons.prems(3,4) rel e by auto
    show "set es \<subseteq> fst ` set (dag_nodes g1) \<times> fst ` set (dag_nodes g1)" using Cons.prems(5) a(5) by simp
    show "acyclic (edge_rel (dag_edges g1) \<union> set es)" using Cons.prems(6) rel e by simp
    show "edge_count g1 + length es \<le> max_edges default_dag_limits"
      using Cons.prems(4,7) e edge_count_add_edge[OF Cons.prems(1) g1] by simp
  qed
  then show ?case using g1 by (simp add: e add_dep_def)
qed simp

lemma add_deps_flat:
  "try_fold (\<lambda>g s. try_fold (add_dep (step_key s)) g (step_deps s)) g ss =
     add_pairs g (concat (map (\<lambda>s. map (\<lambda>d. (d, step_key s)) (step_deps s)) ss))"
proof (induction ss arbitrary: g)
  case (Cons s ss)
  have "try_fold (add_dep k) g ds = add_pairs g (map (\<lambda>d. (d, k)) ds)" for k g ds
    by (induction ds arbitrary: g) (auto split: sum.splits)
  then show ?case using Cons by (auto simp: try_fold_append rbind_def split: sum.splits)
qed simp

lemma add_nodes:
  assumes "distinct (map step_key ss)" and "dag_wf g" and "within_limits default_dag_limits g"
    and "dag_edges g = []" and "fst ` set (dag_nodes g) \<inter> step_key ` set ss = {}"
    and "node_count g + length ss \<le> max_nodes default_dag_limits"
  shows "\<exists>g'. try_fold (\<lambda>g s. add_node (step_key s) () default_dag_limits g) g ss = Inr g'
    \<and> dag_wf g' \<and> within_limits default_dag_limits g' \<and> dag_edges g' = []
    \<and> fst ` set (dag_nodes g') = fst ` set (dag_nodes g) \<union> step_key ` set ss"
  using assms
proof (induction ss arbitrary: g)
  case (Cons s ss)
  let ?g = "g\<lparr>dag_nodes := bt_insert (step_key s) () (dag_nodes g)\<rparr>"
  have add: "add_node (step_key s) () default_dag_limits g = Inr ?g"
    using Cons.prems(6) by (simp add: add_node_def node_count_def)
  have keys: "fst ` set (dag_nodes ?g) = insert (step_key s) (fst ` set (dag_nodes g))"
    using set_bt_keys_insert[of "step_key s" "()" "dag_nodes g"] by simp
  have "node_count ?g + length ss \<le> max_nodes default_dag_limits"
    using Cons.prems(6) length_bt_insert[of "step_key s" "()" "dag_nodes g"] by (simp add: node_count_def)
  moreover have "fst ` set (dag_nodes ?g) \<inter> step_key ` set ss = {}" using Cons.prems(1,5) keys by auto
  moreover have "dag_edges ?g = []" "distinct (map step_key ss)" using Cons.prems(1,4) by simp_all
  ultimately have "\<exists>g'. try_fold (\<lambda>g s. add_node (step_key s) () default_dag_limits g) ?g ss = Inr g'
    \<and> dag_wf g' \<and> within_limits default_dag_limits g' \<and> dag_edges g' = []
    \<and> fst ` set (dag_nodes g') = fst ` set (dag_nodes ?g) \<union> step_key ` set ss"
    using Cons.IH dag_wf_add_node[OF Cons.prems(2) add] within_limits_add_node[OF Cons.prems(2,3) add] by blast
  then show ?case using add keys by auto
qed simp

lemma build_dag_nodes:
  assumes "structure_wf spec"
  obtains g0 where "build_dag spec = add_pairs g0 (dep_pairs spec)" and "dag_wf g0"
    and "within_limits default_dag_limits g0" and "edge_rel (dag_edges g0) = {}" and "edge_count g0 = 0"
    and "fst ` set (dag_nodes g0) = step_keys spec" and "distinct (dep_pairs spec)"
proof -
  have dist: "distinct (map step_key (ws_steps spec))" using assms(1) by (simp add: structure_wf_def)
  have new: "dag_wf (dag_new :: unit dag)" "within_limits default_dag_limits (dag_new :: unit dag)"
    by (rule dag_wf_new) (simp add: dag_new_def within_limits_def node_count_def edge_count_def)
  have pre: "fst ` set (dag_nodes (dag_new :: unit dag)) \<inter> step_keys spec = {}"
    "node_count (dag_new :: unit dag) + length (ws_steps spec) \<le> max_nodes default_dag_limits"
    "dag_edges (dag_new :: unit dag) = []"
    using assms(1) by (simp_all add: dag_new_def node_count_def structure_wf_def)
  obtain g0 where g0: "try_fold (\<lambda>g s. add_node (step_key s) () default_dag_limits g) dag_new (ws_steps spec) = Inr g0"
    "dag_wf g0" "within_limits default_dag_limits g0" "dag_edges g0 = []" "fst ` set (dag_nodes g0) = step_keys spec"
    using add_nodes[OF dist new pre(3,1,2)] by (auto simp: dag_new_def)
  show ?thesis
  proof (rule that[OF _ g0(2,3) _ _ g0(5)])
    show "build_dag spec = add_pairs g0 (dep_pairs spec)"
      using g0(1) by (simp add: build_dag_def add_deps_flat dep_pairs_def)
    show "edge_rel (dag_edges g0) = {}" "edge_count g0 = 0"
      using g0(4) by (simp_all add: edge_rel_def successors_def edge_count_def)
    show "distinct (dep_pairs spec)" using distinct_dep_pairs[OF dist] by (simp add: dep_pairs_def)
  qed
qed

lemma build_dag_props:
  assumes "structure_wf spec" and "build_dag spec = Inr g"
  shows "dag_wf g" and "edge_rel (dag_edges g) = set (dep_pairs spec)"
    and "fst ` set (dag_nodes g) = step_keys spec"
    and "length (dep_pairs spec) \<le> max_edges default_dag_limits"
proof -
  obtain g0 where g0: "build_dag spec = add_pairs g0 (dep_pairs spec)" "dag_wf g0"
    "within_limits default_dag_limits g0" "edge_rel (dag_edges g0) = {}" "edge_count g0 = 0"
    "fst ` set (dag_nodes g0) = step_keys spec" "distinct (dep_pairs spec)"
    using build_dag_nodes[OF assms(1)] .
  have ad: "add_pairs g0 (dep_pairs spec) = Inr g" using g0(1) assms(2) by (rule subst)
  have disj: "set (dep_pairs spec) \<inter> edge_rel (dag_edges g0) = {}" unfolding g0(4) by simp
  note s = add_pairs_sound[OF ad g0(2,3,7) disj]
  show "dag_wf g" using s by (elim conjE)
  show "edge_rel (dag_edges g) = set (dep_pairs spec)" using s unfolding g0(4) by (elim conjE) simp
  show "fst ` set (dag_nodes g) = step_keys spec" using s g0(6) by (elim conjE) simp
  show "length (dep_pairs spec) \<le> max_edges default_dag_limits"
    using s unfolding g0(5) within_limits_def by (elim conjE) simp
qed

lemma dep_pairs_keys:
  assumes "structure_wf spec"
  shows "set (dep_pairs spec) \<subseteq> step_keys spec \<times> step_keys spec"
proof -
  have deps: "set (step_deps s) \<subseteq> step_keys spec" if "s \<in> set (ws_steps spec)" for s
    using assms that by (simp add: structure_wf_def step_wf_def)
  show ?thesis
  proof
    fix e assume "e \<in> set (dep_pairs spec)"
    then obtain d s where e: "e = (d, step_key s)" "s \<in> set (ws_steps spec)" "d \<in> set (step_deps s)"
      by (auto simp: dep_pairs_def)
    with subsetD[OF deps[OF e(2)] e(3)] show "e \<in> step_keys spec \<times> step_keys spec" by simp
  qed
qed

lemma build_dag_complete:
  assumes "workflow_wf spec"
  shows "\<exists>g. build_dag spec = Inr g"
proof -
  have st: "structure_wf spec" using assms by (simp add: workflow_wf_def)
  obtain g0 where g0: "build_dag spec = add_pairs g0 (dep_pairs spec)" "dag_wf g0"
    "within_limits default_dag_limits g0" "edge_rel (dag_edges g0) = {}" "edge_count g0 = 0"
    "fst ` set (dag_nodes g0) = step_keys spec" "distinct (dep_pairs spec)"
    using build_dag_nodes[OF st] .
  show ?thesis unfolding g0(1)
  proof (rule add_pairs_complete[OF g0(2,3,7)])
    show "set (dep_pairs spec) \<inter> edge_rel (dag_edges g0) = {}" unfolding g0(4) by simp
    show "set (dep_pairs spec) \<subseteq> fst ` set (dag_nodes g0) \<times> fst ` set (dag_nodes g0)"
      unfolding g0(6) by (rule dep_pairs_keys[OF st])
    show "acyclic (edge_rel (dag_edges g0) \<union> set (dep_pairs spec))"
      unfolding g0(4) using assms by (simp add: workflow_wf_def)
    show "edge_count g0 + length (dep_pairs spec) \<le> max_edges default_dag_limits"
      unfolding g0(5) using assms by (simp add: workflow_wf_def)
  qed
qed

lemma validate_workflow_iff: "validate_workflow spec = Some (Inr u) \<longleftrightarrow> workflow_wf spec"
proof
  assume v: "validate_workflow spec = Some (Inr u)"
  then have st: "structure_wf spec" using validate_structure_iff[of spec "()"]
    by (cases "validate_structure spec") (auto simp: validate_workflow_def)
  moreover obtain g where g: "build_dag spec = Inr g"
    using v validate_structure_iff[of spec "()"] st by (cases "build_dag spec") (auto simp: validate_workflow_def)
  ultimately show "workflow_wf spec" using build_dag_props[OF st g] by (auto simp: workflow_wf_def dag_wf_def)
next
  assume wf: "workflow_wf spec"
  then have st: "structure_wf spec" "validate_structure spec = Inr ()"
    by (simp_all add: workflow_wf_def validate_structure_iff)
  obtain g where g: "build_dag spec = Inr g" using build_dag_complete[OF wf] by blast
  from topological_order_spec[OF build_dag_props(1)[OF st(1) g]] g st(2)
  show "validate_workflow spec = Some (Inr u)" by (auto simp: validate_workflow_def)
qed

lemma validate_workflow_total: "\<exists>r. validate_workflow spec = Some r"
proof (cases "rbind (validate_structure spec) (\<lambda>_. build_dag spec)")
  case (Inr g)
  then have st: "structure_wf spec" and g: "build_dag spec = Inr g"
    by (auto simp: rbind_Inr_iff validate_structure_iff)
  from topological_order_spec[OF build_dag_props(1)[OF st g]] Inr show ?thesis
    by (auto simp: validate_workflow_def)
qed (simp add: validate_workflow_def)

lemma dependencies_get:
  assumes "distinct (map step_key (ws_steps spec))" and "s \<in> set (ws_steps spec)"
  shows "bt_get (dependencies spec) (step_key s) = Some (step_deps s)"
proof -
  have "bt_get (fold (\<lambda>(k, v). bt_insert k v) (map (\<lambda>s. (step_key s, step_deps s)) ss) m) k =
      (case find (\<lambda>s. step_key s = k) (rev ss) of Some s \<Rightarrow> Some (step_deps s) | None \<Rightarrow> bt_get m k)" for ss m k
    by (induction ss arbitrary: m) (auto simp: find_snoc split: option.splits)
  moreover have "find (\<lambda>s'. step_key s' = step_key s) (rev (ws_steps spec)) = Some s"
  proof -
    obtain s' where s': "find (\<lambda>s'. step_key s' = step_key s) (rev (ws_steps spec)) = Some s'"
      using assms(2) by (cases "find (\<lambda>s'. step_key s' = step_key s) (rev (ws_steps spec))") (auto simp: find_None_iff)
    then have "s' \<in> set (ws_steps spec)" "step_key s' = step_key s" by (auto dest!: find_SomeD)
    then have "s' = s" using assms by (meson distinct_map inj_onD)
    then show ?thesis using s' by simp
  qed
  ultimately show ?thesis by (simp add: dependencies_def bt_of_list_def)
qed

subsection \<open>Lifecycle\<close>

lemma wf_transition_Inr [result_simps]:
  "wf_transition_to s now r = Inr r' \<longleftrightarrow> wf_can_transition_to (wr_state r) s \<and>
     r' = r\<lparr>wr_state := s,
        wr_started_at := (if s = Wf_Running then get_or_insert now (wr_started_at r) else wr_started_at r),
        wr_finished_at := (if wf_is_terminal s then Some now else wr_finished_at r)\<rparr>"
  by (auto simp: wf_transition_to_def Let_def)

section \<open>Properties\<close>

text \<open>
  C21. Validation of a workflow specification never panics, and it accepts exactly the
  well-formed ones: supported schema, bounded name and concurrency, one to the maximum number
  of steps with distinct slug keys, positive timeouts and bounded retry policies, references
  only to other declared steps, a bounded number of dependencies, and no dependency cycle.
\<close>
theorem validate_workflow_correct:
  "(\<exists>r. validate_workflow spec = Some r) \<and> (validate_workflow spec = Some (Inr u) \<longleftrightarrow> workflow_wf spec)"
  using validate_workflow_total validate_workflow_iff by blast

text \<open>
  The execution order of an accepted specification exists, names every step once, and
  puts every dependency of a step, explicit or through an input, before the step.
\<close>
theorem topo_keys_correct:
  assumes "validate_workflow spec = Some (Inr u)"
  shows "\<exists>ks. topo_keys spec = Some (Inr ks) \<and> distinct ks \<and> set ks = step_keys spec
    \<and> (\<forall>s\<in>set (ws_steps spec). \<forall>d\<in>set (step_deps s).
         \<exists>i j. i < j \<and> j < length ks \<and> ks ! i = d \<and> ks ! j = step_key s)"
proof -
  have wf: "workflow_wf spec" using assms by (simp add: validate_workflow_iff)
  then have st: "structure_wf spec" by (simp add: workflow_wf_def)
  obtain g where g: "build_dag spec = Inr g" using build_dag_complete[OF wf] by blast
  note p = build_dag_props[OF st g]
  obtain order where o: "topological_order g = Some (Inr order)" "distinct (map fst order)"
    "set order = set (dag_nodes g)" "greedy_order (step_keys spec) (set (dep_pairs spec)) (map fst order)"
    using topological_order_spec[OF p(1)] p(2,3) by auto
  have ks: "set (map fst order) = step_keys spec" using o(3) p(3) by simp
  have "\<exists>i j. i < j \<and> j < length (map fst order) \<and> map fst order ! i = d \<and> map fst order ! j = step_key s"
    if "s \<in> set (ws_steps spec)" "d \<in> set (step_deps s)" for s d
  proof (rule greedy_order_forward[OF o(4) ks _ dep_pairs_keys[OF st]])
    show "(d, step_key s) \<in> set (dep_pairs spec)" using that by (auto simp: set_dep_pairs)
  qed
  moreover have "topo_keys spec = Some (Inr (map fst order))" using g o(1) by (simp add: topo_keys_def)
  ultimately show ?thesis using o(2) ks by blast
qed

definition example_step :: "string \<Rightarrow> string list \<Rightarrow> step" where
  "example_step k deps = \<lparr>step_key = k, step_component = UuidId 1, step_capability = CapabilityName ''a.b'',
     step_parameters = [], step_inputs = [], step_timeout_ms = 10, step_after = deps, step_retry = None\<rparr>"

definition example_workflow :: workflow_spec where
  "example_workflow = \<lparr>ws_schema_version = 1, ws_name = ''w'', ws_max_concurrency = 2,
     ws_steps = [example_step ''a'' [''b''], example_step ''b'' [], example_step ''c'' []]\<rparr>"

theorem topo_keys_correct_witness:
  "topo_keys example_workflow = Some (Inr [''b'', ''a'', ''c'']) \<and>
   (\<exists>i j. i < j \<and> [''b'', ''a'', ''c''] ! i = ''b'' \<and> [''b'', ''a'', ''c''] ! j = ''a'')"
proof -
  have v: "validate_workflow example_workflow = Some (Inr ())" by code_simp
  have t: "topo_keys example_workflow = Some (Inr [''b'', ''a'', ''c''])" by code_simp
  have "example_step ''a'' [''b''] \<in> set (ws_steps example_workflow)" "''b'' \<in> set (step_deps (example_step ''a'' [''b'']))"
    by (simp add: example_workflow_def, code_simp)
  with topo_keys_correct[OF v] t show ?thesis by (fastforce simp: example_step_def)
qed

text \<open>
  A workflow record is created only for a well-formed specification, in state
  \<open>Created\<close>, without cancellation intent or step results. With an admission envelope, every step
  has its pin and every pin names a step.
\<close>
theorem workflow_creation_admission:
  assumes "create_with_admission fresh spec mv now admission = Some (Inr r)"
  shows "workflow_wf spec \<and> wr_spec r = spec \<and> wr_state r = Wf_Created \<and> wr_cancel_requested_at r = None
    \<and> wr_steps r = [] \<and> wr_admission r = admission
    \<and> (\<forall>p. admission = Some p \<longrightarrow> fst ` set (wap_steps p) = step_keys spec)"
proof -
  obtain v where v: "validate_workflow spec = Some v" using validate_workflow_total by blast
  have cover: "fst ` set (wap_steps p) = step_keys spec" if "validate_pins p spec = Inr ()" for p
  proof -
    have "bs_of_list (map step_key (ws_steps spec)) = bt_keys (wap_steps p)"
      using that by (simp add: validate_pins_def Let_def split: if_splits)
    then have "set (bs_of_list (map step_key (ws_steps spec))) = set (bt_keys (wap_steps p))" by simp
    then show ?thesis by simp
  qed
  show ?thesis
    using assms v cover validate_workflow_iff[of spec "()"]
    by (auto simp: create_with_admission_def rbind_Inr_iff split: option.splits)
qed

theorem workflow_creation_admission_witness:
  "\<exists>r. create_with_admission (UuidId 3) example_workflow (Version ''1.2.0'') 5 None = Some (Inr r)
     \<and> wr_state r = Wf_Created \<and> workflow_wf example_workflow"
proof -
  have v: "validate_workflow example_workflow = Some (Inr ())" by code_simp
  then obtain r where r: "create_with_admission (UuidId 3) example_workflow (Version ''1.2.0'') 5 None = Some (Inr r)"
    by (simp add: create_with_admission_def)
  with workflow_creation_admission[OF r] show ?thesis by blast
qed

end
