(* ===== verification/Hub_Publication.thy ===== *)
theory Hub_Publication
  imports Hub_Workflow "HOL-Library.Product_Lexorder"
begin

text \<open>
  Publication fencing: \<open>src/crates/hub-core/src/publication.rs\<close>. A fence is the authority of
  one attempt of a workflow step; publications of superseded attempts must fail.

  The contract of the trait \<open>PublicationFenceRepository\<close> is the locale \<open>fence_repository\<close>; its
  consequences over arbitrary sequences of operations are proved there once, and
  \<open>InMemoryPublicationFences\<close> is an interpretation. A poisoned mutex (an earlier panic while
  holding the lock) is not modelled.
\<close>

section \<open>Model\<close>

definition PUBLICATION_FENCE_SCHEMA_VERSION :: u16 where
  "PUBLICATION_FENCE_SCHEMA_VERSION = 1"

definition MAX_PUBLICATION_OUTPUTS :: nat where
  "MAX_PUBLICATION_OUTPUTS = 256"

record publication_fence =
  pf_schema_version :: u16
  pf_workflow :: workflow_id
  pf_step_key :: string
  pf_attempt :: attempt_id
  pf_generation :: u64

record step_publication =
  sp_fence :: publication_fence
  sp_outputs :: "(string, artifact_id) btree"

datatype publication_commit = Published | Idempotent

definition validate_step_key :: "string \<Rightarrow> unit res" where
  "validate_step_key key =
     (if is_slug key then Inr ()
      else Inl (Validation (Fmt ''publication step key {key:?} must match [a-z0-9][a-z0-9_-]{{0,63}}'' [FDebug key])))"

definition validate_output_name :: "string \<Rightarrow> unit res" where
  "validate_output_name name =
     (if output_label_ok name then Inr ()
      else Inl (Validation (Fmt ''publication output name {name:?} must be 1..=128 characters without whitespace/control characters'' [FDebug name])))"

definition validate_fence :: "publication_fence \<Rightarrow> unit res" where
  "validate_fence f =
     (if pf_schema_version f \<noteq> PUBLICATION_FENCE_SCHEMA_VERSION then
        Inl (Validation (Fmt ''unsupported publication fence schema_version {}: expected {}''
          [FNat (unat (pf_schema_version f)), FNat (unat PUBLICATION_FENCE_SCHEMA_VERSION)]))
      else rbind (validate_step_key (pf_step_key f)) (\<lambda>_.
        if pf_generation f = 0 then Inl (Validation (plain ''publication fence generation must be at least 1''))
        else Inr ()))"

definition validate_publication :: "step_publication \<Rightarrow> unit res" where
  "validate_publication p =
     rbind (validate_fence (sp_fence p)) (\<lambda>_.
       if length (sp_outputs p) > MAX_PUBLICATION_OUTPUTS then
         Inl (Validation (Fmt ''authoritative publication has {} outputs; maximum is {}''
           [FNat (length (sp_outputs p)), FNat MAX_PUBLICATION_OUTPUTS]))
       else try_for validate_output_name (bt_keys (sp_outputs p)))"

record fence_entry =
  fe_fence :: publication_fence
  fe_publication :: "step_publication option"

type_synonym fences = "(workflow_id \<times> string, fence_entry) btree"

definition advance_publication_fence ::
    "fences \<Rightarrow> workflow_id \<Rightarrow> string \<Rightarrow> attempt_id \<Rightarrow> (publication_fence \<times> fences) res" where
  "advance_publication_fence entries w key attempt =
     rbind (validate_step_key key) (\<lambda>_.
     rbind (case bt_get entries (w, key) of
              Some e \<Rightarrow> ok_or (Storage (plain ''publication fence generation overflow''))
                          (checked_add (pf_generation (fe_fence e)) 1)
            | None \<Rightarrow> Inr 1) (\<lambda>generation.
       let fence = \<lparr>pf_schema_version = PUBLICATION_FENCE_SCHEMA_VERSION, pf_workflow = w, pf_step_key = key,
                    pf_attempt = attempt, pf_generation = generation\<rparr>
       in Inr (fence, bt_insert (w, key) \<lparr>fe_fence = fence, fe_publication = None\<rparr> entries)))"

definition publish_authoritative_outputs ::
    "fences \<Rightarrow> step_publication \<Rightarrow> (publication_commit \<times> fences) res" where
  "publish_authoritative_outputs entries p =
     rbind (validate_publication p) (\<lambda>_.
       let key = (pf_workflow (sp_fence p), pf_step_key (sp_fence p)) in
       case bt_get entries key of
         None \<Rightarrow> Inl (Validation (plain ''publication has no issued fence''))
       | Some e \<Rightarrow>
           if fe_fence e \<noteq> sp_fence p then
             Inl (Validation (plain ''publication fence is stale or does not match the current attempt''))
           else (case fe_publication e of
               None \<Rightarrow> Inr (Published, bt_insert key (e\<lparr>fe_publication := Some p\<rparr>) entries)
             | Some existing \<Rightarrow>
                 if existing = p then Inr (Idempotent, entries)
                 else Inl (Validation (plain ''current publication fence already committed different outputs''))))"

definition current_publication_fence :: "fences \<Rightarrow> workflow_id \<Rightarrow> string \<Rightarrow> publication_fence option res" where
  "current_publication_fence entries w key =
     rbind (validate_step_key key) (\<lambda>_. Inr (map_option fe_fence (bt_get entries (w, key))))"

definition authoritative_publication :: "fences \<Rightarrow> workflow_id \<Rightarrow> string \<Rightarrow> step_publication option res" where
  "authoritative_publication entries w key =
     rbind (validate_step_key key) (\<lambda>_. Inr (Option.bind (bt_get entries (w, key)) fe_publication))"

section \<open>The contract\<close>

datatype fence_op = Advance workflow_id string attempt_id | Publish step_publication

text \<open>A client's call: a failed operation leaves the repository as it was.\<close>

fun fence_step :: "('s \<Rightarrow> workflow_id \<Rightarrow> string \<Rightarrow> attempt_id \<Rightarrow> (publication_fence \<times> 's) res)
    \<Rightarrow> ('s \<Rightarrow> step_publication \<Rightarrow> (publication_commit \<times> 's) res) \<Rightarrow> 's \<Rightarrow> fence_op \<Rightarrow> 's" where
  "fence_step adv pub s (Advance w k a) = (case adv s w k a of Inl _ \<Rightarrow> s | Inr (_, s') \<Rightarrow> s')"
| "fence_step adv pub s (Publish p) = (case pub s p of Inl _ \<Rightarrow> s | Inr (_, s') \<Rightarrow> s')"

locale fence_repository =
  fixes adv :: "'s \<Rightarrow> workflow_id \<Rightarrow> string \<Rightarrow> attempt_id \<Rightarrow> (publication_fence \<times> 's) res"
    and pub :: "'s \<Rightarrow> step_publication \<Rightarrow> (publication_commit \<times> 's) res"
    and cur :: "'s \<Rightarrow> workflow_id \<Rightarrow> string \<Rightarrow> publication_fence option res"
    and auth :: "'s \<Rightarrow> workflow_id \<Rightarrow> string \<Rightarrow> step_publication option res"
    and inv :: "'s \<Rightarrow> bool"
  assumes adv_inv: "inv s \<Longrightarrow> adv s w k a = Inr (f, s') \<Longrightarrow> inv s'"
    and pub_inv: "inv s \<Longrightarrow> pub s p = Inr (c, s') \<Longrightarrow> inv s'"
    and adv_cur: "inv s \<Longrightarrow> adv s w k a = Inr (f, s') \<Longrightarrow>
          cur s' w k = Inr (Some f) \<and> auth s' w k = Inr None \<and> pf_attempt f = a
          \<and> pf_workflow f = w \<and> pf_step_key f = k"
    and adv_gen: "inv s \<Longrightarrow> adv s w k a = Inr (f, s') \<Longrightarrow> cur s w k = Inr (Some f0) \<Longrightarrow>
          pf_generation f0 < pf_generation f"
    and adv_other: "inv s \<Longrightarrow> adv s w k a = Inr (f, s') \<Longrightarrow> (w', k') \<noteq> (w, k) \<Longrightarrow>
          cur s' w' k' = cur s w' k' \<and> auth s' w' k' = auth s w' k'"
    and pub_cur: "inv s \<Longrightarrow> pub s p = Inr (c, s') \<Longrightarrow> cur s' w k = cur s w k"
    and pub_fenced: "inv s \<Longrightarrow> pub s p = Inr (c, s') \<Longrightarrow>
          cur s (pf_workflow (sp_fence p)) (pf_step_key (sp_fence p)) = Inr (Some (sp_fence p))"
    and pub_auth: "inv s \<Longrightarrow> pub s p = Inr (c, s') \<Longrightarrow>
          auth s' (pf_workflow (sp_fence p)) (pf_step_key (sp_fence p)) = Inr (Some p)
          \<and> auth s (pf_workflow (sp_fence p)) (pf_step_key (sp_fence p)) \<in> {Inr None, Inr (Some p)}"
    and pub_other: "inv s \<Longrightarrow> pub s p = Inr (c, s') \<Longrightarrow>
          (w', k') \<noteq> (pf_workflow (sp_fence p), pf_step_key (sp_fence p)) \<Longrightarrow> auth s' w' k' = auth s w' k'"
begin

abbreviation exec :: "'s \<Rightarrow> fence_op list \<Rightarrow> 's" where
  "exec s ops \<equiv> foldl (fence_step adv pub) s ops"

lemma step_inv: "inv s \<Longrightarrow> inv (fence_step adv pub s op)"
  by (cases op) (auto split: sum.splits intro: adv_inv pub_inv)

lemma exec_inv: "inv s \<Longrightarrow> inv (exec s ops)"
  by (induction ops arbitrary: s) (auto intro: step_inv)

lemma step_generation:
  assumes "inv s" and "cur s w k = Inr (Some f)"
  shows "\<exists>f'. cur (fence_step adv pub s op) w k = Inr (Some f') \<and> pf_generation f \<le> pf_generation f'
    \<and> (pf_generation f' = pf_generation f \<longrightarrow> f' = f)"
proof (cases op)
  case (Advance w' k' a)
  show ?thesis
  proof (cases "adv s w' k' a")
    case (Inr r)
    obtain f' s' where r: "r = (f', s')" by (cases r)
    show ?thesis
    proof (cases "(w', k') = (w, k)")
      case True
      then show ?thesis
        using adv_cur[OF assms(1), of w k a f' s'] adv_gen[OF assms(1), of w k a f' s' f] assms(2) Inr r Advance by auto
    next
      case False
      then show ?thesis
        using adv_other[OF assms(1), of w' k' a f' s' w k] assms(2) Inr r Advance by auto
    qed
  qed (use assms Advance in auto)
next
  case (Publish p)
  then show ?thesis using assms pub_cur[OF assms(1), of p] by (auto split: sum.splits)
qed

lemma exec_generation:
  assumes "inv s" and "cur s w k = Inr (Some f)"
  shows "\<exists>f'. cur (exec s ops) w k = Inr (Some f') \<and> pf_generation f \<le> pf_generation f'
    \<and> (pf_generation f' = pf_generation f \<longrightarrow> f' = f)"
  using assms
proof (induction ops arbitrary: s f)
  case (Cons op ops)
  obtain f1 where f1: "cur (fence_step adv pub s op) w k = Inr (Some f1)" "pf_generation f \<le> pf_generation f1"
    "pf_generation f1 = pf_generation f \<longrightarrow> f1 = f" using step_generation[OF Cons.prems] by blast
  obtain f' where f': "cur (exec (fence_step adv pub s op) ops) w k = Inr (Some f')"
    "pf_generation f1 \<le> pf_generation f'" "pf_generation f' = pf_generation f1 \<longrightarrow> f' = f1"
    using Cons.IH[OF step_inv[OF Cons.prems(1)] f1(1)] by blast
  have "pf_generation f' = pf_generation f \<longrightarrow> f' = f" using f1(2,3) f'(2,3) by fastforce
  then show ?case using f1(2) f' by (intro exI[of _ f']) (auto intro: order_trans)
qed auto

lemma superseded_never_publishes:
  assumes "inv s" and "cur s w k = Inr (Some f)" and "adv s w k a = Inr (f', s')"
    and "sp_fence p = f" and "pf_workflow f = w" and "pf_step_key f = k"
  shows "\<exists>e. pub (exec s' ops) p = Inl e"
proof (rule ccontr)
  assume "\<not> ?thesis"
  then obtain c t where ok: "pub (exec s' ops) p = Inr (c, t)" by (cases "pub (exec s' ops) p") auto
  have i: "inv s'" "inv (exec s' ops)" using adv_inv[OF assms(1,3)] exec_inv by blast+
  have "cur s' w k = Inr (Some f')" using adv_cur[OF assms(1,3)] by simp
  then obtain g where "cur (exec s' ops) w k = Inr (Some g)" "pf_generation f' \<le> pf_generation g"
    using exec_generation[OF i(1)] by blast
  moreover have "cur (exec s' ops) w k = Inr (Some f)" using pub_fenced[OF i(2) ok] assms(4-6) by simp
  ultimately show False using adv_gen[OF assms(1,3,2)] by simp
qed

lemma step_write_once:
  assumes "inv s" and "cur s w k = Inr (Some f)" and "auth s w k = Inr (Some p)"
    and "cur (fence_step adv pub s op) w k = Inr (Some f)"
  shows "auth (fence_step adv pub s op) w k = Inr (Some p)"
proof (cases op)
  case (Advance w' k' a)
  show ?thesis
  proof (cases "adv s w' k' a")
    case (Inr r)
    obtain f' s' where r: "r = (f', s')" by (cases r)
    have "(w', k') \<noteq> (w, k)"
    proof
      assume eq: "(w', k') = (w, k)"
      then have "f' = f" using adv_cur[OF assms(1), of w k a f' s'] assms(4) Advance Inr r by auto
      then show False using adv_gen[OF assms(1), of w k a f' s' f] assms(2) Inr r eq by auto
    qed
    then show ?thesis using adv_other[OF assms(1), of w' k' a f' s' w k] assms(3) Inr r Advance by auto
  qed (use assms Advance in auto)
next
  case (Publish q)
  show ?thesis
  proof (cases "pub s q")
    case (Inr r)
    obtain c s' where r: "r = (c, s')" by (cases r)
    show ?thesis
    proof (cases "(w, k) = (pf_workflow (sp_fence q), pf_step_key (sp_fence q))")
      case True
      then show ?thesis using pub_auth[OF assms(1), of q c s'] assms(3) Inr r Publish by auto
    next
      case False
      then show ?thesis using pub_other[OF assms(1), of q c s' w k] assms(3) Inr r Publish by auto
    qed
  qed (use assms Publish in auto)
qed

lemma exec_write_once:
  assumes "inv s" and "cur s w k = Inr (Some f)" and "auth s w k = Inr (Some p)"
    and "cur (exec s ops) w k = Inr (Some f)"
  shows "auth (exec s ops) w k = Inr (Some p)"
  using assms
proof (induction ops arbitrary: s)
  case (Cons op ops)
  obtain f1 where f1: "cur (fence_step adv pub s op) w k = Inr (Some f1)" "pf_generation f \<le> pf_generation f1"
    "pf_generation f1 = pf_generation f \<longrightarrow> f1 = f" using step_generation[OF Cons.prems(1,2)] by blast
  have "pf_generation f1 \<le> pf_generation f"
    using exec_generation[OF step_inv[OF Cons.prems(1)] f1(1), of ops] Cons.prems(4) by auto
  then have same: "f1 = f" using f1(2,3) by simp
  have step: "cur (fence_step adv pub s op) w k = Inr (Some f)" using f1(1) same by simp
  show ?case
    using Cons.IH[OF step_inv[OF Cons.prems(1)] step step_write_once[OF Cons.prems(1-3) step]] Cons.prems(4) by simp
qed simp

end

section \<open>The in-memory repository\<close>

text \<open>Every entry stands under the workflow and step of its fence, and publications carry the fence.\<close>

definition fences_wf :: "fences \<Rightarrow> bool" where
  "fences_wf entries \<longleftrightarrow> bt_wf entries \<and>
     (\<forall>w k e. bt_get entries (w, k) = Some e \<longrightarrow>
        is_slug k \<and> pf_workflow (fe_fence e) = w \<and> pf_step_key (fe_fence e) = k
        \<and> (\<forall>p. fe_publication e = Some p \<longrightarrow> sp_fence p = fe_fence e))"

lemma validate_step_key_iff [result_simps]: "validate_step_key k = Inr u \<longleftrightarrow> is_slug k"
  by (simp add: validate_step_key_def)

lemma advance_Inr:
  "advance_publication_fence s w k a = Inr (f, s') \<longleftrightarrow> is_slug k \<and>
     (\<exists>g. f = \<lparr>pf_schema_version = 1, pf_workflow = w, pf_step_key = k, pf_attempt = a, pf_generation = g\<rparr>
        \<and> s' = bt_insert (w, k) \<lparr>fe_fence = f, fe_publication = None\<rparr> s
        \<and> (case bt_get s (w, k) of None \<Rightarrow> g = 1 | Some e \<Rightarrow> checked_add (pf_generation (fe_fence e)) 1 = Some g))"
  by (auto simp: advance_publication_fence_def result_simps PUBLICATION_FENCE_SCHEMA_VERSION_def Let_def
      split: option.splits)

lemma publish_Inr:
  "publish_authoritative_outputs s p = Inr (c, s') \<longleftrightarrow> validate_publication p = Inr () \<and>
     (\<exists>e. bt_get s (pf_workflow (sp_fence p), pf_step_key (sp_fence p)) = Some e \<and> fe_fence e = sp_fence p \<and>
       (case fe_publication e of
          None \<Rightarrow> c = Published \<and> s' = bt_insert (pf_workflow (sp_fence p), pf_step_key (sp_fence p))
                                     (e\<lparr>fe_publication := Some p\<rparr>) s
        | Some q \<Rightarrow> q = p \<and> c = Idempotent \<and> s' = s))"
  by (auto simp: publish_authoritative_outputs_def rbind_Inr_iff Let_def split: option.splits if_splits)

lemma current_get:
  "current_publication_fence s w k = Inr x \<longleftrightarrow> is_slug k \<and> map_option fe_fence (bt_get s (w, k)) = x"
  by (auto simp: current_publication_fence_def result_simps)

lemma authoritative_get:
  "authoritative_publication s w k = Inr x \<longleftrightarrow> is_slug k \<and> Option.bind (bt_get s (w, k)) fe_publication = x"
  by (auto simp: authoritative_publication_def result_simps)

lemma fences_wf_get:
  assumes "fences_wf s" and "bt_get s (w, k) = Some e"
  shows "is_slug k" and "pf_workflow (fe_fence e) = w" and "pf_step_key (fe_fence e) = k"
    and "fe_publication e = Some p \<Longrightarrow> sp_fence p = fe_fence e"
  using assms unfolding fences_wf_def by blast+

lemma publish_entry:
  assumes "fences_wf s" and "publish_authoritative_outputs s p = Inr (c, s')"
  obtains e where "bt_get s (pf_workflow (sp_fence p), pf_step_key (sp_fence p)) = Some e" "fe_fence e = sp_fence p"
    "is_slug (pf_step_key (sp_fence p))" "fe_publication e \<in> {None, Some p}"
    "s' = (if fe_publication e = None then bt_insert (pf_workflow (sp_fence p), pf_step_key (sp_fence p))
              (e\<lparr>fe_publication := Some p\<rparr>) s else s)"
proof -
  obtain e where e: "bt_get s (pf_workflow (sp_fence p), pf_step_key (sp_fence p)) = Some e" "fe_fence e = sp_fence p"
    "fe_publication e \<in> {None, Some p}"
    "s' = (if fe_publication e = None then bt_insert (pf_workflow (sp_fence p), pf_step_key (sp_fence p))
              (e\<lparr>fe_publication := Some p\<rparr>) s else s)"
    using assms(2) unfolding publish_Inr by (auto split: option.splits)
  show ?thesis by (rule that[OF e(1,2) fences_wf_get(1)[OF assms(1) e(1)] e(3,4)])
qed

lemma fences_wf_insert:
  assumes "fences_wf s" and "is_slug k" and "pf_workflow (fe_fence e) = w" and "pf_step_key (fe_fence e) = k"
    and "\<forall>p. fe_publication e = Some p \<longrightarrow> sp_fence p = fe_fence e"
  shows "fences_wf (bt_insert (w, k) e s)"
  using assms by (auto simp: fences_wf_def)

interpretation memory_fences: fence_repository advance_publication_fence publish_authoritative_outputs
  current_publication_fence authoritative_publication fences_wf
proof unfold_locales
  fix s w k a f s'
  assume "fences_wf s" and "advance_publication_fence s w k a = Inr (f, s')"
  then show "fences_wf s'" by (auto simp: advance_Inr intro!: fences_wf_insert)
next
  fix s p c s'
  assume a: "fences_wf s" "publish_authoritative_outputs s p = Inr (c, s')"
  obtain e where e: "bt_get s (pf_workflow (sp_fence p), pf_step_key (sp_fence p)) = Some e" "fe_fence e = sp_fence p"
    "is_slug (pf_step_key (sp_fence p))" "fe_publication e \<in> {None, Some p}"
    "s' = (if fe_publication e = None then bt_insert (pf_workflow (sp_fence p), pf_step_key (sp_fence p))
              (e\<lparr>fe_publication := Some p\<rparr>) s else s)" using publish_entry[OF a] .
  then show "fences_wf s'" using a(1) by (simp add: fences_wf_insert)
next
  fix s w k a f s'
  assume "fences_wf s" and "advance_publication_fence s w k a = Inr (f, s')"
  then show "current_publication_fence s' w k = Inr (Some f) \<and> authoritative_publication s' w k = Inr None
      \<and> pf_attempt f = a \<and> pf_workflow f = w \<and> pf_step_key f = k"
    by (auto simp: advance_Inr current_get authoritative_get)
next
  fix s w k a f s' f0
  assume "fences_wf s" and "advance_publication_fence s w k a = Inr (f, s')"
    and "current_publication_fence s w k = Inr (Some f0)"
  then show "pf_generation f0 < pf_generation f"
    by (auto simp: advance_Inr current_get dest: checked_add_one_gt)
next
  fix s w k a f s' w' k'
  assume "fences_wf s" and "advance_publication_fence s w k a = Inr (f, s')" and "(w', k') \<noteq> (w, k)"
  then show "current_publication_fence s' w' k' = current_publication_fence s w' k'
      \<and> authoritative_publication s' w' k' = authoritative_publication s w' k'"
    by (auto simp: advance_Inr current_publication_fence_def authoritative_publication_def)
next
  fix s p c s' w k
  assume a: "fences_wf s" "publish_authoritative_outputs s p = Inr (c, s')"
  show "current_publication_fence s' w k = current_publication_fence s w k"
    by (rule publish_entry[OF a]) (auto simp: current_publication_fence_def)
next
  fix s p c s'
  assume a: "fences_wf s" "publish_authoritative_outputs s p = Inr (c, s')"
  show "current_publication_fence s (pf_workflow (sp_fence p)) (pf_step_key (sp_fence p)) = Inr (Some (sp_fence p))"
    by (rule publish_entry[OF a]) (simp add: current_get)
next
  fix s p c s'
  assume a: "fences_wf s" "publish_authoritative_outputs s p = Inr (c, s')"
  show "authoritative_publication s' (pf_workflow (sp_fence p)) (pf_step_key (sp_fence p)) = Inr (Some p)
      \<and> authoritative_publication s (pf_workflow (sp_fence p)) (pf_step_key (sp_fence p)) \<in> {Inr None, Inr (Some p)}"
    by (rule publish_entry[OF a]) (auto simp: authoritative_get)
next
  fix s p c s' w' k'
  assume a: "fences_wf s" "publish_authoritative_outputs s p = Inr (c, s')"
    and other: "(w', k') \<noteq> (pf_workflow (sp_fence p), pf_step_key (sp_fence p))"
  show "authoritative_publication s' w' k' = authoritative_publication s w' k'"
    by (rule publish_entry[OF a]) (use other in \<open>auto simp: authoritative_publication_def\<close>)
qed

lemma fences_wf_empty: "fences_wf []"
  by (simp add: fences_wf_def)

abbreviation fence_exec :: "fences \<Rightarrow> fence_op list \<Rightarrow> fences" where
  "fence_exec \<equiv> foldl (fence_step advance_publication_fence publish_authoritative_outputs)"

section \<open>Properties\<close>

text \<open>
  C11. A superseded attempt never becomes authoritative. Once authority over a step has moved
  from the fence of one attempt to a later attempt, every publication under the old fence
  fails, whatever operations any client performs in between, on any workflow and step.
\<close>
theorem superseded_attempt_never_publishes:
  assumes "current_publication_fence (fence_exec [] before) w k = Inr (Some old)"
    and "advance_publication_fence (fence_exec [] before) w k attempt = Inr (new, s)"
    and "sp_fence p = old"
  shows "\<exists>e. publish_authoritative_outputs (fence_exec s later) p = Inl e"
proof -
  have wf: "fences_wf (fence_exec [] before)" by (rule memory_fences.exec_inv[OF fences_wf_empty])
  then have "pf_workflow old = w" "pf_step_key old = k"
    using assms(1) fences_wf_get[OF wf] by (auto simp: current_get)
  then show ?thesis by (rule memory_fences.superseded_never_publishes[OF wf assms])
qed

theorem superseded_attempt_never_publishes_witness:
  "\<exists>e. publish_authoritative_outputs
       (fence_exec [] [Advance (UuidId 1) ''s'' (UuidId 2), Advance (UuidId 1) ''s'' (UuidId 3),
          Advance (UuidId 9) ''t'' (UuidId 4)])
       \<lparr>sp_fence = \<lparr>pf_schema_version = 1, pf_workflow = UuidId 1, pf_step_key = ''s'',
          pf_attempt = UuidId 2, pf_generation = 1\<rparr>, sp_outputs = []\<rparr> = Inl e"
proof -
  let ?old = "\<lparr>pf_schema_version = 1, pf_workflow = UuidId 1, pf_step_key = ''s'',
          pf_attempt = UuidId 2, pf_generation = 1\<rparr> :: publication_fence"
  let ?new = "\<lparr>pf_schema_version = 1, pf_workflow = UuidId 1, pf_step_key = ''s'',
          pf_attempt = UuidId 3, pf_generation = 2\<rparr> :: publication_fence"
  let ?before = "[Advance (UuidId 1) ''s'' (UuidId 2)]"
  have c: "current_publication_fence (fence_exec [] ?before) (UuidId 1) ''s'' = Inr (Some ?old)" by code_simp
  have a: "advance_publication_fence (fence_exec [] ?before) (UuidId 1) ''s'' (UuidId 3)
      = Inr (?new, [((UuidId 1, ''s''), \<lparr>fe_fence = ?new, fe_publication = None\<rparr>)])" by code_simp
  have "fence_exec [] [Advance (UuidId 1) ''s'' (UuidId 2), Advance (UuidId 1) ''s'' (UuidId 3),
          Advance (UuidId 9) ''t'' (UuidId 4)]
      = fence_exec [((UuidId 1, ''s''), \<lparr>fe_fence = ?new, fe_publication = None\<rparr>)] [Advance (UuidId 9) ''t'' (UuidId 4)]"
    by code_simp
  then show ?thesis
    using superseded_attempt_never_publishes[OF c a, of "\<lparr>sp_fence = ?old, sp_outputs = []\<rparr>" "[Advance (UuidId 9) ''t'' (UuidId 4)]"]
    by (simp only: step_publication.simps)
qed

text \<open>
  C34. An authoritative publication is write-once: while a fence stays current, the outputs
  published under it are never replaced, whatever operations are performed.
\<close>
theorem publication_write_once:
  assumes "authoritative_publication (fence_exec [] before) w k = Inr (Some p)"
    and "current_publication_fence (fence_exec [] (before @ later)) w k =
         current_publication_fence (fence_exec [] before) w k"
  shows "authoritative_publication (fence_exec [] (before @ later)) w k = Inr (Some p)"
proof -
  have wf: "fences_wf (fence_exec [] before)" by (rule memory_fences.exec_inv[OF fences_wf_empty])
  obtain f where f: "current_publication_fence (fence_exec [] before) w k = Inr (Some f)"
    using assms(1) by (cases "bt_get (fence_exec [] before) (w, k)") (auto simp: authoritative_get current_get)
  show ?thesis
    using memory_fences.exec_write_once[OF wf f assms(1), of later] assms(2) f by simp
qed

theorem publication_write_once_witness:
  "authoritative_publication (fence_exec [] ([Advance (UuidId 1) ''s'' (UuidId 2),
      Publish \<lparr>sp_fence = \<lparr>pf_schema_version = 1, pf_workflow = UuidId 1, pf_step_key = ''s'',
          pf_attempt = UuidId 2, pf_generation = 1\<rparr>, sp_outputs = [(''o'', UuidId 8)]\<rparr>] @
      [Publish \<lparr>sp_fence = \<lparr>pf_schema_version = 1, pf_workflow = UuidId 1, pf_step_key = ''s'',
          pf_attempt = UuidId 2, pf_generation = 1\<rparr>, sp_outputs = []\<rparr>])) (UuidId 1) ''s''
     = Inr (Some \<lparr>sp_fence = \<lparr>pf_schema_version = 1, pf_workflow = UuidId 1, pf_step_key = ''s'',
          pf_attempt = UuidId 2, pf_generation = 1\<rparr>, sp_outputs = [(''o'', UuidId 8)]\<rparr>)"
  by (rule publication_write_once, code_simp, code_simp)

text \<open>
  A fence is issued exactly for a valid step key whose generation does not overflow, and a
  publication is accepted exactly when it is well formed, its fence is the current one and
  nothing different was published under it.
\<close>
lemma fence_operations_accept:
  "((\<exists>f s'. advance_publication_fence s w k a = Inr (f, s')) \<longleftrightarrow>
      is_slug k \<and> (case bt_get s (w, k) of None \<Rightarrow> True | Some e \<Rightarrow> unat (pf_generation (fe_fence e)) + 1 < 2 ^ 64))
   \<and> ((\<exists>c s'. publish_authoritative_outputs s p = Inr (c, s')) \<longleftrightarrow>
      validate_publication p = Inr () \<and>
      (\<exists>e. bt_get s (pf_workflow (sp_fence p), pf_step_key (sp_fence p)) = Some e \<and> fe_fence e = sp_fence p
         \<and> fe_publication e \<in> {None, Some p}))"
proof
  have "(\<exists>c. checked_add x 1 = Some c) \<longleftrightarrow> unat x + 1 < 2 ^ 64" for x :: u64
    by (auto simp: checked_add_def)
  then show "(\<exists>f s'. advance_publication_fence s w k a = Inr (f, s')) \<longleftrightarrow>
      is_slug k \<and> (case bt_get s (w, k) of None \<Rightarrow> True | Some e \<Rightarrow> unat (pf_generation (fe_fence e)) + 1 < 2 ^ 64)"
    unfolding advance_Inr by (auto split: option.splits)
  show "(\<exists>c s'. publish_authoritative_outputs s p = Inr (c, s')) \<longleftrightarrow>
      validate_publication p = Inr () \<and>
      (\<exists>e. bt_get s (pf_workflow (sp_fence p), pf_step_key (sp_fence p)) = Some e \<and> fe_fence e = sp_fence p
         \<and> fe_publication e \<in> {None, Some p})"
    unfolding publish_authoritative_outputs_def
    by (cases "validate_publication p") (auto simp: Let_def split: option.splits)
qed

end
