(* ===== verification/Hub_Memory.thy ===== *)
theory Hub_Memory
  imports Hub_Workflow "HOL-Library.Product_Lexorder"
begin

text \<open>
  The metadata repositories: the traits of \<open>src/crates/hub-core/src/store.rs\<close> and their
  in-memory implementations in \<open>memory.rs\<close>. Each trait's contract is a locale with its
  consequences for any sequence of calls; each implementation is an interpretation. A
  poisoned mutex is not modelled: these operations fail only where the trait says so.
\<close>

section \<open>Model\<close>

subsection \<open>Components\<close>

type_synonym components = "(component_id \<times> version, component_manifest) btree"
type_synonym manifest_ser = "component_manifest \<Rightarrow> message + bytes"

definition components_put :: "(bytes \<Rightarrow> bytes) \<Rightarrow> manifest_ser \<Rightarrow> component_manifest \<Rightarrow> components
    \<Rightarrow> (bool \<times> components) res" where
  "components_put sha ser m s =
     (let key = (manifest_id m, manifest_version m) in
      case bt_get s key of
        Some existing \<Rightarrow>
          rbind (manifest_digest sha ser existing) (\<lambda>existing_digest.
          rbind (manifest_digest sha ser m) (\<lambda>new_digest.
            if existing_digest = new_digest then Inr (False, s)
            else Inl (ComponentConflict (manifest_id m) (to_hex existing_digest) (to_hex new_digest))))
      | None \<Rightarrow> Inr (True, bt_insert key m s))"

text \<open>\<open>Iterator::max_by\<close>: of two equal maxima the later one.\<close>

fun max_by :: "('a \<Rightarrow> 'k::linorder) \<Rightarrow> 'a list \<Rightarrow> 'a option" where
  "max_by key [] = None"
| "max_by key (x # xs) = Some (fold (\<lambda>b a. if key b < key a then a else b) xs x)"

definition components_latest :: "components \<Rightarrow> component_id \<Rightarrow> component_manifest option" where
  "components_latest s i = map_option snd (max_by (\<lambda>((_, v), _). v) (filter (\<lambda>((c, _), _). c = i) s))"

definition components_get :: "components \<Rightarrow> component_id \<Rightarrow> version \<Rightarrow> component_manifest option" where
  "components_get s i v = bt_get s (i, v)"

definition components_list :: "components \<Rightarrow> component_manifest list" where
  "components_list s = bt_values s"

subsection \<open>Runs and artifact metadata\<close>

type_synonym runs = "(run_id, run_record) btree"

definition runs_put :: "run_record \<Rightarrow> runs \<Rightarrow> runs" where
  "runs_put r s = bt_insert (run_id r) r s"

definition runs_get :: "runs \<Rightarrow> run_id \<Rightarrow> run_record option" where
  "runs_get s i = bt_get s i"

definition runs_list :: "runs \<Rightarrow> run_record list" where
  "runs_list s = sort_key (\<lambda>r. (run_created_at r, run_id r)) (bt_values s)"

type_synonym artifact_metas = "(artifact_id, artifact_meta) btree"

definition artifacts_put :: "artifact_meta \<Rightarrow> artifact_metas \<Rightarrow> artifact_metas" where
  "artifacts_put m s = bt_insert (am_id m) m s"

definition artifacts_get :: "artifact_metas \<Rightarrow> artifact_id \<Rightarrow> artifact_meta option" where
  "artifacts_get s i = bt_get s i"

definition artifacts_list :: "artifact_metas \<Rightarrow> artifact_meta list" where
  "artifacts_list s = sort_key (\<lambda>m. (am_created_at m, am_id m)) (bt_values s)"

subsection \<open>Workflows\<close>

type_synonym workflows = "(workflow_id, workflow_record) btree"

definition workflows_put :: "workflow_record \<Rightarrow> workflows \<Rightarrow> workflows" where
  "workflows_put r s =
     (let stored = (case bt_get s (wr_id r) of
          Some existing \<Rightarrow> if wr_cancel_requested_at r = None
             then r\<lparr>wr_cancel_requested_at := wr_cancel_requested_at existing\<rparr> else r
        | None \<Rightarrow> r)
      in bt_insert (wr_id r) stored s)"

definition workflows_request_cancel :: "workflow_id \<Rightarrow> u64 \<Rightarrow> workflows \<Rightarrow> workflow_record option \<times> workflows" where
  "workflows_request_cancel i at s =
     (case bt_get s i of
        None \<Rightarrow> (None, s)
      | Some r \<Rightarrow>
          let r' = (if \<not> wf_is_terminal (wr_state r)
                    then r\<lparr>wr_cancel_requested_at := get_or_insert at (wr_cancel_requested_at r)\<rparr> else r)
          in (Some r', bt_insert i r' s))"

definition workflows_get :: "workflows \<Rightarrow> workflow_id \<Rightarrow> workflow_record option" where
  "workflows_get s i = bt_get s i"

definition workflows_list :: "workflows \<Rightarrow> workflow_record list" where
  "workflows_list s = sort_key (\<lambda>r. (wr_created_at r, wr_id r)) (bt_values s)"

section \<open>Contracts\<close>

subsection \<open>Keyed records\<close>

text \<open>\<open>RunRepository\<close> and \<open>ArtifactMetadataRepository\<close>: last write wins, listings are ordered.\<close>

locale record_repository =
  fixes rkey :: "'r \<Rightarrow> 'k::linorder" and rtime :: "'r \<Rightarrow> u64"
    and put :: "'r \<Rightarrow> 's \<Rightarrow> 's" and get :: "'s \<Rightarrow> 'k \<Rightarrow> 'r option" and lst :: "'s \<Rightarrow> 'r list"
    and inv :: "'s \<Rightarrow> bool"
  assumes put_inv: "inv s \<Longrightarrow> inv (put r s)"
    and get_put: "inv s \<Longrightarrow> get (put r s) k = (if k = rkey r then Some r else get s k)"
    and get_key: "inv s \<Longrightarrow> get s k = Some r \<Longrightarrow> rkey r = k"
    and lst_set: "inv s \<Longrightarrow> set (lst s) = {r. \<exists>k. get s k = Some r}"
    and lst_distinct: "inv s \<Longrightarrow> distinct (lst s)"
    and lst_sorted: "inv s \<Longrightarrow> sorted (map (\<lambda>r. (rtime r, rkey r)) (lst s))"
begin

lemma lst_determined:
  assumes "inv s" and "inv t" and "get s = get t"
  shows "lst s = lst t"
proof -
  let ?k = "\<lambda>r. (rtime r, rkey r)"
  have eq: "set (lst s) = set (lst t)" using assms lst_set by simp
  have inj: "inj_on ?k (set (lst s))"
    using assms(1) lst_set get_key by (auto simp: inj_on_def)
  have dist: "distinct (map ?k (lst s))" "distinct (map ?k (lst t))"
    using inj eq lst_distinct assms by (auto simp: distinct_map)
  have "set (map ?k (lst s)) = set (map ?k (lst t))" using eq by simp
  then have "map ?k (lst s) = map ?k (lst t)"
    using sorted_distinct_set_unique[OF lst_sorted[OF assms(1)] dist(1) lst_sorted[OF assms(2)] dist(2)] by blast
  then show ?thesis using inj eq by (intro map_inj_on[of ?k]) (simp_all add: Un_absorb)
qed

lemma puts_inv: "inv s \<Longrightarrow> inv (fold put rs s)"
  by (induction rs arbitrary: s) (auto intro: put_inv)

lemma get_puts:
  assumes "inv s" and "distinct (map rkey rs)"
  shows "get (fold put rs s) k = Some r \<longleftrightarrow>
     (r \<in> set rs \<and> rkey r = k) \<or> (k \<notin> rkey ` set rs \<and> get s k = Some r)"
  using assms
proof (induction rs arbitrary: s)
  case (Cons a rs)
  then have "get (fold put rs (put a s)) k = Some r \<longleftrightarrow>
     (r \<in> set rs \<and> rkey r = k) \<or> (k \<notin> rkey ` set rs \<and> get (put a s) k = Some r)"
    by (simp add: put_inv)
  then show ?case using Cons.prems by (auto simp: get_put split: if_splits)
qed simp

lemma puts_order:
  assumes "inv s" and "distinct (map rkey rs)" and "distinct (map rkey rs')" and "set rs = set rs'"
  shows "lst (fold put rs s) = lst (fold put rs' s)"
proof (rule lst_determined)
  show "get (fold put rs s) = get (fold put rs' s)"
  proof
    fix k
    have "get (fold put rs s) k = Some r \<longleftrightarrow> get (fold put rs' s) k = Some r" for r
      using get_puts[OF assms(1,2)] get_puts[OF assms(1,3)] assms(4) by simp
    then show "get (fold put rs s) k = get (fold put rs' s) k" by (metis option.exhaust)
  qed
qed (use assms(1) puts_inv in auto)

end

subsection \<open>Component registry\<close>

text \<open>\<open>ComponentRepository\<close>: what is registered under \<open>(id, version)\<close> never changes.\<close>

locale component_repository =
  fixes put :: "component_manifest \<Rightarrow> 's \<Rightarrow> (bool \<times> 's) res"
    and get :: "'s \<Rightarrow> component_id \<Rightarrow> version \<Rightarrow> component_manifest option"
    and latest :: "'s \<Rightarrow> component_id \<Rightarrow> component_manifest option"
    and lst :: "'s \<Rightarrow> component_manifest list"
    and inv :: "'s \<Rightarrow> bool"
  assumes put_inv: "inv s \<Longrightarrow> put m s = Inr (b, s') \<Longrightarrow> inv s'"
    and put_new: "inv s \<Longrightarrow> put m s = Inr (True, s') \<Longrightarrow>
          get s (manifest_id m) (manifest_version m) = None
          \<and> (\<forall>i v. get s' i v = (if (i, v) = (manifest_id m, manifest_version m) then Some m else get s i v))"
    and put_replay: "inv s \<Longrightarrow> put m s = Inr (False, s') \<Longrightarrow>
          s' = s \<and> get s (manifest_id m) (manifest_version m) \<noteq> None"
    and get_key: "inv s \<Longrightarrow> get s i v = Some m \<Longrightarrow> manifest_id m = i \<and> manifest_version m = v"
    and latest_Some: "inv s \<Longrightarrow> latest s i = Some m \<longleftrightarrow>
          (\<exists>v. get s i v = Some m \<and> (\<forall>v' m'. get s i v' = Some m' \<longrightarrow> v' \<le> v))"
    and lst_set: "inv s \<Longrightarrow> set (lst s) = {m. \<exists>i v. get s i v = Some m}"
    and lst_sorted: "inv s \<Longrightarrow> sorted_wrt (<) (map (\<lambda>m. (manifest_id m, manifest_version m)) (lst s))"
begin

abbreviation register :: "component_manifest \<Rightarrow> 's \<Rightarrow> 's" where
  "register m s \<equiv> (case put m s of Inl _ \<Rightarrow> s | Inr (_, s') \<Rightarrow> s')"

lemma register_inv: "inv s \<Longrightarrow> inv (register m s)"
  by (auto split: sum.splits intro: put_inv)

lemma register_keeps:
  assumes "inv s" and "get s i v = Some m"
  shows "get (register m' s) i v = Some m"
proof (cases "put m' s")
  case (Inr r)
  obtain b s' where r: "r = (b, s')" by (cases r)
  show ?thesis
  proof (cases b)
    case True
    with Inr r have new: "put m' s = Inr (True, s')" by simp
    show ?thesis using put_new[OF assms(1) new] assms(2) Inr r by auto
  next
    case False
    then show ?thesis using put_replay[OF assms(1)] assms(2) Inr r by auto
  qed
qed (use assms in auto)

lemma registers_keep:
  "inv s \<Longrightarrow> get s i v = Some m \<Longrightarrow> get (fold register ms s) i v = Some m"
  by (induction ms arbitrary: s) (auto simp: register_inv register_keeps)

lemma latest_None: "inv s \<Longrightarrow> (\<And>v. get s i v = None) \<Longrightarrow> latest s i = None"
  using latest_Some by (cases "latest s i") auto

end

subsection \<open>Workflow records\<close>

text \<open>\<open>WorkflowRepository\<close>: writers cannot clear a recorded cancellation intent.\<close>

datatype workflow_op = PutWorkflow workflow_record | CancelWorkflow workflow_id u64

locale workflow_repository =
  fixes put :: "workflow_record \<Rightarrow> 's \<Rightarrow> 's"
    and cancel :: "workflow_id \<Rightarrow> u64 \<Rightarrow> 's \<Rightarrow> workflow_record option \<times> 's"
    and get :: "'s \<Rightarrow> workflow_id \<Rightarrow> workflow_record option"
    and inv :: "'s \<Rightarrow> bool"
  assumes put_inv: "inv s \<Longrightarrow> inv (put r s)"
    and cancel_inv: "inv s \<Longrightarrow> inv (snd (cancel i at s))"
    and get_put_other: "inv s \<Longrightarrow> j \<noteq> wr_id r \<Longrightarrow> get (put r s) j = get s j"
    and get_put: "inv s \<Longrightarrow> get (put r s) (wr_id r) = Some (r\<lparr>wr_cancel_requested_at :=
          (if wr_cancel_requested_at r = None then Option.bind (get s (wr_id r)) wr_cancel_requested_at
           else wr_cancel_requested_at r)\<rparr>)"
    and get_cancel_other: "inv s \<Longrightarrow> j \<noteq> i \<Longrightarrow> get (snd (cancel i at s)) j = get s j"
    and get_cancel: "inv s \<Longrightarrow> get (snd (cancel i at s)) i = map_option (\<lambda>r.
          if wf_is_terminal (wr_state r) then r
          else r\<lparr>wr_cancel_requested_at := get_or_insert at (wr_cancel_requested_at r)\<rparr>) (get s i)"
    and cancel_result: "inv s \<Longrightarrow> fst (cancel i at s) = get (snd (cancel i at s)) i"
begin

definition perform :: "'s \<Rightarrow> workflow_op \<Rightarrow> 's" where
  "perform s op = (case op of PutWorkflow r \<Rightarrow> put r s | CancelWorkflow i at \<Rightarrow> snd (cancel i at s))"

lemma perform_inv: "inv s \<Longrightarrow> inv (perform s op)"
  by (auto simp: perform_def put_inv cancel_inv split: workflow_op.splits)

lemma perform_intent:
  assumes "inv s" and "get s i = Some r" and "wr_cancel_requested_at r \<noteq> None"
  shows "\<exists>r'. get (perform s op) i = Some r' \<and> wr_cancel_requested_at r' \<noteq> None"
proof (cases op)
  case (PutWorkflow q)
  then show ?thesis
    using assms get_put[OF assms(1), of q] get_put_other[OF assms(1), of i q]
    by (cases "i = wr_id q") (auto simp: perform_def)
next
  case (CancelWorkflow j at)
  then show ?thesis
    using assms get_cancel[OF assms(1), of j at] get_cancel_other[OF assms(1), of i j at]
    by (cases "i = j") (auto simp: perform_def)
qed

lemma intent_monotone:
  assumes "inv s" and "get s i = Some r" and "wr_cancel_requested_at r \<noteq> None"
  shows "\<exists>r'. get (foldl perform s ops) i = Some r' \<and> wr_cancel_requested_at r' \<noteq> None"
  using assms
proof (induction ops arbitrary: s r)
  case (Cons op ops)
  from perform_intent[OF Cons.prems] obtain r1 where
    "get (perform s op) i = Some r1" "wr_cancel_requested_at r1 \<noteq> None" by blast
  from Cons.IH[OF perform_inv[OF Cons.prems(1)] this] show ?case by simp
qed simp

end

section \<open>The in-memory implementations\<close>

definition keyed :: "('r \<Rightarrow> 'k::linorder) \<Rightarrow> ('k, 'r) btree \<Rightarrow> bool" where
  "keyed key s \<longleftrightarrow> bt_wf s \<and> (\<forall>k r. bt_get s k = Some r \<longrightarrow> key r = k)"

lemma keyed_wf: "keyed key s \<Longrightarrow> bt_wf s"
  by (simp add: keyed_def)

lemma keyed_get: "keyed key s \<Longrightarrow> bt_get s k = Some r \<Longrightarrow> key r = k"
  by (simp add: keyed_def)

lemma keyed_insert: "keyed key s \<Longrightarrow> key r = k \<Longrightarrow> keyed key (bt_insert k r s)"
  by (simp add: keyed_def)

lemma values_get: "bt_wf s \<Longrightarrow> set (bt_values s) = {r. \<exists>k. bt_get s k = Some r}"
  by (force simp: bt_mem_iff[symmetric])

lemma values_keys: "keyed key s \<Longrightarrow> map key (bt_values s) = bt_keys s"
  by (auto simp: keyed_def bt_mem_iff[symmetric])

lemma values_distinct: "keyed key s \<Longrightarrow> distinct (bt_values s)"
  using values_keys[of key s] bt_wf_distinct[OF keyed_wf, of key s] by (metis distinct_map)

lemma keyed_Nil: "keyed key []"
  by (simp add: keyed_def)

lemma keyed_record_repository:
  "record_repository key tm (\<lambda>r s. bt_insert (key r) r s) map_of
     (\<lambda>s. sort_key (\<lambda>r. (tm r, key r)) (bt_values s)) (keyed key)"
proof
  fix s r assume "keyed key s"
  then show "keyed key (bt_insert (key r) r s)" by (rule keyed_insert) simp
next
  fix s k r assume "keyed key s" and "bt_get s k = Some r"
  then show "key r = k" by (rule keyed_get)
next
  fix s assume k: "keyed key s"
  show "set (sort_key (\<lambda>r. (tm r, key r)) (bt_values s)) = {r. \<exists>k. bt_get s k = Some r}"
    unfolding set_sort by (rule values_get[OF keyed_wf[OF k]])
  show "distinct (sort_key (\<lambda>r. (tm r, key r)) (bt_values s))"
    unfolding distinct_sort by (rule values_distinct[OF k])
  show "sorted (map (\<lambda>r. (tm r, key r)) (sort_key (\<lambda>r. (tm r, key r)) (bt_values s)))"
    by (rule sorted_sort_key)
qed simp

interpretation memory_runs: record_repository run_id run_created_at runs_put runs_get runs_list "keyed run_id"
  unfolding runs_put_def[abs_def] runs_get_def[abs_def] runs_list_def[abs_def] by (rule keyed_record_repository)

interpretation memory_artifacts: record_repository am_id am_created_at artifacts_put artifacts_get artifacts_list
  "keyed am_id"
  unfolding artifacts_put_def[abs_def] artifacts_get_def[abs_def] artifacts_list_def[abs_def]
  by (rule keyed_record_repository)

interpretation memory_workflows: workflow_repository workflows_put workflows_request_cancel workflows_get
  "keyed wr_id"
proof unfold_locales
  fix s :: workflows and r :: workflow_record assume "keyed wr_id s"
  then show "keyed wr_id (workflows_put r s)"
    by (simp add: workflows_put_def Let_def keyed_insert split: option.splits)
next
  fix s :: workflows and i at assume "keyed wr_id s"
  then show "keyed wr_id (snd (workflows_request_cancel i at s))"
    by (auto simp: workflows_request_cancel_def Let_def split: option.splits intro!: keyed_insert dest: keyed_get)
qed (auto simp: workflows_put_def workflows_get_def workflows_request_cancel_def Let_def split: option.splits)

lemma max_by_fold:
  "fold (\<lambda>b a. if key b < key a then a else b) xs x \<in> set (x # xs)
   \<and> (\<forall>y\<in>set (x # xs). (key y :: 'k::linorder) \<le> key (fold (\<lambda>b a. if key b < key a then a else b) xs x))"
proof (induction xs arbitrary: x)
  case (Cons b xs)
  from Cons.IH[of "if key b < key x then x else b"] show ?case by auto
qed simp

lemma max_by_Some:
  assumes "inj_on key (set xs)"
  shows "max_by key xs = Some x \<longleftrightarrow> x \<in> set xs \<and> (\<forall>y\<in>set xs. key y \<le> key x)"
proof (cases xs)
  case (Cons a as)
  let ?m = "fold (\<lambda>b a. if key b < key a then a else b) as a"
  have m: "?m \<in> set xs" "\<forall>y\<in>set xs. key y \<le> key ?m" using max_by_fold[of key as a] Cons by auto
  have "max_by key xs = Some ?m" using Cons by simp
  moreover have "x = ?m" if "x \<in> set xs" "\<forall>y\<in>set xs. key y \<le> key x"
    using m that assms by (meson inj_onD antisym)
  ultimately show ?thesis using m by auto
qed simp

abbreviation manifest_key :: "component_manifest \<Rightarrow> component_id \<times> version" where
  "manifest_key m \<equiv> (manifest_id m, manifest_version m)"

lemma latest_iff:
  assumes "keyed manifest_key s"
  shows "components_latest s i = Some m \<longleftrightarrow>
    (\<exists>v. components_get s i v = Some m \<and> (\<forall>v' m'. components_get s i v' = Some m' \<longrightarrow> v' \<le> v))"
proof -
  let ?xs = "filter (\<lambda>((c, _), _). c = i) s" and ?ver = "\<lambda>((_, v), _). v :: version"
  have mem: "((c, v), m) \<in> set ?xs \<longleftrightarrow> c = i \<and> components_get s i v = Some m" for c v m
    using bt_mem_iff[OF keyed_wf[OF assms]] by (auto simp: components_get_def)
  have inj: "inj_on ?ver (set ?xs)"
  proof (rule inj_onI)
    fix x y assume xy: "x \<in> set ?xs" "y \<in> set ?xs" "?ver x = ?ver y"
    obtain c v m where x: "x = ((c, v), m)" by (metis prod.exhaust)
    obtain c' v' m' where y: "y = ((c', v'), m')" by (metis prod.exhaust)
    have "c = i \<and> components_get s i v = Some m" "c' = i \<and> components_get s i v' = Some m'"
      using xy(1,2) unfolding x y mem by blast+
    then show "x = y" using xy(3) x y by simp
  qed
  have "components_latest s i = Some m \<longleftrightarrow> (\<exists>x. max_by ?ver ?xs = Some x \<and> snd x = m)"
    by (auto simp: components_latest_def)
  also have "\<dots> \<longleftrightarrow> (\<exists>v. ((i, v), m) \<in> set ?xs \<and> (\<forall>v' m'. ((i, v'), m') \<in> set ?xs \<longrightarrow> v' \<le> v))"
    unfolding max_by_Some[OF inj] by (auto split: prod.splits)
  finally show ?thesis unfolding mem by simp
qed

interpretation memory_components: component_repository "components_put sha ser" components_get components_latest
  components_list "keyed manifest_key" for sha :: "bytes \<Rightarrow> bytes" and ser :: manifest_ser
proof
  fix s m b s' assume k: "keyed manifest_key s" and "components_put sha ser m s = Inr (b, s')"
  then show "keyed manifest_key s'"
    by (auto simp: components_put_def Let_def rbind_Inr_iff keyed_insert split: option.splits if_splits)
next
  fix s m s' assume "keyed manifest_key s" and "components_put sha ser m s = Inr (True, s')"
  then show "components_get s (manifest_id m) (manifest_version m) = None
    \<and> (\<forall>i v. components_get s' i v = (if (i, v) = (manifest_id m, manifest_version m) then Some m else components_get s i v))"
    by (auto simp: components_put_def components_get_def Let_def rbind_Inr_iff split: option.splits if_splits)
next
  fix s m s' assume "keyed manifest_key s" and "components_put sha ser m s = Inr (False, s')"
  then show "s' = s \<and> components_get s (manifest_id m) (manifest_version m) \<noteq> None"
    by (auto simp: components_put_def components_get_def Let_def rbind_Inr_iff split: option.splits if_splits)
next
  fix s i v m assume "keyed manifest_key s" and "components_get s i v = Some m"
  then show "manifest_id m = i \<and> manifest_version m = v" by (auto simp: components_get_def dest: keyed_get)
next
  fix s i m assume "keyed manifest_key s"
  then show "components_latest s i = Some m \<longleftrightarrow>
    (\<exists>v. components_get s i v = Some m \<and> (\<forall>v' m'. components_get s i v' = Some m' \<longrightarrow> v' \<le> v))" by (rule latest_iff)
next
  fix s assume k: "keyed manifest_key s"
  show "set (components_list s) = {m. \<exists>i v. components_get s i v = Some m}"
    unfolding components_list_def components_get_def values_get[OF keyed_wf[OF k]] by auto
  show "sorted_wrt (<) (map manifest_key (components_list s))"
    unfolding components_list_def values_keys[OF k] using keyed_wf[OF k] by (simp add: bt_wf_def)
qed

definition components_register :: "(bytes \<Rightarrow> bytes) \<Rightarrow> manifest_ser \<Rightarrow> component_manifest \<Rightarrow> components \<Rightarrow> components" where
  "components_register sha ser m s = (case components_put sha ser m s of Inl _ \<Rightarrow> s | Inr (_, s') \<Rightarrow> s')"

lemma fold_register_keyed: "keyed manifest_key s \<Longrightarrow> keyed manifest_key (fold (components_register sha ser) ms s)"
  by (induction ms arbitrary: s)
    (auto simp: components_register_def split: sum.splits intro: memory_components.put_inv)

section \<open>Properties\<close>

text \<open>
  C32. The registry is immutable: once a manifest is registered under an identity and
  version, every later sequence of registrations, accepted, replayed or refused, leaves it
  there, under its own identity and version.
\<close>
theorem registered_manifest_immutable:
  assumes "components_get (fold (components_register sha ser) before []) i v = Some m"
  shows "components_get (fold (components_register sha ser) (before @ later) []) i v = Some m
    \<and> manifest_id m = i \<and> manifest_version m = v"
proof -
  have k: "keyed manifest_key (fold (components_register sha ser) before [])"
    by (rule fold_register_keyed[OF keyed_Nil])
  have "components_get (fold (components_register sha ser) later (fold (components_register sha ser) before [])) i v = Some m"
    using memory_components.registers_keep[OF k assms, of sha ser later] unfolding components_register_def[abs_def] .
  then show ?thesis using memory_components.get_key[OF k assms] by simp
qed

definition example_manifest :: "string \<Rightarrow> component_manifest" where
  "example_manifest v = \<lparr>manifest_schema_version = 1, manifest_id = UuidId 1, manifest_name = ComponentName ''c'',
     manifest_version = Version v, manifest_kind = ComponentKind ''tool'', manifest_capabilities = [],
     manifest_execution = None, manifest_source = None, manifest_metadata = []\<rparr>"

theorem registered_manifest_immutable_witness:
  "components_get (fold (components_register id (\<lambda>m. Inr (version_str (manifest_version m)))) ([example_manifest ''1.0.0''] @
      [example_manifest ''1.0.0'', example_manifest ''2.0.0'']) []) (UuidId 1) (Version ''1.0.0'') = Some (example_manifest ''1.0.0'')"
  by (rule registered_manifest_immutable[THEN conjunct1]) code_simp

text \<open>
  Versions are compared as text, so the latest manifest is the one with the greatest
  version string: of 1.9.0 and 1.10.0, registered in either order, the latest is 1.9.0.
\<close>
theorem latest_is_textual:
  "components_latest (fold (components_register sha ser) [example_manifest ''1.9.0'', example_manifest ''1.10.0''] []) (UuidId 1)
     = Some (example_manifest ''1.9.0'')
   \<and> components_latest (fold (components_register sha ser) [example_manifest ''1.10.0'', example_manifest ''1.9.0''] []) (UuidId 1)
     = Some (example_manifest ''1.9.0'')"
proof -
  have ord: "Version ''1.10.0'' < Version ''1.9.0''" by code_simp
  then have ord': "\<not> Version ''1.9.0'' < Version ''1.10.0''" by simp
  show ?thesis
    using ord ord' by (simp add: components_register_def components_put_def Let_def example_manifest_def components_latest_def)
qed

text \<open>
  C18. Cancellation intent is never lost: once it is persisted for a workflow, no sequence of
  snapshot writes, however stale, and of further cancellation requests removes it.
\<close>
theorem cancel_intent_monotone:
  assumes "keyed wr_id s" and "workflows_get s i = Some r" and "wr_cancel_requested_at r \<noteq> None"
  shows "\<exists>r'. workflows_get (foldl (\<lambda>s op. case op of PutWorkflow r \<Rightarrow> workflows_put r s
       | CancelWorkflow i at \<Rightarrow> snd (workflows_request_cancel i at s)) s ops) i = Some r'
     \<and> wr_cancel_requested_at r' \<noteq> None"
  using memory_workflows.intent_monotone[OF assms, of ops]
  by (simp add: memory_workflows.perform_def[abs_def])

definition example_record :: workflow_record where
  "example_record = \<lparr>wr_id = UuidId 3, wr_spec = example_workflow, wr_admission = None, wr_state = Wf_Running,
     wr_model_version = Version ''1.2.0'', wr_created_at = 1, wr_started_at = Some 2, wr_finished_at = None,
     wr_cancel_requested_at = None, wr_steps = [], wr_failure = None\<rparr>"

theorem cancel_intent_monotone_witness:
  "\<exists>r'. workflows_get (foldl (\<lambda>s op. case op of PutWorkflow r \<Rightarrow> workflows_put r s
       | CancelWorkflow i at \<Rightarrow> snd (workflows_request_cancel i at s))
       [(UuidId 3, example_record\<lparr>wr_cancel_requested_at := Some 7\<rparr>)] [PutWorkflow example_record]) (UuidId 3) = Some r'
     \<and> wr_cancel_requested_at r' \<noteq> None"
  by (rule cancel_intent_monotone[where r = "example_record\<lparr>wr_cancel_requested_at := Some 7\<rparr>"])
    (simp_all add: keyed_def bt_wf_def workflows_get_def example_record_def)

text \<open>
  Listings do not depend on the order of writes: records with distinct identifiers give
  the same list, ordered by creation time and identifier, in whatever order they were stored.
\<close>
lemma runs_list_order_independent:
  assumes "distinct (map run_id rs)" and "distinct (map run_id rs')" and "set rs = set rs'"
  shows "runs_list (fold runs_put rs []) = runs_list (fold runs_put rs' [])
    \<and> sorted (map (\<lambda>r. (run_created_at r, run_id r)) (runs_list (fold runs_put rs [])))
    \<and> set (runs_list (fold runs_put rs [])) = set rs"
proof (intro conjI)
  show "runs_list (fold runs_put rs []) = runs_list (fold runs_put rs' [])"
    by (rule memory_runs.puts_order[OF keyed_Nil assms])
  have k: "keyed run_id (fold runs_put rs [])" by (rule memory_runs.puts_inv[OF keyed_Nil])
  show "sorted (map (\<lambda>r. (run_created_at r, run_id r)) (runs_list (fold runs_put rs [])))"
    by (rule memory_runs.lst_sorted[OF k])
  show "set (runs_list (fold runs_put rs [])) = set rs"
    unfolding memory_runs.lst_set[OF k] memory_runs.get_puts[OF keyed_Nil assms(1)] by (auto simp: runs_get_def)
qed

end
