(* ===== verification/Hub_Task.thy ===== *)
theory Hub_Task
  imports Hub_Component "HOL-Library.Multiset"
begin

text \<open>
  Task contracts: \<open>src/crates/hub-core/src/task.rs\<close>. Task specifications, evidence of
  materialised workspaces, resource budgets and capacities, and the admission of a task by a
  sandbox backend, with every validation rule. The canonical serialisation of the evidence is
  the parameter \<open>ser\<close>.
\<close>

section \<open>Model\<close>

definition TASK_SPEC_SCHEMA_VERSION :: u32 where
  "TASK_SPEC_SCHEMA_VERSION = 1"

definition WORKSPACE_MATERIALIZATION_SCHEMA_VERSION :: u32 where
  "WORKSPACE_MATERIALIZATION_SCHEMA_VERSION = 1"

definition MAX_PRINCIPAL_BYTES :: nat where "MAX_PRINCIPAL_BYTES = 256"
definition MAX_REPOSITORIES :: nat where "MAX_REPOSITORIES = 32"
definition MAX_REPOSITORY_BYTES :: nat where "MAX_REPOSITORY_BYTES = 512"
definition MAX_CAPABILITIES :: nat where "MAX_CAPABILITIES = 128"
definition MAX_CAPABILITY_BYTES :: nat where "MAX_CAPABILITY_BYTES = 256"
definition MAX_ISOLATION_EVIDENCE_ID_BYTES :: nat where "MAX_ISOLATION_EVIDENCE_ID_BYTES = 256"
definition MAX_ENDPOINTS :: nat where "MAX_ENDPOINTS = 64"
definition MAX_ENDPOINT_BYTES :: nat where "MAX_ENDPOINT_BYTES = 512"

subsection \<open>Tokens\<close>

definition bounded_token :: "nat \<Rightarrow> string \<Rightarrow> bool" where
  "bounded_token max_bytes value \<longleftrightarrow> value \<noteq> [] \<and> length value \<le> max_bytes
     \<and> \<not> list_ex is_control (chars value) \<and> trim value = value"

definition validate_bounded_token :: "string \<Rightarrow> string \<Rightarrow> nat \<Rightarrow> unit res" where
  "validate_bounded_token kind value max_bytes =
     (if bounded_token max_bytes value then Inr ()
      else Inl (Validation (Fmt ''{kind} must be non-empty, trimmed, control-free and at most {max_bytes} bytes''
        [FStr kind, FNat max_bytes])))"

definition validate_unique_tokens :: "string \<Rightarrow> string list \<Rightarrow> nat \<Rightarrow> unit res" where
  "validate_unique_tokens kind values max_bytes =
     try_unique (\<lambda>v. validate_bounded_token kind v max_bytes) (\<lambda>v. v)
       (\<lambda>v. Validation (Fmt ''duplicate {kind} {value:?}'' [FStr kind, FDebug v])) {} values"

definition is_exact_git_object_id :: "string \<Rightarrow> bool" where
  "is_exact_git_object_id v \<longleftrightarrow> (length v = 40 \<or> length v = 64)
     \<and> list_all (\<lambda>b. is_ascii_hexdigit b \<and> \<not> is_ascii_uppercase b) v"

subsection \<open>Workspaces\<close>

record task_identity =
  tid_task_id :: task_id
  tid_principal :: string

definition validate_identity :: "task_identity \<Rightarrow> unit res" where
  "validate_identity i = validate_bounded_token ''task principal'' (tid_principal i) MAX_PRINCIPAL_BYTES"

record workspace_repository =
  wrep_repository :: string
  wrep_revision :: string
  wrep_read_only :: bool

definition validate_repository :: "workspace_repository \<Rightarrow> unit res" where
  "validate_repository r =
     rbind (validate_bounded_token ''repository'' (wrep_repository r) MAX_REPOSITORY_BYTES) (\<lambda>_.
       if \<not> is_exact_git_object_id (wrep_revision r) then
         Inl (Validation (Fmt ''workspace repository {} revision must be an exact 40- or 64-digit lowercase hexadecimal Git object id''
           [FStr (wrep_repository r)]))
       else Inr ())"

record workspace_spec =
  wsp_repositories :: "workspace_repository list"
  wsp_mcp_servers :: "string list"
  wsp_skills :: "string list"

definition validate_workspace :: "workspace_spec \<Rightarrow> unit res" where
  "validate_workspace w =
     (if length (wsp_repositories w) > MAX_REPOSITORIES then
        Inl (Validation (Fmt ''workspace has {} repositories; maximum is {MAX_REPOSITORIES}''
          [FNat (length (wsp_repositories w)), FNat MAX_REPOSITORIES]))
      else
        rbind (try_unique validate_repository wrep_repository
                 (\<lambda>r. Validation (Fmt ''duplicate workspace repository {:?}'' [FDebug (wrep_repository r)]))
                 {} (wsp_repositories w)) (\<lambda>_.
        rbind (validate_unique_tokens ''MCP server'' (wsp_mcp_servers w) MAX_CAPABILITY_BYTES) (\<lambda>_.
          validate_unique_tokens ''skill'' (wsp_skills w) MAX_CAPABILITY_BYTES)))"

record repository_evidence =
  mre_repository :: string
  mre_requested_revision :: string
  mre_observed_revision :: string
  mre_tree_id :: string
  mre_content_digest :: content_digest
  mre_read_only_requested :: bool

record workspace_evidence =
  wme_schema_version :: u32
  wme_repositories :: "repository_evidence list"
  wme_workspace_digest :: content_digest

type_synonym evidence_ser = "workspace_spec \<times> repository_evidence list \<Rightarrow> message + bytes"

definition compute_workspace_digest :: "(bytes \<Rightarrow> bytes) \<Rightarrow> evidence_ser \<Rightarrow> workspace_spec
    \<Rightarrow> repository_evidence list \<Rightarrow> content_digest res" where
  "compute_workspace_digest sha ser w es =
     rbind (map_err (\<lambda>e. Storage (Fmt ''serializing canonical workspace materialization evidence: {error}'' [FMsg e]))
              (ser (w, es)))
       (\<lambda>bs. Inr (hash_bytes sha DOMAIN_TASK_WORKSPACE bs))"

text \<open>The loop over the observations, with the map \<open>expected\<close> of declared repositories and the names \<open>seen\<close>.\<close>

fun check_evidence :: "(string, workspace_repository) btree \<Rightarrow> string set \<Rightarrow> repository_evidence list \<Rightarrow> unit res" where
  "check_evidence expected seen [] = Inr ()"
| "check_evidence expected seen (e # es) =
     rbind (validate_bounded_token ''materialized repository'' (mre_repository e) MAX_REPOSITORY_BYTES) (\<lambda>_.
       if mre_repository e \<in> seen then
         Inl (Validation (Fmt ''duplicate materialized repository {:?}'' [FDebug (mre_repository e)]))
       else (case bt_get expected (mre_repository e) of
         None \<Rightarrow> Inl (Validation (Fmt ''materialized repository {:?} is not declared by the workspace'' [FDebug (mre_repository e)]))
       | Some declared \<Rightarrow>
           if mre_requested_revision e \<noteq> wrep_revision declared then
             Inl (Validation (Fmt ''materialized repository {} requested revision does not match workspace spec''
               [FStr (mre_repository e)]))
           else if mre_observed_revision e \<noteq> wrep_revision declared then
             Inl (Validation (Fmt ''materialized repository {} observed revision {} does not match requested {}''
               [FStr (mre_repository e), FStr (mre_observed_revision e), FStr (wrep_revision declared)]))
           else if \<not> is_exact_git_object_id (mre_observed_revision e) \<or> \<not> is_exact_git_object_id (mre_tree_id e) then
             Inl (Validation (Fmt ''materialized repository {} must retain exact lowercase Git object IDs''
               [FStr (mre_repository e)]))
           else if mre_read_only_requested e \<noteq> wrep_read_only declared then
             Inl (Validation (Fmt ''materialized repository {} read-only flag does not match workspace spec''
               [FStr (mre_repository e)]))
           else check_evidence expected (insert (mre_repository e) seen) es))"

definition validate_repository_evidence :: "workspace_spec \<Rightarrow> repository_evidence list \<Rightarrow> unit res" where
  "validate_repository_evidence w es =
     (if length es \<noteq> length (wsp_repositories w) then
        Inl (Validation (Fmt ''workspace evidence contains {} repositories; spec declares {}''
          [FNat (length es), FNat (length (wsp_repositories w))]))
      else check_evidence (bt_of_list (map (\<lambda>r. (wrep_repository r, r)) (wsp_repositories w))) {} es)"

definition new_evidence :: "(bytes \<Rightarrow> bytes) \<Rightarrow> evidence_ser \<Rightarrow> workspace_spec \<Rightarrow> repository_evidence list
    \<Rightarrow> workspace_evidence res" where
  "new_evidence sha ser w es =
     rbind (validate_workspace w) (\<lambda>_.
       let es' = sort_key mre_repository es in
       rbind (validate_repository_evidence w es') (\<lambda>_.
       rbind (compute_workspace_digest sha ser w es') (\<lambda>d. Inr
         \<lparr>wme_schema_version = WORKSPACE_MATERIALIZATION_SCHEMA_VERSION, wme_repositories = es',
          wme_workspace_digest = d\<rparr>)))"

definition validate_against :: "(bytes \<Rightarrow> bytes) \<Rightarrow> evidence_ser \<Rightarrow> workspace_evidence \<Rightarrow> workspace_spec \<Rightarrow> unit res" where
  "validate_against sha ser ev w =
     (if wme_schema_version ev \<noteq> WORKSPACE_MATERIALIZATION_SCHEMA_VERSION then
        Inl (Validation (Fmt ''unsupported workspace materialization schema_version {}; expected {WORKSPACE_MATERIALIZATION_SCHEMA_VERSION}''
          [FNat (unat (wme_schema_version ev)), FNat (unat WORKSPACE_MATERIALIZATION_SCHEMA_VERSION)]))
      else
        rbind (validate_workspace w) (\<lambda>_.
          let es = sort_key mre_repository (wme_repositories ev) in
          if es \<noteq> wme_repositories ev then
            Inl (Validation (plain ''workspace materialization repositories must be canonically ordered''))
          else
            rbind (validate_repository_evidence w es) (\<lambda>_.
            rbind (compute_workspace_digest sha ser w es) (\<lambda>expected.
              if expected \<noteq> wme_workspace_digest ev then
                Inl (Validation (plain ''workspace materialization digest does not match retained evidence''))
              else Inr ()))))"

subsection \<open>Capabilities, budgets and capacities\<close>

type_synonym capability_set = "string list"

definition validate_capability_set :: "capability_set \<Rightarrow> unit res" where
  "validate_capability_set cs =
     (if length cs > MAX_CAPABILITIES then
        Inl (Validation (Fmt ''task has {} capabilities; maximum is {MAX_CAPABILITIES}'' [FNat (length cs), FNat MAX_CAPABILITIES]))
      else validate_unique_tokens ''capability grant'' cs MAX_CAPABILITY_BYTES)"

definition capability_set_contains :: "capability_set \<Rightarrow> string \<Rightarrow> bool" where
  "capability_set_contains cs grant \<longleftrightarrow> list_ex (\<lambda>c. c = grant) cs"

record resource_budget =
  rb_cpu_millis :: "u64 option"
  rb_memory_bytes :: "u64 option"
  rb_wall_clock_ms :: "u64 option"
  rb_gpu_devices :: "u32 option"
  rb_model_tokens :: "u64 option"

definition validate_budget :: "resource_budget \<Rightarrow> unit res" where
  "validate_budget b =
     try_for (\<lambda>(name, value).
         if value = Some 0 then
           Inl (Validation (Fmt ''resource budget {name} must be greater than zero when specified'' [FStr name]))
         else Inr ())
       [(''cpu_millis'', rb_cpu_millis b), (''memory_bytes'', rb_memory_bytes b),
        (''wall_clock_ms'', rb_wall_clock_ms b), (''model_tokens'', rb_model_tokens b)]"

record resource_capacity =
  rc_cpu_millis :: "u64 option"
  rc_memory_bytes :: "u64 option"
  rc_gpu_devices :: "u32 option"
  rc_model_tokens :: "u64 option"

definition check_capacity_dimension :: "string \<Rightarrow> string \<Rightarrow> 'w::len word option \<Rightarrow> 'w word option \<Rightarrow> unit res" where
  "check_capacity_dimension backend_id dimension requested available =
     (case requested of
        None \<Rightarrow> Inr ()
      | Some r \<Rightarrow>
          if r = 0 then Inr ()
          else (case available of
              None \<Rightarrow> Inl (Validation (Fmt ''backend {backend_id} has unknown capacity for requested resource dimension {dimension}''
                [FStr backend_id, FStr dimension]))
            | Some a \<Rightarrow>
                if r > a then
                  Inl (Validation (Fmt ''backend {backend_id} capacity {dimension} {available} is below requested {requested}''
                    [FStr backend_id, FStr dimension, FNat (unat a), FNat (unat r)]))
                else Inr ()))"

definition capacity_admit :: "resource_capacity \<Rightarrow> string \<Rightarrow> resource_budget \<Rightarrow> unit res" where
  "capacity_admit c backend_id b =
     (if rc_cpu_millis c = Some 0 then
        Inl (Validation (Fmt ''backend {backend_id} reported zero CPU capacity'' [FStr backend_id]))
      else if rc_memory_bytes c = Some 0 then
        Inl (Validation (Fmt ''backend {backend_id} reported zero memory capacity'' [FStr backend_id]))
      else
        rbind (check_capacity_dimension backend_id ''cpu_millis'' (rb_cpu_millis b) (rc_cpu_millis c)) (\<lambda>_.
        rbind (check_capacity_dimension backend_id ''memory_bytes'' (rb_memory_bytes b) (rc_memory_bytes c)) (\<lambda>_.
        rbind (check_capacity_dimension backend_id ''gpu_devices'' (rb_gpu_devices b) (rc_gpu_devices c)) (\<lambda>_.
          check_capacity_dimension backend_id ''model_tokens'' (rb_model_tokens b) (rc_model_tokens c)))))"

subsection \<open>Isolation and network\<close>

datatype isolation_level = Iso_Process | Iso_Container | Iso_Gvisor | Iso_MicroVm

fun isolation_rank :: "isolation_level \<Rightarrow> nat" where
  "isolation_rank Iso_Process = 0"
| "isolation_rank Iso_Container = 1"
| "isolation_rank Iso_Gvisor = 2"
| "isolation_rank Iso_MicroVm = 3"

lemma isolation_rank_inj: "isolation_rank a = isolation_rank b \<longleftrightarrow> a = b"
  by (cases a; cases b) simp_all

text \<open>The derived \<open>Ord\<close>: declaration order.\<close>

instantiation isolation_level :: linorder
begin

definition less_eq_isolation_level :: "isolation_level \<Rightarrow> isolation_level \<Rightarrow> bool" where
  "less_eq_isolation_level a b \<longleftrightarrow> isolation_rank a \<le> isolation_rank b"

definition less_isolation_level :: "isolation_level \<Rightarrow> isolation_level \<Rightarrow> bool" where
  "less_isolation_level a b \<longleftrightarrow> isolation_rank a < isolation_rank b"

instance
  by standard (auto simp: less_eq_isolation_level_def less_isolation_level_def isolation_rank_inj)

end

fun isolation_debug :: "isolation_level \<Rightarrow> string" where
  "isolation_debug Iso_Process = ''Process''"
| "isolation_debug Iso_Container = ''Container''"
| "isolation_debug Iso_Gvisor = ''Gvisor''"
| "isolation_debug Iso_MicroVm = ''MicroVm''"

record network_policy =
  np_default_deny :: bool
  np_allowed_endpoints :: "string list"

definition default_network_policy :: network_policy where
  "default_network_policy = \<lparr>np_default_deny = True, np_allowed_endpoints = []\<rparr>"

definition validate_network :: "network_policy \<Rightarrow> unit res" where
  "validate_network n =
     (if length (np_allowed_endpoints n) > MAX_ENDPOINTS then
        Inl (Validation (Fmt ''network policy has {} endpoints; maximum is {MAX_ENDPOINTS}''
          [FNat (length (np_allowed_endpoints n)), FNat MAX_ENDPOINTS]))
      else validate_unique_tokens ''network endpoint'' (np_allowed_endpoints n) MAX_ENDPOINT_BYTES)"

record sandbox_requirements =
  sb_minimum_isolation :: isolation_level
  sb_network :: network_policy
  sb_writable_workspace :: bool

subsection \<open>Task specifications\<close>

record task_spec =
  ts_schema_version :: u32
  ts_id :: task_id
  ts_identity :: task_identity
  ts_workspace :: workspace_spec
  ts_capabilities :: capability_set
  ts_budget :: resource_budget
  ts_sandbox :: sandbox_requirements

definition validate_task :: "task_spec \<Rightarrow> unit res" where
  "validate_task t =
     (if ts_schema_version t \<noteq> TASK_SPEC_SCHEMA_VERSION then
        Inl (Validation (Fmt ''unsupported task schema_version {}; expected {TASK_SPEC_SCHEMA_VERSION}''
          [FNat (unat (ts_schema_version t)), FNat (unat TASK_SPEC_SCHEMA_VERSION)]))
      else if tid_task_id (ts_identity t) \<noteq> ts_id t then
        Inl (Validation (plain ''task identity task_id must match task id''))
      else
        rbind (validate_identity (ts_identity t)) (\<lambda>_.
        rbind (validate_workspace (ts_workspace t)) (\<lambda>_.
        rbind (validate_capability_set (ts_capabilities t)) (\<lambda>_.
        rbind (validate_budget (ts_budget t)) (\<lambda>_.
          validate_network (sb_network (ts_sandbox t)))))))"

subsection \<open>Backends\<close>

record resource_enforcement =
  re_wall_clock_ms :: bool
  re_cpu_millis :: bool
  re_memory_bytes :: bool
  re_gpu_devices :: bool
  re_model_tokens :: bool

definition enforcement_admit :: "resource_enforcement \<Rightarrow> string \<Rightarrow> resource_budget \<Rightarrow> unit res" where
  "enforcement_admit re backend_id b =
     try_for (\<lambda>(requested, enforced, dimension).
         if requested \<and> \<not> enforced then
           Inl (Validation (Fmt ''sandbox backend {backend_id} cannot enforce requested resource dimension {dimension}''
             [FStr backend_id, FStr dimension]))
         else Inr ())
       [(rb_wall_clock_ms b \<noteq> None, re_wall_clock_ms re, ''wall_clock_ms''),
        (rb_cpu_millis b \<noteq> None, re_cpu_millis re, ''cpu_millis''),
        (rb_memory_bytes b \<noteq> None, re_memory_bytes re, ''memory_bytes''),
        (rb_gpu_devices b \<noteq> None, re_gpu_devices re, ''gpu_devices''),
        (rb_model_tokens b \<noteq> None, re_model_tokens re, ''model_tokens'')]"

record backend_descriptor =
  bd_backend_id :: string
  bd_isolation :: isolation_level
  bd_isolation_qualified :: bool
  bd_isolation_evidence_id :: "string option"
  bd_enforces_network_policy :: bool
  bd_enforces_default_deny_network :: bool
  bd_enforces_workspace_write_policy :: bool
  bd_resources :: resource_enforcement
  bd_capabilities :: capability_set

definition validate_qualification_claims :: "backend_descriptor \<Rightarrow> unit res" where
  "validate_qualification_claims d =
     (if bd_isolation d > Iso_Process \<and> \<not> bd_isolation_qualified d then
        Inl (Validation (plain ''sandbox backend isolation lacks qualification evidence''))
      else if bd_isolation d = Iso_Process \<and> bd_isolation_qualified d then
        Inl (Validation (plain ''process supervision cannot claim qualified isolation''))
      else if bd_isolation_qualified d then
        rbind (ok_or (Validation (plain ''qualified sandbox isolation requires an evidence reference''))
                 (bd_isolation_evidence_id d))
          (\<lambda>i. validate_bounded_token ''sandbox isolation evidence id'' i MAX_ISOLATION_EVIDENCE_ID_BYTES)
      else if bd_isolation_evidence_id d \<noteq> None then
        Inl (Validation (plain ''sandbox isolation evidence requires a qualified isolation claim''))
      else Inr ())"

definition backend_admit :: "backend_descriptor \<Rightarrow> task_spec \<Rightarrow> unit res" where
  "backend_admit d t =
     rbind (validate_task t) (\<lambda>_.
     rbind (validate_bounded_token ''sandbox backend id'' (bd_backend_id d) MAX_CAPABILITY_BYTES) (\<lambda>_.
     rbind (validate_qualification_claims d) (\<lambda>_.
       if bd_isolation d < sb_minimum_isolation (ts_sandbox t) then
         Inl (Validation (Fmt ''sandbox backend {} isolation {:?} does not satisfy required {:?}''
           [FStr (bd_backend_id d), FStr (isolation_debug (bd_isolation d)),
            FStr (isolation_debug (sb_minimum_isolation (ts_sandbox t)))]))
       else if np_allowed_endpoints (sb_network (ts_sandbox t)) \<noteq> [] \<and> \<not> bd_enforces_network_policy d then
         Inl (Validation (Fmt ''sandbox backend {} cannot enforce the task network policy'' [FStr (bd_backend_id d)]))
       else if np_default_deny (sb_network (ts_sandbox t)) \<and> \<not> bd_enforces_default_deny_network d then
         Inl (Validation (Fmt ''sandbox backend {} cannot enforce the task default-deny network policy'' [FStr (bd_backend_id d)]))
       else if \<not> sb_writable_workspace (ts_sandbox t) \<and> \<not> bd_enforces_workspace_write_policy d then
         Inl (Validation (Fmt ''sandbox backend {} cannot enforce the task read-only workspace policy'' [FStr (bd_backend_id d)]))
       else
         rbind (enforcement_admit (bd_resources d) (bd_backend_id d) (ts_budget t)) (\<lambda>_.
         rbind (validate_capability_set (bd_capabilities d)) (\<lambda>_.
           try_for (\<lambda>c.
               if \<not> capability_set_contains (bd_capabilities d) c then
                 Inl (Validation (Fmt ''sandbox backend {} cannot enforce requested capability {capability}''
                   [FStr (bd_backend_id d), FStr c]))
               else Inr ())
             (ts_capabilities t))))))"

definition admit_with_capacity :: "backend_descriptor \<Rightarrow> task_spec \<Rightarrow> resource_capacity \<Rightarrow> unit res" where
  "admit_with_capacity d t c =
     rbind (backend_admit d t) (\<lambda>_. capacity_admit c (bd_backend_id d) (ts_budget t))"

section \<open>Specifications\<close>

definition tokens_wf :: "nat \<Rightarrow> string list \<Rightarrow> bool" where
  "tokens_wf n xs \<longleftrightarrow> distinct xs \<and> (\<forall>x\<in>set xs. bounded_token n x)"

definition workspace_wf :: "workspace_spec \<Rightarrow> bool" where
  "workspace_wf w \<longleftrightarrow> length (wsp_repositories w) \<le> 32
     \<and> distinct (map wrep_repository (wsp_repositories w))
     \<and> (\<forall>r\<in>set (wsp_repositories w). bounded_token 512 (wrep_repository r) \<and> is_exact_git_object_id (wrep_revision r))
     \<and> tokens_wf 256 (wsp_mcp_servers w) \<and> tokens_wf 256 (wsp_skills w)"

definition capability_set_wf :: "capability_set \<Rightarrow> bool" where
  "capability_set_wf cs \<longleftrightarrow> length cs \<le> 128 \<and> tokens_wf 256 cs"

definition budget_wf :: "resource_budget \<Rightarrow> bool" where
  "budget_wf b \<longleftrightarrow> rb_cpu_millis b \<noteq> Some 0 \<and> rb_memory_bytes b \<noteq> Some 0
     \<and> rb_wall_clock_ms b \<noteq> Some 0 \<and> rb_model_tokens b \<noteq> Some 0"

definition task_wf :: "task_spec \<Rightarrow> bool" where
  "task_wf t \<longleftrightarrow> ts_schema_version t = 1 \<and> tid_task_id (ts_identity t) = ts_id t
     \<and> bounded_token 256 (tid_principal (ts_identity t)) \<and> workspace_wf (ts_workspace t)
     \<and> capability_set_wf (ts_capabilities t) \<and> budget_wf (ts_budget t)
     \<and> length (np_allowed_endpoints (sb_network (ts_sandbox t))) \<le> 64
     \<and> tokens_wf 512 (np_allowed_endpoints (sb_network (ts_sandbox t)))"

text \<open>An observation proves a declared repository when both revisions are the declared one.\<close>

definition evidence_of :: "repository_evidence \<Rightarrow> workspace_repository \<Rightarrow> bool" where
  "evidence_of e r \<longleftrightarrow> mre_repository e = wrep_repository r
     \<and> mre_requested_revision e = wrep_revision r \<and> mre_observed_revision e = wrep_revision r
     \<and> is_exact_git_object_id (mre_tree_id e) \<and> mre_read_only_requested e = wrep_read_only r"

definition evidence_exact :: "workspace_spec \<Rightarrow> repository_evidence list \<Rightarrow> bool" where
  "evidence_exact w es \<longleftrightarrow> sorted (map mre_repository es) \<and> distinct (map mre_repository es)
     \<and> (\<forall>r\<in>set (wsp_repositories w). \<exists>e\<in>set es. evidence_of e r)
     \<and> (\<forall>e\<in>set es. \<exists>r\<in>set (wsp_repositories w). evidence_of e r)"

definition descriptor_wf :: "backend_descriptor \<Rightarrow> bool" where
  "descriptor_wf d \<longleftrightarrow> bounded_token 256 (bd_backend_id d) \<and> capability_set_wf (bd_capabilities d)
     \<and> (bd_isolation_qualified d \<longleftrightarrow> bd_isolation d \<noteq> Iso_Process)
     \<and> (case bd_isolation_evidence_id d of
          None \<Rightarrow> \<not> bd_isolation_qualified d
        | Some i \<Rightarrow> bd_isolation_qualified d \<and> bounded_token 256 i)"

text \<open>Every dimension of the envelope that the task asks for is one the backend enforces.\<close>

definition enforces :: "backend_descriptor \<Rightarrow> task_spec \<Rightarrow> bool" where
  "enforces d t \<longleftrightarrow>
     sb_minimum_isolation (ts_sandbox t) \<le> bd_isolation d
     \<and> (np_allowed_endpoints (sb_network (ts_sandbox t)) = [] \<or> bd_enforces_network_policy d)
     \<and> (bd_enforces_default_deny_network d \<or> \<not> np_default_deny (sb_network (ts_sandbox t)))
     \<and> (sb_writable_workspace (ts_sandbox t) \<or> bd_enforces_workspace_write_policy d)
     \<and> (rb_wall_clock_ms (ts_budget t) = None \<or> re_wall_clock_ms (bd_resources d))
     \<and> (rb_cpu_millis (ts_budget t) = None \<or> re_cpu_millis (bd_resources d))
     \<and> (rb_memory_bytes (ts_budget t) = None \<or> re_memory_bytes (bd_resources d))
     \<and> (rb_gpu_devices (ts_budget t) = None \<or> re_gpu_devices (bd_resources d))
     \<and> (rb_model_tokens (ts_budget t) = None \<or> re_model_tokens (bd_resources d))
     \<and> set (ts_capabilities t) \<subseteq> set (bd_capabilities d)"

definition fits :: "'w::len word option \<Rightarrow> 'w word option \<Rightarrow> bool" where
  "fits requested available \<longleftrightarrow> (case requested of None \<Rightarrow> True
     | Some r \<Rightarrow> r = 0 \<or> (case available of None \<Rightarrow> False | Some a \<Rightarrow> r \<le> a))"

definition stronger_enforcement :: "resource_enforcement \<Rightarrow> resource_enforcement \<Rightarrow> bool" where
  "stronger_enforcement a b \<longleftrightarrow>
     (\<not> re_wall_clock_ms a \<or> re_wall_clock_ms b) \<and> (\<not> re_cpu_millis a \<or> re_cpu_millis b)
     \<and> (\<not> re_memory_bytes a \<or> re_memory_bytes b) \<and> (\<not> re_gpu_devices a \<or> re_gpu_devices b)
     \<and> (\<not> re_model_tokens a \<or> re_model_tokens b)"

definition stronger_backend :: "backend_descriptor \<Rightarrow> backend_descriptor \<Rightarrow> bool" where
  "stronger_backend a b \<longleftrightarrow> bd_isolation a \<le> bd_isolation b
     \<and> (\<not> bd_enforces_network_policy a \<or> bd_enforces_network_policy b)
     \<and> (\<not> bd_enforces_default_deny_network a \<or> bd_enforces_default_deny_network b)
     \<and> (\<not> bd_enforces_workspace_write_policy a \<or> bd_enforces_workspace_write_policy b)
     \<and> stronger_enforcement (bd_resources a) (bd_resources b)
     \<and> set (bd_capabilities a) \<subseteq> set (bd_capabilities b)"

section \<open>Facts\<close>

lemmas task_consts =
  TASK_SPEC_SCHEMA_VERSION_def WORKSPACE_MATERIALIZATION_SCHEMA_VERSION_def MAX_PRINCIPAL_BYTES_def
  MAX_REPOSITORIES_def MAX_REPOSITORY_BYTES_def MAX_CAPABILITIES_def MAX_CAPABILITY_BYTES_def
  MAX_ISOLATION_EVIDENCE_ID_BYTES_def MAX_ENDPOINTS_def MAX_ENDPOINT_BYTES_def

lemma validate_bounded_token_iff [result_simps]: "validate_bounded_token k v n = Inr u \<longleftrightarrow> bounded_token n v"
  by (simp add: validate_bounded_token_def)

lemma validate_unique_tokens_iff [result_simps]: "validate_unique_tokens k vs n = Inr u \<longleftrightarrow> tokens_wf n vs"
  by (auto simp: validate_unique_tokens_def tokens_wf_def result_simps)

lemma validate_repository_iff [result_simps]:
  "validate_repository r = Inr u \<longleftrightarrow> bounded_token 512 (wrep_repository r) \<and> is_exact_git_object_id (wrep_revision r)"
  by (auto simp: validate_repository_def result_simps task_consts)

lemma validate_workspace_iff [result_simps]: "validate_workspace w = Inr u \<longleftrightarrow> workspace_wf w"
  by (auto simp: validate_workspace_def workspace_wf_def result_simps task_consts)

lemma validate_capability_set_iff [result_simps]: "validate_capability_set cs = Inr u \<longleftrightarrow> capability_set_wf cs"
  by (auto simp: validate_capability_set_def capability_set_wf_def result_simps task_consts)

lemma validate_budget_iff [result_simps]: "validate_budget b = Inr u \<longleftrightarrow> budget_wf b"
  unfolding validate_budget_def try_for_Inr_iff by (auto simp: budget_wf_def)

lemma validate_task_iff [result_simps]: "validate_task t = Inr u \<longleftrightarrow> task_wf t"
  by (auto simp: validate_task_def task_wf_def validate_identity_def validate_network_def result_simps task_consts)

subsection \<open>Evidence\<close>

lemma check_evidence_iff:
  "check_evidence ex seen es = Inr u \<longleftrightarrow>
     distinct (map mre_repository es) \<and> seen \<inter> mre_repository ` set es = {} \<and>
     (\<forall>e\<in>set es. bounded_token 512 (mre_repository e) \<and>
       (\<exists>r. bt_get ex (mre_repository e) = Some r \<and> mre_requested_revision e = wrep_revision r
          \<and> mre_observed_revision e = wrep_revision r \<and> is_exact_git_object_id (wrep_revision r)
          \<and> is_exact_git_object_id (mre_tree_id e) \<and> mre_read_only_requested e = wrep_read_only r))"
proof (induction es arbitrary: seen u)
  case (Cons e es)
  show ?case
  proof (cases "bt_get ex (mre_repository e)")
    case None
    then show ?thesis by (auto simp: result_simps)
  next
    case (Some r)
    then show ?thesis by (auto simp: Cons.IH result_simps task_consts)
  qed
qed simp

lemma declared_get:
  assumes "distinct (map wrep_repository rs)"
  shows "bt_get (bt_of_list (map (\<lambda>r. (wrep_repository r, r)) rs)) n = Some r \<longleftrightarrow> r \<in> set rs \<and> wrep_repository r = n"
proof -
  have "bt_get (fold (\<lambda>(k, v). bt_insert k v) (map (\<lambda>r. (wrep_repository r, r)) rs) m) n = Some r \<longleftrightarrow>
      (r \<in> set rs \<and> wrep_repository r = n) \<or> (n \<notin> wrep_repository ` set rs \<and> bt_get m n = Some r)" for m
    using assms by (induction rs arbitrary: m) (auto split: if_splits)
  then show ?thesis by (simp add: bt_of_list_def)
qed

lemma same_names:
  assumes "distinct xs" and "distinct ys" and "length xs = length ys" and "set xs \<subseteq> set ys"
  shows "set xs = set ys"
  using assms by (metis card_subset_eq distinct_card List.finite_set)

lemma validate_repository_evidence_iff:
  assumes "workspace_wf w" and "sorted (map mre_repository es)"
  shows "validate_repository_evidence w es = Inr u \<longleftrightarrow> evidence_exact w es"
proof -
  let ?rs = "wsp_repositories w"
  have dist: "distinct (map wrep_repository ?rs)"
    and ok: "\<And>r. r \<in> set ?rs \<Longrightarrow> bounded_token 512 (wrep_repository r) \<and> is_exact_git_object_id (wrep_revision r)"
    using assms(1) by (auto simp: workspace_wf_def)
  have loop: "check_evidence (bt_of_list (map (\<lambda>r. (wrep_repository r, r)) ?rs)) {} es = Inr u \<longleftrightarrow>
      distinct (map mre_repository es) \<and> (\<forall>e\<in>set es. \<exists>r\<in>set ?rs. evidence_of e r)" for u
    unfolding check_evidence_iff declared_get[OF dist] evidence_of_def using ok by auto metis+
  have "validate_repository_evidence w es = Inr u \<longleftrightarrow> length es = length ?rs
      \<and> distinct (map mre_repository es) \<and> (\<forall>e\<in>set es. \<exists>r\<in>set ?rs. evidence_of e r)"
    by (simp add: validate_repository_evidence_def loop)
  also have "\<dots> \<longleftrightarrow> evidence_exact w es"
  proof (intro iffI)
    assume a: "length es = length ?rs \<and> distinct (map mre_repository es) \<and> (\<forall>e\<in>set es. \<exists>r\<in>set ?rs. evidence_of e r)"
    then have "set (map mre_repository es) \<subseteq> set (map wrep_repository ?rs)" by (force simp: evidence_of_def)
    then have names: "set (map mre_repository es) = set (map wrep_repository ?rs)"
      using a dist by (intro same_names) auto
    have "\<exists>e\<in>set es. evidence_of e r" if r: "r \<in> set ?rs" for r
    proof -
      obtain e where e: "e \<in> set es" "mre_repository e = wrep_repository r" using names r by force
      then obtain r' where "r' \<in> set ?rs" "evidence_of e r'" using a by blast
      moreover from this have "r' = r" using e(2) r dist by (auto simp: evidence_of_def distinct_map inj_on_def)
      ultimately show ?thesis using e(1) by blast
    qed
    then show "evidence_exact w es" using a assms(2) by (simp add: evidence_exact_def)
  next
    assume e: "evidence_exact w es"
    then have "set (map mre_repository es) = set (map wrep_repository ?rs)"
      by (force simp: evidence_exact_def evidence_of_def)
    then have "length es = length ?rs"
      using e dist by (metis distinct_card evidence_exact_def length_map)
    then show "length es = length ?rs \<and> distinct (map mre_repository es) \<and> (\<forall>e\<in>set es. \<exists>r\<in>set ?rs. evidence_of e r)"
      using e by (simp add: evidence_exact_def)
  qed
  finally show ?thesis .
qed

lemma sort_key_fixed: "sort_key f xs = xs \<longleftrightarrow> sorted (map f xs)"
  by (metis sort_key_id_if_sorted sorted_sort_key)

lemma validate_against_iff:
  "validate_against sha ser ev w = Inr u \<longleftrightarrow> wme_schema_version ev = 1 \<and> workspace_wf w
     \<and> evidence_exact w (wme_repositories ev)
     \<and> compute_workspace_digest sha ser w (wme_repositories ev) = Inr (wme_workspace_digest ev)"
proof (cases "workspace_wf w \<and> sorted (map mre_repository (wme_repositories ev))")
  case True
  then show ?thesis
    using validate_repository_evidence_iff[of w "wme_repositories ev" "()"]
    by (auto simp: validate_against_def Let_def result_simps task_consts sort_key_id_if_sorted)
next
  case False
  then show ?thesis
    by (auto simp: validate_against_def Let_def result_simps task_consts sort_key_fixed evidence_exact_def)
qed

subsection \<open>Admission\<close>

lemma not_Iso_Process: "Iso_Process < i \<longleftrightarrow> i \<noteq> Iso_Process"
  by (cases i) (simp_all add: less_isolation_level_def)

lemma enforcement_admit_iff [result_simps]:
  "enforcement_admit re i b = Inr u \<longleftrightarrow>
     (rb_wall_clock_ms b = None \<or> re_wall_clock_ms re) \<and> (rb_cpu_millis b = None \<or> re_cpu_millis re)
     \<and> (rb_memory_bytes b = None \<or> re_memory_bytes re) \<and> (rb_gpu_devices b = None \<or> re_gpu_devices re)
     \<and> (rb_model_tokens b = None \<or> re_model_tokens re)"
  unfolding enforcement_admit_def try_for_Inr_iff by auto

lemma backend_admit_iff: "backend_admit d t = Inr u \<longleftrightarrow> task_wf t \<and> descriptor_wf d \<and> enforces d t"
proof -
  have caps: "try_for (\<lambda>c. if \<not> capability_set_contains cs c then Inl (f c) else Inr ()) xs = Inr u \<longleftrightarrow> set xs \<subseteq> set cs"
    for f :: "string \<Rightarrow> core_error" and cs xs u
    unfolding try_for_Inr_iff by (auto simp: capability_set_contains_def list_ex_iff)
  have claims: "bounded_token 256 (bd_backend_id d) \<and> validate_qualification_claims d = Inr () \<and> capability_set_wf (bd_capabilities d)
      \<longleftrightarrow> descriptor_wf d"
    by (cases "bd_isolation_evidence_id d"; cases "bd_isolation_qualified d")
      (simp_all add: validate_qualification_claims_def descriptor_wf_def not_Iso_Process result_simps task_consts
        conj_commute conj_left_commute)
  have "backend_admit d t = Inr u \<longleftrightarrow> task_wf t \<and> bounded_token 256 (bd_backend_id d)
      \<and> validate_qualification_claims d = Inr () \<and> capability_set_wf (bd_capabilities d) \<and> enforces d t"
    unfolding backend_admit_def enforces_def
    by (simp add: rbind_Inr_iff validate_task_iff validate_bounded_token_iff caps enforcement_admit_iff
        validate_capability_set_iff MAX_CAPABILITY_BYTES_def not_less if_Inl_iff conj_ac disj_ac)
  then show ?thesis using claims by blast
qed

lemma check_capacity_iff [result_simps]: "check_capacity_dimension i n r a = Inr u \<longleftrightarrow> fits r a"
  by (auto simp: check_capacity_dimension_def fits_def split: option.splits)

lemma enforces_mono:
  assumes "enforces a t" and "stronger_backend a b"
  shows "enforces b t"
proof -
  note a = assms(1)[unfolded enforces_def] and b = assms(2)[unfolded stronger_backend_def stronger_enforcement_def]
  have "sb_minimum_isolation (ts_sandbox t) \<le> bd_isolation b"
    by (rule order_trans[OF conjunct1[OF a] conjunct1[OF b]])
  moreover have "set (ts_capabilities t) \<subseteq> set (bd_capabilities a)" using a by (elim conjE)
  then have "set (ts_capabilities t) \<subseteq> set (bd_capabilities b)" using b by (elim conjE) (rule subset_trans)
  ultimately show ?thesis unfolding enforces_def using a b by satx
qed

lemma capacity_admit_iff:
  "capacity_admit c i b = Inr u \<longleftrightarrow> rc_cpu_millis c \<noteq> Some 0 \<and> rc_memory_bytes c \<noteq> Some 0
     \<and> fits (rb_cpu_millis b) (rc_cpu_millis c) \<and> fits (rb_memory_bytes b) (rc_memory_bytes c)
     \<and> fits (rb_gpu_devices b) (rc_gpu_devices c) \<and> fits (rb_model_tokens b) (rc_model_tokens c)"
  by (auto simp: capacity_admit_def result_simps)

lemma new_evidence_iff:
  "new_evidence sha ser w es = Inr ev \<longleftrightarrow>
     validate_against sha ser ev w = Inr () \<and> wme_repositories ev = sort_key mre_repository es"
proof (cases "workspace_wf w")
  case True
  have "validate_repository_evidence w (sort_key mre_repository es) = Inr u \<longleftrightarrow>
      evidence_exact w (sort_key mre_repository es)" for u
    using True by (intro validate_repository_evidence_iff) simp_all
  with True show ?thesis
    by (cases ev) (auto simp: new_evidence_def validate_against_iff Let_def result_simps task_consts)
next
  case False
  then show ?thesis by (auto simp: new_evidence_def validate_against_iff result_simps)
qed

lemma sort_key_unique:
  fixes f :: "'a \<Rightarrow> 'k::linorder"
  assumes "mset xs = mset ys" and "sorted (map f ys)" and "distinct (map f ys)"
  shows "sort_key f xs = ys"
proof -
  have sets: "set (sort_key f xs) = set ys" using assms(1) by (metis set_mset_mset set_sort)
  have "distinct (map f (sort_key f xs))" using assms(1,3) by (metis mset_eq_imp_distinct_iff mset_map mset_sort)
  then have "map f (sort_key f xs) = map f ys"
    using assms(2,3) sets by (intro sorted_distinct_set_unique) auto
  moreover have "inj_on f (set (sort_key f xs) \<union> set ys)" using assms(3) sets by (simp add: distinct_map)
  ultimately show ?thesis by (metis map_inj_on)
qed

section \<open>Properties\<close>

text \<open>
  C22. A backend admits a task exactly when the task is well formed, the backend's
  own claims are consistent, and the backend enforces every requested dimension: isolation,
  network policy, workspace write policy, each budget in the envelope and each capability.
\<close>
theorem backend_admission_exact:
  "backend_admit d t = Inr u \<longleftrightarrow> task_wf t \<and> descriptor_wf d \<and> enforces d t"
  by (rule backend_admit_iff)

text \<open>
  Admission with a live capacity report: every requested non-zero dimension is
  enforced by the backend and at most the reported capacity; an unknown capacity is refused.
\<close>
theorem capacity_admission_exact:
  "admit_with_capacity d t c = Inr u \<longleftrightarrow> task_wf t \<and> descriptor_wf d \<and> enforces d t
     \<and> rc_cpu_millis c \<noteq> Some 0 \<and> rc_memory_bytes c \<noteq> Some 0
     \<and> fits (rb_cpu_millis (ts_budget t)) (rc_cpu_millis c)
     \<and> fits (rb_memory_bytes (ts_budget t)) (rc_memory_bytes c)
     \<and> fits (rb_gpu_devices (ts_budget t)) (rc_gpu_devices c)
     \<and> fits (rb_model_tokens (ts_budget t)) (rc_model_tokens c)"
  by (auto simp: admit_with_capacity_def rbind_Inr_iff backend_admit_iff capacity_admit_iff)

text \<open>
  Admission is monotone: a backend with consistent claims that enforces at least
  what another one enforces admits every task the other one admits.
\<close>
lemma backend_admission_monotone:
  assumes "backend_admit a t = Inr ()" and "stronger_backend a b" and "descriptor_wf b"
  shows "backend_admit b t = Inr ()"
  using assms enforces_mono[OF _ assms(2)] by (simp add: backend_admit_iff)

definition example_task :: task_spec where
  "example_task = \<lparr>ts_schema_version = 1, ts_id = UuidId 7,
     ts_identity = \<lparr>tid_task_id = UuidId 7, tid_principal = ''p''\<rparr>,
     ts_workspace = \<lparr>wsp_repositories = [], wsp_mcp_servers = [], wsp_skills = []\<rparr>,
     ts_capabilities = [''c''],
     ts_budget = \<lparr>rb_cpu_millis = None, rb_memory_bytes = None, rb_wall_clock_ms = Some 5, rb_gpu_devices = None,
       rb_model_tokens = None\<rparr>,
     ts_sandbox = \<lparr>sb_minimum_isolation = Iso_Process, sb_network = default_network_policy\<lparr>np_default_deny := False\<rparr>,
       sb_writable_workspace = True\<rparr>\<rparr>"

definition example_backend :: "isolation_level \<Rightarrow> backend_descriptor" where
  "example_backend i = \<lparr>bd_backend_id = ''b'', bd_isolation = i, bd_isolation_qualified = (i \<noteq> Iso_Process),
     bd_isolation_evidence_id = (if i = Iso_Process then None else Some ''e''),
     bd_enforces_network_policy = False, bd_enforces_default_deny_network = False,
     bd_enforces_workspace_write_policy = False,
     bd_resources = \<lparr>re_wall_clock_ms = True, re_cpu_millis = False, re_memory_bytes = False,
       re_gpu_devices = False, re_model_tokens = False\<rparr>,
     bd_capabilities = [''c'', ''d'']\<rparr>"

text \<open>
  C40. Evidence of a materialised workspace that passes validation covers exactly the
  declared repositories at exactly the declared revisions. It is canonical: building evidence
  from the same observations in any order gives back the same record.
\<close>
theorem workspace_evidence_canonical:
  assumes "validate_against sha ser ev w = Inr ()" and "mset es = mset (wme_repositories ev)"
  shows "evidence_exact w (wme_repositories ev) \<and> new_evidence sha ser w es = Inr ev"
proof -
  have "evidence_exact w (wme_repositories ev)" using assms(1) by (simp add: validate_against_iff)
  then show ?thesis using assms
    by (simp add: new_evidence_iff evidence_exact_def sort_key_unique)
qed

definition example_workspace :: workspace_spec where
  "example_workspace = \<lparr>wsp_repositories = map (\<lambda>n. \<lparr>wrep_repository = n, wrep_revision = replicate 40 CHR ''a'',
     wrep_read_only = True\<rparr>) [''y'', ''x''], wsp_mcp_servers = [], wsp_skills = []\<rparr>"

definition example_observations :: "repository_evidence list" where
  "example_observations = map (\<lambda>n. \<lparr>mre_repository = n, mre_requested_revision = replicate 40 CHR ''a'',
     mre_observed_revision = replicate 40 CHR ''a'', mre_tree_id = replicate 64 CHR ''b'',
     mre_content_digest = hash_bytes id DOMAIN_TASK_WORKSPACE [], mre_read_only_requested = True\<rparr>) [''y'', ''x'']"

theorem workspace_evidence_canonical_witness:
  "\<exists>ev. new_evidence id (\<lambda>_. Inr ''{}'') example_workspace example_observations = Inr ev
     \<and> evidence_exact example_workspace (wme_repositories ev)"
proof -
  define es where "es = rev example_observations"
  define ev where "ev = \<lparr>wme_schema_version = 1, wme_repositories = es,
    wme_workspace_digest = hash_bytes id DOMAIN_TASK_WORKSPACE ''{}''\<rparr>"
  have "validate_against id (\<lambda>_. Inr ''{}'') ev example_workspace = Inr ()"
    unfolding ev_def es_def by code_simp
  moreover have "mset example_observations = mset (wme_repositories ev)" by (simp add: ev_def es_def)
  ultimately show ?thesis using workspace_evidence_canonical by blast
qed

end
