(* ===== verification/Hub_Task_Lifecycle.thy ===== *)
theory Hub_Task_Lifecycle
  imports Hub_Task Hub_Memory "HOL-Library.Sublist"
begin

text \<open>
  Task lifecycle: \<open>src/crates/hub-core/src/task_lifecycle.rs\<close> and the in-memory task
  repository of \<open>memory.rs\<close>. An operation on \<open>&mut self\<close> returns its result together with
  the record it leaves behind, also when it fails. The lemmas relate the two views of a task's
  history: the operations that extend it, and the replay by which a snapshot is validated.
\<close>

section \<open>Model\<close>

subsection \<open>States and records\<close>

definition TASK_RECORD_SCHEMA_VERSION :: u32 where
  "TASK_RECORD_SCHEMA_VERSION = 2"

definition MIN_TASK_RECORD_SCHEMA_VERSION :: u32 where
  "MIN_TASK_RECORD_SCHEMA_VERSION = 1"

fun task_can_transition_to :: "task_state \<Rightarrow> task_state \<Rightarrow> bool" where
  "task_can_transition_to Task_Created next = (next \<in> {Task_Admitted, Task_Failed, Task_Cancelled})"
| "task_can_transition_to Task_Admitted next = (next \<in> {Task_Running, Task_Failed, Task_Cancelled})"
| "task_can_transition_to Task_Running next =
     (next \<in> {Task_Suspended, Task_Succeeded, Task_Failed, Task_Cancelled, Task_Terminated})"
| "task_can_transition_to Task_Suspended next =
     (next \<in> {Task_Running, Task_Failed, Task_Cancelled, Task_Terminated})"
| "task_can_transition_to _ next = False"

definition task_is_terminal :: "task_state \<Rightarrow> bool" where
  "task_is_terminal s \<longleftrightarrow> s \<in> {Task_Succeeded, Task_Failed, Task_Cancelled, Task_Terminated}"

fun task_state_debug :: "task_state \<Rightarrow> string" where
  "task_state_debug Task_Created = ''Created''"
| "task_state_debug Task_Admitted = ''Admitted''"
| "task_state_debug Task_Running = ''Running''"
| "task_state_debug Task_Suspended = ''Suspended''"
| "task_state_debug Task_Succeeded = ''Succeeded''"
| "task_state_debug Task_Failed = ''Failed''"
| "task_state_debug Task_Cancelled = ''Cancelled''"
| "task_state_debug Task_Terminated = ''Terminated''"

record task_transition =
  tt_from :: task_state
  tt_to :: task_state
  tt_at :: u64

record task_record =
  tk_schema_version :: u32
  tk_spec :: task_spec
  tk_state :: task_state
  tk_created_at :: u64
  tk_workspace_evidence :: "workspace_evidence option"
  tk_admitted_at :: "u64 option"
  tk_started_at :: "u64 option"
  tk_finished_at :: "u64 option"
  tk_transitions :: "task_transition list"

subsection \<open>Operations\<close>

definition task_create :: "task_spec \<Rightarrow> u64 \<Rightarrow> task_record res" where
  "task_create spec now = rbind (validate_task spec) (\<lambda>_. Inr
     \<lparr>tk_schema_version = TASK_RECORD_SCHEMA_VERSION, tk_spec = spec, tk_state = Task_Created, tk_created_at = now,
      tk_workspace_evidence = None, tk_admitted_at = None, tk_started_at = None, tk_finished_at = None,
      tk_transitions = []\<rparr>)"

text \<open>The time of the last retained transition, or of creation.\<close>

definition task_previous_at :: "task_record \<Rightarrow> u64" where
  "task_previous_at r = (if tk_transitions r = [] then tk_created_at r else tt_at (last (tk_transitions r)))"

definition record_task_transition :: "task_state \<Rightarrow> u64 \<Rightarrow> task_record \<Rightarrow> task_record" where
  "record_task_transition to now r = r\<lparr>tk_state := to,
     tk_admitted_at := (if to = Task_Admitted then get_or_insert now (tk_admitted_at r) else tk_admitted_at r),
     tk_started_at := (if to = Task_Running then get_or_insert now (tk_started_at r) else tk_started_at r),
     tk_finished_at := (if task_is_terminal to then Some now else tk_finished_at r),
     tk_transitions := tk_transitions r @ [\<lparr>tt_from = tk_state r, tt_to = to, tt_at = now\<rparr>]\<rparr>"

definition apply_task_transition :: "task_state \<Rightarrow> u64 \<Rightarrow> task_record \<Rightarrow> unit res \<times> task_record" where
  "apply_task_transition to now r =
     (if \<not> task_can_transition_to (tk_state r) to then (Inl (InvalidTaskTransition (tk_state r) to), r)
      else if now < task_previous_at r then
        (Inl (Validation (Fmt ''task transition timestamp {now} precedes previous lifecycle timestamp {previous_at}''
           [FNat (unat now), FNat (unat (task_previous_at r))])), r)
      else (Inr (), record_task_transition to now r))"

definition task_admit :: "(bytes \<Rightarrow> bytes) \<Rightarrow> evidence_ser \<Rightarrow> workspace_evidence \<Rightarrow> u64 \<Rightarrow> task_record
    \<Rightarrow> unit res \<times> task_record" where
  "task_admit sha ser ev now r =
     (if tk_state r \<noteq> Task_Created then (Inl (InvalidTaskTransition (tk_state r) Task_Admitted), r)
      else case validate_against sha ser ev (ts_workspace (tk_spec r)) of
        Inl e \<Rightarrow> (Inl e, r)
      | Inr _ \<Rightarrow>
          if tk_workspace_evidence r \<noteq> None then
            (Inl (Validation (plain ''task workspace evidence is already recorded'')), r)
          else apply_task_transition Task_Admitted now (r\<lparr>tk_workspace_evidence := Some ev\<rparr>))"

definition task_transition_to :: "task_state \<Rightarrow> u64 \<Rightarrow> task_record \<Rightarrow> unit res \<times> task_record" where
  "task_transition_to to now r =
     (if tk_state r = Task_Created \<and> to = Task_Admitted then
        (Inl (Validation (plain ''task admission requires verified workspace materialization evidence'')), r)
      else apply_task_transition to now r)"

subsection \<open>Validation by replay\<close>

text \<open>The local variables of the replay loop.\<close>

record task_replay =
  rl_state :: task_state
  rl_previous_at :: u64
  rl_admitted_at :: "u64 option"
  rl_started_at :: "u64 option"
  rl_finished_at :: "u64 option"

definition replay_init :: "u64 \<Rightarrow> task_replay" where
  "replay_init created = \<lparr>rl_state = Task_Created, rl_previous_at = created, rl_admitted_at = None,
     rl_started_at = None, rl_finished_at = None\<rparr>"

definition replay_step :: "task_replay \<Rightarrow> task_transition \<Rightarrow> task_replay res" where
  "replay_step s t =
     (if tt_from t \<noteq> rl_state s \<or> \<not> task_can_transition_to (rl_state s) (tt_to t) then
        Inl (Validation (Fmt ''invalid retained task transition {:?} -> {:?} while replay state is {:?}''
          [FDebug (task_state_debug (tt_from t)), FDebug (task_state_debug (tt_to t)), FDebug (task_state_debug (rl_state s))]))
      else if tt_at t < rl_previous_at s then
        Inl (Validation (plain ''task transition timestamps are not monotonic''))
      else Inr
        \<lparr>rl_state = tt_to t, rl_previous_at = tt_at t,
         rl_admitted_at = (if tt_to t = Task_Admitted then get_or_insert (tt_at t) (rl_admitted_at s) else rl_admitted_at s),
         rl_started_at = (if tt_to t = Task_Running then get_or_insert (tt_at t) (rl_started_at s) else rl_started_at s),
         rl_finished_at = (if task_is_terminal (tt_to t) then Some (tt_at t) else rl_finished_at s)\<rparr>)"

definition validate_task_evidence :: "(bytes \<Rightarrow> bytes) \<Rightarrow> evidence_ser \<Rightarrow> task_record \<Rightarrow> unit res" where
  "validate_task_evidence sha ser r =
     (if tk_schema_version r \<ge> 2 then
        (case (tk_admitted_at r, tk_workspace_evidence r) of
           (Some _, Some ev) \<Rightarrow> validate_against sha ser ev (ts_workspace (tk_spec r))
         | (Some _, None) \<Rightarrow> Inl (Validation (plain ''admitted task is missing verified workspace evidence''))
         | (None, Some _) \<Rightarrow> Inl (Validation (plain ''workspace evidence cannot be retained before task admission''))
         | (None, None) \<Rightarrow> Inr ())
      else if tk_workspace_evidence r \<noteq> None then
        Inl (Validation (plain ''legacy task record schema cannot carry workspace evidence''))
      else Inr ())"

definition validate_task_record :: "(bytes \<Rightarrow> bytes) \<Rightarrow> evidence_ser \<Rightarrow> task_record \<Rightarrow> unit res" where
  "validate_task_record sha ser r =
     (if tk_schema_version r < MIN_TASK_RECORD_SCHEMA_VERSION \<or> TASK_RECORD_SCHEMA_VERSION < tk_schema_version r then
        Inl (Validation (Fmt ''unsupported task record schema_version {}; supported range is {MIN_TASK_RECORD_SCHEMA_VERSION}..={TASK_RECORD_SCHEMA_VERSION}''
          [FNat (unat (tk_schema_version r)), FNat 1, FNat 2]))
      else
        rbind (validate_task (tk_spec r)) (\<lambda>_.
        rbind (try_fold replay_step (replay_init (tk_created_at r)) (tk_transitions r)) (\<lambda>s.
          if rl_state s \<noteq> tk_state r then
            Inl (Validation (Fmt ''task state {:?} does not match replayed state {:?}''
              [FDebug (task_state_debug (tk_state r)), FDebug (task_state_debug (rl_state s))]))
          else if tk_admitted_at r \<noteq> rl_admitted_at s \<or> tk_started_at r \<noteq> rl_started_at s
              \<or> tk_finished_at r \<noteq> rl_finished_at s then
            Inl (Validation (plain ''task lifecycle timestamps do not match retained transitions''))
          else validate_task_evidence sha ser r)))"

definition validate_evidence_update :: "task_record \<Rightarrow> task_record \<Rightarrow> unit res" where
  "validate_evidence_update p c =
     (case (tk_workspace_evidence p, tk_workspace_evidence c) of
        (Some before, Some after) \<Rightarrow>
          if before \<noteq> after then Inl (Validation (plain ''task workspace evidence cannot change after admission''))
          else Inr ()
      | (Some _, None) \<Rightarrow> Inl (Validation (plain ''task workspace evidence cannot be removed''))
      | (None, Some _) \<Rightarrow>
          if \<not> list_ex (\<lambda>t. tt_to t = Task_Admitted) (drop (length (tk_transitions p)) (tk_transitions c)) then
            Inl (Validation (plain ''workspace evidence may be added only with an admission transition''))
          else Inr ()
      | (None, None) \<Rightarrow> Inr ())"

definition validate_task_snapshot_update :: "(bytes \<Rightarrow> bytes) \<Rightarrow> evidence_ser \<Rightarrow> task_record \<Rightarrow> task_record \<Rightarrow> unit res" where
  "validate_task_snapshot_update sha ser p c =
     rbind (validate_task_record sha ser p) (\<lambda>_.
     rbind (validate_task_record sha ser c) (\<lambda>_.
       if tk_schema_version p \<noteq> tk_schema_version c \<or> tk_spec p \<noteq> tk_spec c \<or> tk_created_at p \<noteq> tk_created_at c then
         Inl (Validation (plain ''task immutable schema/identity/spec/creation time cannot change''))
       else
         rbind (validate_evidence_update p c) (\<lambda>_.
           if length (tk_transitions c) < length (tk_transitions p)
               \<or> take (length (tk_transitions p)) (tk_transitions c) \<noteq> tk_transitions p then
             Inl (Validation (plain ''task update must preserve the complete previous transition prefix''))
           else if length (tk_transitions c) = length (tk_transitions p) \<and> c \<noteq> p then
             Inl (Validation (plain ''task update without a new transition must be identical''))
           else Inr ())))"

subsection \<open>The in-memory repository\<close>

type_synonym tasks = "(task_id, task_record) btree"

definition tasks_put :: "(bytes \<Rightarrow> bytes) \<Rightarrow> evidence_ser \<Rightarrow> task_record \<Rightarrow> tasks \<Rightarrow> tasks res" where
  "tasks_put sha ser r s =
     rbind (validate_task_record sha ser r) (\<lambda>_.
     rbind (case bt_get s (ts_id (tk_spec r)) of
              Some previous \<Rightarrow> validate_task_snapshot_update sha ser previous r
            | None \<Rightarrow> Inr ()) (\<lambda>_.
       Inr (bt_insert (ts_id (tk_spec r)) r s)))"

definition tasks_get :: "tasks \<Rightarrow> task_id \<Rightarrow> task_record option" where
  "tasks_get s i = bt_get s i"

definition tasks_list :: "tasks \<Rightarrow> task_record list" where
  "tasks_list s = sort_key (\<lambda>r. (tk_created_at r, ts_id (tk_spec r))) (bt_values s)"

section \<open>Specifications\<close>

text \<open>The record's own values of the replay variables.\<close>

definition replay_of :: "task_record \<Rightarrow> task_replay" where
  "replay_of r = \<lparr>rl_state = tk_state r, rl_previous_at = task_previous_at r, rl_admitted_at = tk_admitted_at r,
     rl_started_at = tk_started_at r, rl_finished_at = tk_finished_at r\<rparr>"

definition evidence_ok :: "(bytes \<Rightarrow> bytes) \<Rightarrow> evidence_ser \<Rightarrow> task_record \<Rightarrow> bool" where
  "evidence_ok sha ser r \<longleftrightarrow> (if tk_schema_version r = 2 then
      (case tk_workspace_evidence r of
         None \<Rightarrow> tk_admitted_at r = None
       | Some ev \<Rightarrow> tk_admitted_at r \<noteq> None \<and> validate_against sha ser ev (ts_workspace (tk_spec r)) = Inr ())
      else tk_workspace_evidence r = None)"

definition task_record_wf :: "(bytes \<Rightarrow> bytes) \<Rightarrow> evidence_ser \<Rightarrow> task_record \<Rightarrow> bool" where
  "task_record_wf sha ser r \<longleftrightarrow> tk_schema_version r \<in> {1, 2} \<and> task_wf (tk_spec r)
     \<and> try_fold replay_step (replay_init (tk_created_at r)) (tk_transitions r) = Inr (replay_of r)
     \<and> evidence_ok sha ser r"

text \<open>One accepted lifecycle operation.\<close>

inductive task_step :: "(bytes \<Rightarrow> bytes) \<Rightarrow> evidence_ser \<Rightarrow> task_record \<Rightarrow> task_record \<Rightarrow> bool"
  for sha ser where
  step_admit: "task_admit sha ser ev now r = (Inr (), r') \<Longrightarrow> task_step sha ser r r'"
| step_transition: "task_transition_to to now r = (Inr (), r') \<Longrightarrow> task_step sha ser r r'"

text \<open>A later snapshot continues an earlier one.\<close>

definition task_extends :: "task_record \<Rightarrow> task_record \<Rightarrow> bool" where
  "task_extends p c \<longleftrightarrow> tk_schema_version c = tk_schema_version p \<and> tk_spec c = tk_spec p
     \<and> tk_created_at c = tk_created_at p \<and> prefix (tk_transitions p) (tk_transitions c)
     \<and> (tk_workspace_evidence p = None \<or> tk_workspace_evidence c = tk_workspace_evidence p)"

section \<open>Facts\<close>

subsection \<open>Replay and application agree\<close>

lemma schema_range: "\<not> (v < MIN_TASK_RECORD_SCHEMA_VERSION \<or> TASK_RECORD_SCHEMA_VERSION < v) \<longleftrightarrow> v \<in> {1, 2}"
proof -
  have "v \<in> {1, 2} \<longleftrightarrow> unat v \<in> {1, 2}" by (auto simp: word_unat_eq_iff)
  moreover have "v < 1 \<longleftrightarrow> unat v < 1" "2 < v \<longleftrightarrow> 2 < unat v" by (simp_all add: word_less_nat_alt)
  ultimately show ?thesis
    unfolding MIN_TASK_RECORD_SCHEMA_VERSION_def TASK_RECORD_SCHEMA_VERSION_def by auto
qed

lemma replay_step_Inr_iff:
  "replay_step s t = Inr s' \<longleftrightarrow> tt_from t = rl_state s \<and> task_can_transition_to (rl_state s) (tt_to t)
     \<and> rl_previous_at s \<le> tt_at t \<and> s' = \<lparr>rl_state = tt_to t, rl_previous_at = tt_at t,
         rl_admitted_at = (if tt_to t = Task_Admitted then get_or_insert (tt_at t) (rl_admitted_at s) else rl_admitted_at s),
         rl_started_at = (if tt_to t = Task_Running then get_or_insert (tt_at t) (rl_started_at s) else rl_started_at s),
         rl_finished_at = (if task_is_terminal (tt_to t) then Some (tt_at t) else rl_finished_at s)\<rparr>"
  by (auto simp: replay_step_def not_less)

lemma replay_stepD:
  assumes "replay_step s t = Inr s'"
  shows "tt_from t = rl_state s" "task_can_transition_to (rl_state s) (tt_to t)" "rl_previous_at s \<le> tt_at t"
    "rl_state s' = tt_to t" "rl_previous_at s' = tt_at t"
  using assms unfolding replay_step_Inr_iff by simp_all

lemma apply_task_transition_Inr_iff:
  "apply_task_transition to now r = (Inr u, r') \<longleftrightarrow> task_can_transition_to (tk_state r) to \<and> task_previous_at r \<le> now
     \<and> r' = record_task_transition to now r"
  by (auto simp: apply_task_transition_def not_less)

lemma record_task_transition_fields [simp]:
  "tk_schema_version (record_task_transition to now r) = tk_schema_version r"
  "tk_spec (record_task_transition to now r) = tk_spec r"
  "tk_created_at (record_task_transition to now r) = tk_created_at r"
  "tk_workspace_evidence (record_task_transition to now r) = tk_workspace_evidence r"
  "tk_state (record_task_transition to now r) = to"
  "tk_transitions (record_task_transition to now r) =
     tk_transitions r @ [\<lparr>tt_from = tk_state r, tt_to = to, tt_at = now\<rparr>]"
  "tk_admitted_at (record_task_transition to now r) =
     (if to = Task_Admitted then get_or_insert now (tk_admitted_at r) else tk_admitted_at r)"
  "tk_started_at (record_task_transition to now r) =
     (if to = Task_Running then get_or_insert now (tk_started_at r) else tk_started_at r)"
  "tk_finished_at (record_task_transition to now r) = (if task_is_terminal to then Some now else tk_finished_at r)"
  by (simp_all add: record_task_transition_def)

text \<open>Appending a transition to a record is one replay step.\<close>

lemma apply_is_replay:
  assumes "task_can_transition_to (tk_state r) to" and "task_previous_at r \<le> now"
  shows "replay_step (replay_of r) \<lparr>tt_from = tk_state r, tt_to = to, tt_at = now\<rparr> =
      Inr (replay_of (record_task_transition to now r))"
proof -
  have "task_previous_at (record_task_transition to now r) = now" by (simp add: task_previous_at_def)
  then have "replay_of (record_task_transition to now r) = \<lparr>rl_state = to, rl_previous_at = now,
      rl_admitted_at = (if to = Task_Admitted then get_or_insert now (tk_admitted_at r) else tk_admitted_at r),
      rl_started_at = (if to = Task_Running then get_or_insert now (tk_started_at r) else tk_started_at r),
      rl_finished_at = (if task_is_terminal to then Some now else tk_finished_at r)\<rparr>"
    unfolding replay_of_def by (simp only: record_task_transition_fields)
  with assms show ?thesis unfolding replay_step_Inr_iff by (simp add: replay_of_def del: if_split)
qed

lemma replay_previous:
  "try_fold replay_step s ts = Inr s' \<Longrightarrow>
     rl_previous_at s' = (if ts = [] then rl_previous_at s else tt_at (last ts))"
proof (induction ts arbitrary: s)
  case (Cons t ts)
  then obtain m where m: "replay_step s t = Inr m" and "try_fold replay_step m ts = Inr s'"
    unfolding try_fold_Cons_iff by blast
  with Cons.IH[of m] replay_stepD(5)[OF m] show ?case by simp
qed simp

lemma not_to_Created: "\<not> task_can_transition_to s Task_Created"
  by (cases s) auto

lemma to_Admitted: "task_can_transition_to s Task_Admitted \<longleftrightarrow> s = Task_Created"
  by (cases s) auto

lemma terminal_stuck: "task_is_terminal s \<Longrightarrow> \<not> task_can_transition_to s s'"
  by (cases s) (auto simp: task_is_terminal_def)

lemma replay_leaves_Created:
  "try_fold replay_step s ts = Inr s' \<Longrightarrow> rl_state s' = Task_Created \<Longrightarrow> ts = []"
proof (induction ts rule: rev_induct)
  case (snoc t ts)
  then obtain m where "try_fold replay_step s ts = Inr m" "replay_step m t = Inr s'"
    unfolding try_fold_snoc_iff by blast
  with snoc.prems(2) show ?case using replay_stepD not_to_Created by metis
qed simp

lemma replay_terminal:
  "task_is_terminal (rl_state s) \<Longrightarrow> try_fold replay_step s ts = Inr s' \<Longrightarrow> ts = []"
  by (cases ts) (auto simp: try_fold_Cons_iff terminal_stuck simp del: try_fold.simps(2) dest!: replay_stepD(2))

subsection \<open>Validation\<close>

lemma validate_task_evidence_iff:
  assumes "tk_schema_version r \<in> {1, 2}"
  shows "validate_task_evidence sha ser r = Inr u \<longleftrightarrow> evidence_ok sha ser r"
proof -
  have "\<not> (2::u32) \<le> 1" by (simp add: word_le_nat_alt)
  with assms show ?thesis
    by (cases "tk_admitted_at r"; cases "tk_workspace_evidence r")
      (auto simp: validate_task_evidence_def evidence_ok_def)
qed

lemma validate_task_record_iff: "validate_task_record sha ser r = Inr u \<longleftrightarrow> task_record_wf sha ser r"
proof (cases "tk_schema_version r \<in> {1, 2}")
  case True
  have eq: "s = replay_of r \<longleftrightarrow> rl_state s = tk_state r \<and> tk_admitted_at r = rl_admitted_at s
      \<and> tk_started_at r = rl_started_at s \<and> tk_finished_at r = rl_finished_at s"
    if "try_fold replay_step (replay_init (tk_created_at r)) (tk_transitions r) = Inr s" for s
    using replay_previous[OF that]
    by (cases s) (auto simp: replay_of_def task_previous_at_def replay_init_def)
  show ?thesis unfolding validate_task_record_def if_Inl_iff schema_range
    using True validate_task_evidence_iff[OF True]
    by (cases "try_fold replay_step (replay_init (tk_created_at r)) (tk_transitions r)")
      (auto simp: task_record_wf_def result_simps eq)
next
  case False
  then show ?thesis unfolding validate_task_record_def task_record_wf_def if_Inl_iff schema_range by simp
qed

lemma replay_prefix_state:
  assumes "task_record_wf sha ser p" and "task_record_wf sha ser c" and "tk_created_at c = tk_created_at p"
    and "tk_transitions c = tk_transitions p @ ts"
  shows "try_fold replay_step (replay_of p) ts = Inr (replay_of c)"
  using assms by (simp add: task_record_wf_def try_fold_append)

lemma replay_of_inject:
  "replay_of r = replay_of r' \<Longrightarrow> tk_state r = tk_state r' \<and> tk_admitted_at r = tk_admitted_at r'
     \<and> tk_started_at r = tk_started_at r' \<and> tk_finished_at r = tk_finished_at r'"
  by (simp add: replay_of_def)

text \<open>A well-formed continuation is determined by the added transitions and the evidence.\<close>

lemma record_determined:
  assumes "replay_of r = replay_of c" and "tk_transitions r = tk_transitions c"
    and "tk_schema_version r = tk_schema_version c" and "tk_spec r = tk_spec c" and "tk_created_at r = tk_created_at c"
    and "tk_workspace_evidence r = tk_workspace_evidence c"
  shows "r = c"
  using assms replay_of_inject[OF assms(1)] by (intro task_record.equality) auto

lemma replay_admitted:
  "try_fold replay_step s ts = Inr s' \<Longrightarrow> rl_admitted_at s = None \<Longrightarrow>
     rl_admitted_at s' \<noteq> None \<longleftrightarrow> list_ex (\<lambda>t. tt_to t = Task_Admitted) ts"
proof (induction ts arbitrary: s' rule: rev_induct)
  case (snoc t ts)
  then obtain m where m: "try_fold replay_step s ts = Inr m" and st: "replay_step m t = Inr s'"
    unfolding try_fold_snoc_iff by blast
  have "rl_admitted_at s' = (if tt_to t = Task_Admitted then get_or_insert (tt_at t) (rl_admitted_at m) else rl_admitted_at m)"
    using st by (simp add: replay_step_Inr_iff)
  then show ?case using snoc.IH[OF m snoc.prems(2)]
    by (auto simp: get_or_insert_def split: option.splits)
qed simp

lemma validate_task_snapshot_update_iff:
  "validate_task_snapshot_update sha ser p c = Inr u \<longleftrightarrow>
     task_record_wf sha ser p \<and> task_record_wf sha ser c \<and> task_extends p c"
proof (cases "task_record_wf sha ser p \<and> task_record_wf sha ser c \<and> tk_schema_version c = tk_schema_version p
    \<and> tk_spec c = tk_spec p \<and> tk_created_at c = tk_created_at p")
  case True
  let ?pre = "prefix (tk_transitions p) (tk_transitions c)"
  have pre: "\<not> (length (tk_transitions c) < length (tk_transitions p)
      \<or> take (length (tk_transitions p)) (tk_transitions c) \<noteq> tk_transitions p) \<longleftrightarrow> ?pre"
    by (metis append_eq_conv_conj append_take_drop_id leD length_append le_add1 not_le_imp_less nat_le_linear prefix_def take_all)
  have same: "c = p" if "tk_transitions c = tk_transitions p" "validate_evidence_update p c = Inr ()"
    using True that by (intro record_determined)
      (auto simp: validate_evidence_update_def task_record_wf_def split: option.splits if_splits)
  have ev: "validate_evidence_update p c = Inr u \<longleftrightarrow>
      tk_workspace_evidence p = None \<or> tk_workspace_evidence c = tk_workspace_evidence p" if pre': ?pre for u
  proof (cases "tk_workspace_evidence p = None \<and> tk_workspace_evidence c \<noteq> None")
    case both: True
    then have "tk_schema_version c = 2" "tk_admitted_at c \<noteq> None" "tk_admitted_at p = None"
      using True by (auto simp: task_record_wf_def evidence_ok_def split: if_splits option.splits)
    moreover obtain ts where ts: "tk_transitions c = tk_transitions p @ ts" using pre' by (auto simp: prefix_def)
    moreover have "try_fold replay_step (replay_of p) ts = Inr (replay_of c)"
      using True ts by (intro replay_prefix_state) auto
    ultimately have "list_ex (\<lambda>t. tt_to t = Task_Admitted) ts"
      using replay_admitted by (fastforce simp: replay_of_def)
    then show ?thesis using both ts by (auto simp: validate_evidence_update_def)
  qed (auto simp: validate_evidence_update_def split: option.splits)
  have "validate_task_snapshot_update sha ser p c = Inr u \<longleftrightarrow> validate_evidence_update p c = Inr () \<and> ?pre
      \<and> (length (tk_transitions c) = length (tk_transitions p) \<longrightarrow> c = p)"
    unfolding validate_task_snapshot_update_def rbind_Inr_iff validate_task_record_iff if_Inl_iff pre
    using True by auto
  also have "\<dots> \<longleftrightarrow> task_extends p c"
    unfolding task_extends_def using True ev same by (auto simp: prefix_def)
  finally show ?thesis using True by blast
next
  case False
  then show ?thesis
    unfolding validate_task_snapshot_update_def rbind_Inr_iff validate_task_record_iff if_Inl_iff task_extends_def
    by auto
qed

subsection \<open>Accepted operations\<close>

lemma task_admit_Inr_iff:
  "task_admit sha ser ev now r = (Inr u, r') \<longleftrightarrow> tk_state r = Task_Created
     \<and> validate_against sha ser ev (ts_workspace (tk_spec r)) = Inr () \<and> tk_workspace_evidence r = None
     \<and> task_previous_at r \<le> now \<and> r' = record_task_transition Task_Admitted now (r\<lparr>tk_workspace_evidence := Some ev\<rparr>)"
  by (auto simp: task_admit_def apply_task_transition_Inr_iff task_previous_at_def split: sum.splits)

lemma task_transition_to_Inr_iff:
  "task_transition_to to now r = (Inr u, r') \<longleftrightarrow> to \<noteq> Task_Admitted \<and> task_can_transition_to (tk_state r) to
     \<and> task_previous_at r \<le> now \<and> r' = record_task_transition to now r"
  by (auto simp: task_transition_to_def apply_task_transition_Inr_iff to_Admitted)

lemma record_task_transition_replay:
  assumes "try_fold replay_step (replay_init (tk_created_at r)) (tk_transitions r) = Inr (replay_of r)"
    and "task_can_transition_to (tk_state r) to" and "task_previous_at r \<le> now"
  shows "try_fold replay_step (replay_init (tk_created_at r)) (tk_transitions (record_task_transition to now r)) =
     Inr (replay_of (record_task_transition to now r))"
  unfolding record_task_transition_fields try_fold_snoc_iff using assms apply_is_replay by blast

lemma task_step_wf:
  assumes "task_step sha ser r r'" and "task_record_wf sha ser r" and "tk_schema_version r = 2"
  shows "task_record_wf sha ser r' \<and> tk_schema_version r' = 2 \<and> task_extends r r'"
  using assms(1)
proof cases
  case (step_admit ev now)
  let ?q = "r\<lparr>tk_workspace_evidence := Some ev\<rparr>"
  have a: "tk_state r = Task_Created" "validate_against sha ser ev (ts_workspace (tk_spec r)) = Inr ()"
    "tk_workspace_evidence r = None" "task_previous_at r \<le> now" and r': "r' = record_task_transition Task_Admitted now ?q"
    using step_admit by (auto simp: task_admit_Inr_iff)
  have same: "replay_of ?q = replay_of r" "task_previous_at ?q = task_previous_at r"
    by (simp_all add: replay_of_def task_previous_at_def)
  have "try_fold replay_step (replay_init (tk_created_at ?q)) (tk_transitions r') = Inr (replay_of r')"
    unfolding r' by (rule record_task_transition_replay) (use a same assms(2) in \<open>auto simp: task_record_wf_def\<close>)
  then show ?thesis using assms(2,3) a
    by (auto simp: r' task_record_wf_def evidence_ok_def task_extends_def get_or_insert_def split: option.splits)
next
  case (step_transition to now)
  then have a: "to \<noteq> Task_Admitted" "task_can_transition_to (tk_state r) to" "task_previous_at r \<le> now"
    and r': "r' = record_task_transition to now r"
    by (auto simp: task_transition_to_Inr_iff)
  have "try_fold replay_step (replay_init (tk_created_at r)) (tk_transitions r') = Inr (replay_of r')"
    unfolding r' by (rule record_task_transition_replay) (use a assms(2) in \<open>auto simp: task_record_wf_def\<close>)
  then show ?thesis using assms(2,3) a
    by (simp add: r' task_record_wf_def evidence_ok_def task_extends_def split: option.splits)
qed

lemma task_extends_trans: "task_extends a b \<Longrightarrow> task_extends b c \<Longrightarrow> task_extends a c"
  by (auto simp: task_extends_def intro: prefix_order.trans)

lemma task_extends_refl [simp]: "task_extends r r"
  by (simp add: task_extends_def)

lemma task_steps_wf:
  assumes "(task_step sha ser)\<^sup>*\<^sup>* r r'" and "task_record_wf sha ser r" and "tk_schema_version r = 2"
  shows "task_record_wf sha ser r' \<and> tk_schema_version r' = 2 \<and> task_extends r r'"
  using assms
proof (induction rule: rtranclp_induct)
  case (step y z)
  then show ?case using task_step_wf task_extends_trans by blast
qed simp

text \<open>Replaying transitions after admission is a sequence of \<open>transition\<close> calls.\<close>

lemma replay_is_steps:
  "try_fold replay_step (replay_of r) ts = Inr s \<Longrightarrow> tk_state r \<noteq> Task_Created \<Longrightarrow>
   \<exists>r'. (task_step sha ser)\<^sup>*\<^sup>* r r' \<and> replay_of r' = s \<and> tk_transitions r' = tk_transitions r @ ts
     \<and> tk_schema_version r' = tk_schema_version r \<and> tk_spec r' = tk_spec r \<and> tk_created_at r' = tk_created_at r
     \<and> tk_workspace_evidence r' = tk_workspace_evidence r"
proof (induction ts arbitrary: r)
  case (Cons t ts)
  then obtain m where m: "replay_step (replay_of r) t = Inr m" "try_fold replay_step m ts = Inr s"
    unfolding try_fold_Cons_iff by blast
  have t: "tt_from t = tk_state r" "task_can_transition_to (tk_state r) (tt_to t)" "task_previous_at r \<le> tt_at t"
    using replay_stepD[OF m(1)] by (simp_all add: replay_of_def)
  then have eq: "t = \<lparr>tt_from = tk_state r, tt_to = tt_to t, tt_at = tt_at t\<rparr>" by simp
  define q where "q = record_task_transition (tt_to t) (tt_at t) r"
  have "m = replay_of q" using m(1) eq apply_is_replay[OF t(2,3)] by (simp add: q_def)
  moreover have "tk_state q \<noteq> Task_Created" using t(2) not_to_Created by (auto simp: q_def)
  ultimately obtain r' where r': "(task_step sha ser)\<^sup>*\<^sup>* q r'" "replay_of r' = s" "tk_transitions r' = tk_transitions q @ ts"
      "tk_schema_version r' = tk_schema_version q" "tk_spec r' = tk_spec q" "tk_created_at r' = tk_created_at q"
      "tk_workspace_evidence r' = tk_workspace_evidence q"
    using Cons.IH[of q] m(2) by blast
  have "tt_to t \<noteq> Task_Admitted" using t(2) Cons.prems(2) to_Admitted by metis
  then have "task_transition_to (tt_to t) (tt_at t) r = (Inr (), q)" using t by (simp add: task_transition_to_Inr_iff q_def)
  then have "(task_step sha ser)\<^sup>*\<^sup>* r r'" using r'(1) by (meson converse_rtranclp_into_rtranclp step_transition)
  moreover have "tk_transitions r' = tk_transitions r @ t # ts" using r'(3) eq by (simp add: q_def)
  ultimately show ?case using r' by (auto simp: q_def)
qed auto

lemma same_replay_same_record:
  assumes "task_record_wf sha ser r" and "task_record_wf sha ser c" and "tk_schema_version c = 2"
    and "replay_of r = replay_of c" and "tk_transitions r = tk_transitions c" and "tk_schema_version r = tk_schema_version c"
    and "tk_spec r = tk_spec c" and "tk_created_at r = tk_created_at c"
    and "tk_workspace_evidence r = None \<or> tk_workspace_evidence c = tk_workspace_evidence r"
  shows "r = c"
proof (rule record_determined)
  show "tk_workspace_evidence r = tk_workspace_evidence c"
    using assms replay_of_inject[OF assms(4)]
    by (auto simp: task_record_wf_def evidence_ok_def split: option.splits)
qed (use assms in simp_all)

lemma later_steps:
  assumes q: "task_step sha ser p q" and p: "task_record_wf sha ser p" "tk_schema_version p = 2"
    and c: "task_record_wf sha ser c" "tk_schema_version c = 2" "tk_spec c = tk_spec q" "tk_created_at c = tk_created_at q"
      "tk_transitions c = tk_transitions q @ ts"
    and e: "tk_workspace_evidence q = None \<or> tk_workspace_evidence c = tk_workspace_evidence q"
    and state: "tk_state q \<noteq> Task_Created"
  shows "(task_step sha ser)\<^sup>*\<^sup>* p c"
proof -
  have w: "task_record_wf sha ser q" "tk_schema_version q = 2" using task_step_wf[OF q p] by auto
  have "try_fold replay_step (replay_of q) ts = Inr (replay_of c)" by (rule replay_prefix_state) (use w c in auto)
  then obtain r where r: "(task_step sha ser)\<^sup>*\<^sup>* q r" "replay_of r = replay_of c" "tk_transitions r = tk_transitions q @ ts"
     "tk_schema_version r = tk_schema_version q" "tk_spec r = tk_spec q" "tk_created_at r = tk_created_at q"
     "tk_workspace_evidence r = tk_workspace_evidence q"
    using replay_is_steps[OF _ state] by blast
  have "r = c"
    by (rule same_replay_same_record[of sha ser]) (use r c e w task_steps_wf[OF r(1) w] in auto)
  then show ?thesis using q r(1) by (meson converse_rtranclp_into_rtranclp)
qed

lemma created_fresh:
  assumes "task_record_wf sha ser p" and "tk_schema_version p = 2" and "tk_state p = Task_Created"
  shows "tk_transitions p = []" and "tk_workspace_evidence p = None" and "task_previous_at p = tk_created_at p"
proof -
  have replay: "try_fold replay_step (replay_init (tk_created_at p)) (tk_transitions p) = Inr (replay_of p)"
    using assms(1) by (simp add: task_record_wf_def)
  show t: "tk_transitions p = []" by (rule replay_leaves_Created[OF replay]) (simp add: replay_of_def assms(3))
  then show "task_previous_at p = tk_created_at p" by (simp add: task_previous_at_def)
  have "tk_admitted_at p = None" using replay t by (simp add: replay_init_def replay_of_def)
  then show "tk_workspace_evidence p = None" using assms by (auto simp: task_record_wf_def evidence_ok_def split: option.splits)
qed

lemma created_steps:
  assumes p: "task_record_wf sha ser p" "tk_schema_version p = 2" "tk_state p = Task_Created"
    and c: "task_record_wf sha ser c" "task_extends p c" "tk_transitions c = t # ts"
  shows "(task_step sha ser)\<^sup>*\<^sup>* p c"
proof -
  note fresh = created_fresh[OF p]
  have same: "tk_schema_version c = 2" "tk_spec c = tk_spec p" "tk_created_at c = tk_created_at p"
    using c(2) p(2) by (auto simp: task_extends_def)
  have "try_fold replay_step (replay_of p) (t # ts) = Inr (replay_of c)"
    by (rule replay_prefix_state) (use p c same fresh in auto)
  then obtain m where m: "replay_step (replay_of p) t = Inr m" unfolding try_fold_Cons_iff by blast
  have t: "tt_from t = Task_Created" "task_can_transition_to Task_Created (tt_to t)" "tk_created_at p \<le> tt_at t"
    using replay_stepD[OF m] p(3) fresh(3) by (simp_all add: replay_of_def del: task_can_transition_to.simps)
  then have eq: "t = \<lparr>tt_from = Task_Created, tt_to = tt_to t, tt_at = tt_at t\<rparr>" by simp
  have state: "tt_to t \<noteq> Task_Created" using t(2) by auto
  show ?thesis
  proof (cases "tt_to t = Task_Admitted")
    case True
    have "tk_admitted_at c \<noteq> None"
      using replay_admitted[of "replay_init (tk_created_at c)" "t # ts" "replay_of c"] c(1,3) True
      by (simp add: task_record_wf_def replay_of_def replay_init_def del: try_fold.simps)
    then obtain ev where ev: "tk_workspace_evidence c = Some ev" "validate_against sha ser ev (ts_workspace (tk_spec p)) = Inr ()"
      using c(1) same by (auto simp: task_record_wf_def evidence_ok_def split: option.splits)
    let ?q = "record_task_transition Task_Admitted (tt_at t) (p\<lparr>tk_workspace_evidence := Some ev\<rparr>)"
    have "task_admit sha ser ev (tt_at t) p = (Inr (), ?q)"
      using p(3) ev fresh t(3) by (simp add: task_admit_Inr_iff)
    then have "task_step sha ser p ?q" by (rule step_admit)
    then show ?thesis by (rule later_steps[where ts = ts]) (use p c same eq True ev fresh in auto)
  next
    case False
    let ?q = "record_task_transition (tt_to t) (tt_at t) p"
    have "task_transition_to (tt_to t) (tt_at t) p = (Inr (), ?q)"
      using p(3) fresh t False by (simp add: task_transition_to_Inr_iff)
    then have "task_step sha ser p ?q" by (rule step_transition)
    then show ?thesis by (rule later_steps[where ts = ts]) (use p c same eq state fresh in auto)
  qed
qed

lemma extends_is_steps:
  assumes p: "task_record_wf sha ser p" "tk_schema_version p = 2" and c: "task_record_wf sha ser c" "task_extends p c"
  shows "(task_step sha ser)\<^sup>*\<^sup>* p c"
proof -
  obtain ts where ts: "tk_transitions c = tk_transitions p @ ts" using c(2) by (auto simp: task_extends_def prefix_def)
  have same: "tk_schema_version c = 2" "tk_spec c = tk_spec p" "tk_created_at c = tk_created_at p"
      "tk_workspace_evidence p = None \<or> tk_workspace_evidence c = tk_workspace_evidence p"
    using c(2) p(2) by (auto simp: task_extends_def)
  have replay: "try_fold replay_step (replay_of p) ts = Inr (replay_of c)"
    by (rule replay_prefix_state) (use p c same ts in auto)
  consider "ts = []" | t ts' where "ts = t # ts'" "tk_state p = Task_Created" | t ts' where "ts = t # ts'" "tk_state p \<noteq> Task_Created"
    by (cases ts) auto
  then show ?thesis
  proof cases
    case 1
    then have "p = c" using replay p c ts same by (intro same_replay_same_record[of sha ser]) auto
    then show ?thesis by simp
  next
    case (2 t ts')
    then show ?thesis using created_fresh[OF p] ts by (intro created_steps[OF p _ c, of t ts']) auto
  next
    case (3 t ts')
    obtain r where r: "(task_step sha ser)\<^sup>*\<^sup>* p r" "replay_of r = replay_of c" "tk_transitions r = tk_transitions p @ ts"
       "tk_schema_version r = tk_schema_version p" "tk_spec r = tk_spec p" "tk_created_at r = tk_created_at p"
       "tk_workspace_evidence r = tk_workspace_evidence p"
      using replay_is_steps[OF replay 3(2)] by blast
    have "r = c"
      by (rule same_replay_same_record[of sha ser]) (use r c same p ts task_steps_wf[OF r(1) p] in auto)
    then show ?thesis using r(1) by simp
  qed
qed

subsection \<open>The repository contract\<close>

lemma tasks_put_Inr_iff:
  "tasks_put sha ser r s = Inr s' \<longleftrightarrow> task_record_wf sha ser r
     \<and> (\<forall>p. bt_get s (ts_id (tk_spec r)) = Some p \<longrightarrow> task_record_wf sha ser p \<and> task_extends p r)
     \<and> s' = bt_insert (ts_id (tk_spec r)) r s"
  by (auto simp: tasks_put_def rbind_Inr_iff validate_task_record_iff validate_task_snapshot_update_iff split: option.splits)

text \<open>\<open>TaskRepository\<close>: only validated continuations of what is stored are accepted.\<close>

locale task_repository =
  fixes valid :: "task_record \<Rightarrow> bool" and put :: "task_record \<Rightarrow> 's \<Rightarrow> 's res"
    and get :: "'s \<Rightarrow> task_id \<Rightarrow> task_record option"
  assumes put_valid: "put r s = Inr s' \<Longrightarrow> valid r"
    and put_extends: "put r s = Inr s' \<Longrightarrow> get s (ts_id (tk_spec r)) = Some p \<Longrightarrow> task_extends p r"
    and get_put: "put r s = Inr s' \<Longrightarrow> get s' i = (if i = ts_id (tk_spec r) then Some r else get s i)"
begin

definition offer :: "task_record \<Rightarrow> 's \<Rightarrow> 's" where
  "offer r s = (case put r s of Inl _ \<Rightarrow> s | Inr s' \<Rightarrow> s')"

lemma offer_extends:
  assumes "get s i = Some p" and "valid p"
  shows "\<exists>c. get (offer r s) i = Some c \<and> valid c \<and> task_extends p c"
proof (cases "put r s")
  case (Inr s')
  then show ?thesis using assms get_put[OF Inr] put_valid[OF Inr] put_extends[OF Inr]
    by (cases "i = ts_id (tk_spec r)") (auto simp: offer_def)
qed (use assms in \<open>simp add: offer_def\<close>)

lemma offers_extend:
  assumes "get s i = Some p" and "valid p"
  shows "\<exists>c. get (fold offer rs s) i = Some c \<and> valid c \<and> task_extends p c"
  using assms
proof (induction rs arbitrary: s p)
  case (Cons r rs)
  obtain q where q: "get (offer r s) i = Some q" "valid q" "task_extends p q"
    using offer_extends[OF Cons.prems] by blast
  with Cons.IH[OF q(1,2)] show ?case by (auto intro: task_extends_trans)
qed simp

end

interpretation memory_tasks: task_repository "task_record_wf sha ser" "tasks_put sha ser" tasks_get
  for sha :: "bytes \<Rightarrow> bytes" and ser :: evidence_ser
  by unfold_locales (auto simp: tasks_put_Inr_iff tasks_get_def)

text \<open>A refused write leaves the store unchanged.\<close>

definition tasks_offer :: "(bytes \<Rightarrow> bytes) \<Rightarrow> evidence_ser \<Rightarrow> task_record \<Rightarrow> tasks \<Rightarrow> tasks" where
  "tasks_offer sha ser r s = (case tasks_put sha ser r s of Inl _ \<Rightarrow> s | Inr s' \<Rightarrow> s')"

lemma tasks_offer_eq: "tasks_offer sha ser = memory_tasks.offer sha ser"
  by (intro ext) (simp add: tasks_offer_def memory_tasks.offer_def)

lemma terminal_final:
  assumes "task_record_wf sha ser p" and "task_record_wf sha ser c" and "task_extends p c" and "task_is_terminal (tk_state p)"
  shows "c = p"
proof -
  obtain ts where ts: "tk_transitions c = tk_transitions p @ ts" using assms(3) by (auto simp: task_extends_def prefix_def)
  have replay: "try_fold replay_step (replay_of p) ts = Inr (replay_of c)"
    by (rule replay_prefix_state) (use assms ts in \<open>auto simp: task_extends_def\<close>)
  have "ts = []" by (rule replay_terminal[OF _ replay]) (simp add: replay_of_def assms(4))
  then have eq: "replay_of p = replay_of c" "tk_transitions p = tk_transitions c" using replay ts by auto
  show ?thesis
  proof (cases "tk_schema_version c = 2")
    case True
    then show ?thesis using assms eq
      by (intro same_replay_same_record[of sha ser, symmetric]) (auto simp: task_extends_def)
  next
    case False
    then show ?thesis using assms eq
      by (intro record_determined[symmetric]) (auto simp: task_extends_def task_record_wf_def evidence_ok_def)
  qed
qed

section \<open>Properties\<close>


definition example_task_record :: task_record where
  "example_task_record = (case task_create example_task 3 of Inr r \<Rightarrow> r)"


text \<open>
  Every record reached from a new task by accepted operations passes its own
  validation, and a task that ever started carries evidence that covers exactly the declared
  repositories at the declared revisions.
\<close>
lemma task_lifecycle_valid:
  assumes "task_create spec now = Inr r" and "(task_step sha ser)\<^sup>*\<^sup>* r r'"
  shows "validate_task_record sha ser r' = Inr () \<and> tk_spec r' = spec
    \<and> (tk_admitted_at r' = None \<or>
       (\<exists>ev. tk_workspace_evidence r' = Some ev \<and> evidence_exact (ts_workspace spec) (wme_repositories ev)))"
proof -
  have r: "task_wf spec" "tk_spec r = spec" "tk_schema_version r = 2"
    and "task_record_wf sha ser r"
    using assms(1)
    by (auto simp: task_create_def rbind_Inr_iff validate_task_iff task_record_wf_def evidence_ok_def
        TASK_RECORD_SCHEMA_VERSION_def replay_init_def replay_of_def task_previous_at_def)
  then have "task_record_wf sha ser r' \<and> tk_schema_version r' = 2 \<and> task_extends r r'"
    using task_steps_wf[OF assms(2)] by blast
  then show ?thesis using r
    by (auto simp: validate_task_record_iff task_record_wf_def evidence_ok_def task_extends_def
        validate_against_iff split: option.splits)
qed

text \<open>
  C31. A stored task never moves backwards: after any sequence of offered writes,
  accepted or refused, the stored record continues the earlier one (same specification, its
  history as a prefix, its evidence unchanged), and a finished task is never changed.
\<close>
theorem stored_task_append_only:
  assumes "tasks_get s i = Some p" and "validate_task_record sha ser p = Inr ()"
  shows "\<exists>c. tasks_get (fold (tasks_offer sha ser) rs s) i = Some c \<and> task_extends p c
    \<and> (\<not> task_is_terminal (tk_state p) \<or> c = p)"
proof -
  have p: "task_record_wf sha ser p" using assms(2) by (simp add: validate_task_record_iff)
  obtain c where "tasks_get (fold (tasks_offer sha ser) rs s) i = Some c" "task_record_wf sha ser c" "task_extends p c"
    using memory_tasks.offers_extend[OF assms(1) p] unfolding tasks_offer_eq by blast
  then show ?thesis using terminal_final[OF p] by blast
qed

theorem stored_task_append_only_witness:
  "\<exists>c. tasks_get (fold (tasks_offer id (\<lambda>_. Inr ''{}''))
      [snd (task_transition_to Task_Cancelled 9 example_task_record), example_task_record] [(UuidId 7, example_task_record)]) (UuidId 7) = Some c
    \<and> task_extends example_task_record c"
proof -
  have "tasks_get [(UuidId 7, example_task_record)] (UuidId 7) = Some example_task_record" by (simp add: tasks_get_def)
  moreover have "validate_task_record id (\<lambda>_. Inr ''{}'') example_task_record = Inr ()" by code_simp
  ultimately show ?thesis using stored_task_append_only by blast
qed

text \<open>
  An admission with valid evidence but a clock reading before the record's
  creation is refused after the evidence was written: the record left behind no longer
  validates, and no later admission of it is accepted.
\<close>
theorem refused_admission_keeps_evidence:
  assumes "task_create spec created = Inr r" and "validate_against sha ser ev (ts_workspace spec) = Inr ()"
    and "now < created" and "task_admit sha ser ev now r = (res, r')"
  shows "res \<noteq> Inr () \<and> tk_workspace_evidence r' = Some ev \<and> validate_task_record sha ser r' \<noteq> Inr ()
    \<and> fst (task_admit sha ser ev' now' r') \<noteq> Inr ()"
proof -
  have r: "tk_state r = Task_Created" "tk_workspace_evidence r = None" "tk_spec r = spec" "tk_schema_version r = 2"
      "tk_admitted_at r = None" "task_previous_at r = created"
    using assms(1) by (auto simp: task_create_def rbind_Inr_iff TASK_RECORD_SCHEMA_VERSION_def task_previous_at_def)
  have "task_previous_at (r\<lparr>tk_workspace_evidence := Some ev\<rparr>) = created"
    using r(6) by (simp add: task_previous_at_def split: if_splits)
  then have out: "res \<noteq> Inr ()" "r' = r\<lparr>tk_workspace_evidence := Some ev\<rparr>"
    using assms(2-4) r by (auto simp: task_admit_def apply_task_transition_def)
  moreover have "\<not> task_record_wf sha ser r'" using r out(2) by (simp add: task_record_wf_def evidence_ok_def)
  moreover have "fst (task_admit sha ser ev' now' r') \<noteq> Inr ()"
    using r out(2) by (auto simp: task_admit_def split: sum.splits)
  ultimately show ?thesis by (simp add: validate_task_record_iff)
qed

definition example_evidence :: workspace_evidence where
  "example_evidence = (case new_evidence id (\<lambda>_. Inr ''{}'') (ts_workspace example_task) [] of Inr ev \<Rightarrow> ev)"

theorem refused_admission_keeps_evidence_witness:
  "\<exists>r'. snd (task_admit id (\<lambda>_. Inr ''{}'') example_evidence 2 example_task_record) = r'
    \<and> fst (task_admit id (\<lambda>_. Inr ''{}'') example_evidence 5 r') \<noteq> Inr ()"
proof -
  have "task_create example_task 3 = Inr example_task_record" by code_simp
  moreover have "validate_against id (\<lambda>_. Inr ''{}'') example_evidence (ts_workspace example_task) = Inr ()" by code_simp
  moreover have "(2::u64) < 3" by simp
  ultimately show ?thesis
    using refused_admission_keeps_evidence[of example_task 3 example_task_record id "\<lambda>_. Inr ''{}''" example_evidence 2]
    by (metis surjective_pairing)
qed

end
