(* ===== verification/Hub_Events.thy ===== *)
theory Hub_Events
  imports Hub_Task_Lifecycle
begin

text \<open>
  Lifecycle events: \<open>src/crates/hub-core/src/event.rs\<close>. The event vocabulary, the in-memory
  log with its sequence numbers and pages, and the events derived from a repository write. The
  text of a uuid is the parameter \<open>us\<close>.
\<close>

section \<open>Model\<close>

subsection \<open>Vocabulary\<close>

definition MAX_EVENT_PAGE :: u32 where "MAX_EVENT_PAGE = 1000"
definition DEFAULT_EVENT_PAGE :: u32 where "DEFAULT_EVENT_PAGE = 100"

datatype event_kind = ComponentRegistered | ArtifactRecorded | RunCreated | RunStateChanged | TaskCreated
  | TaskStateChanged | SandboxAttemptStateChanged | WorkflowCreated | WorkflowStateChanged
  | WorkflowCancelRequested | WorkflowAttemptCreated | WorkflowAttemptStateChanged

fun event_kind_str :: "event_kind \<Rightarrow> string" where
  "event_kind_str ComponentRegistered = ''component_registered''"
| "event_kind_str ArtifactRecorded = ''artifact_recorded''"
| "event_kind_str RunCreated = ''run_created''"
| "event_kind_str RunStateChanged = ''run_state_changed''"
| "event_kind_str TaskCreated = ''task_created''"
| "event_kind_str TaskStateChanged = ''task_state_changed''"
| "event_kind_str SandboxAttemptStateChanged = ''sandbox_attempt_state_changed''"
| "event_kind_str WorkflowCreated = ''workflow_created''"
| "event_kind_str WorkflowStateChanged = ''workflow_state_changed''"
| "event_kind_str WorkflowCancelRequested = ''workflow_cancel_requested''"
| "event_kind_str WorkflowAttemptCreated = ''workflow_attempt_created''"
| "event_kind_str WorkflowAttemptStateChanged = ''workflow_attempt_state_changed''"

definition parse_event_kind :: "string \<Rightarrow> event_kind option" where
  "parse_event_kind raw =
     (if raw = ''component_registered'' then Some ComponentRegistered
      else if raw = ''artifact_recorded'' then Some ArtifactRecorded
      else if raw = ''run_created'' then Some RunCreated
      else if raw = ''run_state_changed'' then Some RunStateChanged
      else if raw = ''task_created'' then Some TaskCreated
      else if raw = ''task_state_changed'' then Some TaskStateChanged
      else if raw = ''sandbox_attempt_state_changed'' then Some SandboxAttemptStateChanged
      else if raw = ''workflow_created'' then Some WorkflowCreated
      else if raw = ''workflow_state_changed'' then Some WorkflowStateChanged
      else if raw = ''workflow_cancel_requested'' then Some WorkflowCancelRequested
      else if raw = ''workflow_attempt_created'' then Some WorkflowAttemptCreated
      else if raw = ''workflow_attempt_state_changed'' then Some WorkflowAttemptStateChanged
      else None)"

datatype entity_type = Entity_Component | Entity_Artifact | Entity_Run | Entity_Task | Entity_SandboxAttempt
  | Entity_Workflow

fun entity_type_str :: "entity_type \<Rightarrow> string" where
  "entity_type_str Entity_Component = ''component''"
| "entity_type_str Entity_Artifact = ''artifact''"
| "entity_type_str Entity_Run = ''run''"
| "entity_type_str Entity_Task = ''task''"
| "entity_type_str Entity_SandboxAttempt = ''sandbox_attempt''"
| "entity_type_str Entity_Workflow = ''workflow''"

definition parse_entity_type :: "string \<Rightarrow> entity_type option" where
  "parse_entity_type raw =
     (if raw = ''component'' then Some Entity_Component
      else if raw = ''artifact'' then Some Entity_Artifact
      else if raw = ''run'' then Some Entity_Run
      else if raw = ''task'' then Some Entity_Task
      else if raw = ''sandbox_attempt'' then Some Entity_SandboxAttempt
      else if raw = ''workflow'' then Some Entity_Workflow
      else None)"

type_synonym attributes = "(string, string) btree"

record new_event =
  ne_recorded_at :: u64
  ne_kind :: event_kind
  ne_entity_type :: entity_type
  ne_entity_id :: string
  ne_attributes :: attributes

record lifecycle_event =
  le_sequence :: u64
  le_event :: new_event

subsection \<open>The log\<close>

record event_log =
  el_next_sequence :: u64
  el_events :: "lifecycle_event list"

definition event_log_empty :: event_log where
  "event_log_empty = \<lparr>el_next_sequence = 0, el_events = []\<rparr>"

definition record_event :: "new_event \<Rightarrow> event_log \<Rightarrow> (lifecycle_event \<times> event_log) res" where
  "record_event ev log =
     rbind (ok_or (Storage (plain ''lifecycle event sequence exhausted'')) (checked_add (el_next_sequence log) 1)) (\<lambda>n.
       let stored = \<lparr>le_sequence = n, le_event = ev\<rparr> in
       Inr (stored, \<lparr>el_next_sequence = n, el_events = el_events log @ [stored]\<rparr>))"

text \<open>The loop with which the composite store records the events of one write.\<close>

fun record_all :: "new_event list \<Rightarrow> event_log \<Rightarrow> unit res \<times> event_log" where
  "record_all [] log = (Inr (), log)"
| "record_all (e # es) log =
     (case record_event e log of Inl x \<Rightarrow> (Inl x, log) | Inr (_, log') \<Rightarrow> record_all es log')"

definition validate_event_page_limit :: "u32 \<Rightarrow> unit res" where
  "validate_event_page_limit limit =
     (if 1 \<le> limit \<and> limit \<le> MAX_EVENT_PAGE then Inr ()
      else Inl (Validation (Fmt ''event page limit must be 1..={MAX_EVENT_PAGE}'' [FNat (unat MAX_EVENT_PAGE)])))"

definition list_after :: "u64 \<Rightarrow> u32 \<Rightarrow> event_log \<Rightarrow> lifecycle_event list res" where
  "list_after after limit log =
     rbind (validate_event_page_limit limit) (\<lambda>_.
       Inr (take (unat limit) (filter (\<lambda>e. le_sequence e > after) (el_events log))))"

definition high_water_sequence :: "event_log \<Rightarrow> u64" where
  "high_water_sequence log = el_next_sequence log"

subsection \<open>Derived events\<close>

type_synonym uuid_str = "uuid \<Rightarrow> string"

fun workflow_state_name :: "workflow_state \<Rightarrow> string" where
  "workflow_state_name Wf_Created = ''created''"
| "workflow_state_name Wf_Running = ''running''"
| "workflow_state_name Wf_Succeeded = ''succeeded''"
| "workflow_state_name Wf_Failed = ''failed''"
| "workflow_state_name Wf_Cancelled = ''cancelled''"

fun run_state_name :: "run_state \<Rightarrow> string" where
  "run_state_name Run_Created = ''created''"
| "run_state_name Run_Validated = ''validated''"
| "run_state_name Run_Queued = ''queued''"
| "run_state_name Run_Running = ''running''"
| "run_state_name Run_Succeeded = ''succeeded''"
| "run_state_name Run_Failed = ''failed''"
| "run_state_name Run_Cancelled = ''cancelled''"

definition component_registered_event :: "uuid_str \<Rightarrow> component_manifest \<Rightarrow> u64 \<Rightarrow> new_event" where
  "component_registered_event us m recorded_at =
     \<lparr>ne_recorded_at = recorded_at, ne_kind = ComponentRegistered, ne_entity_type = Entity_Component,
      ne_entity_id = us (as_uuid (manifest_id m)),
      ne_attributes = bt_of_list [(''name'', name_str (manifest_name m)), (''version'', version_str (manifest_version m))]\<rparr>"

definition artifact_recorded_event :: "uuid_str \<Rightarrow> artifact_meta \<Rightarrow> new_event" where
  "artifact_recorded_event us m =
     (let attributes = bt_of_list [(''name'', am_name m), (''media_type'', am_media_type m),
            (''digest'', to_hex (am_digest m)), (''size'', show_nat (unat (am_size m)))];
          attributes' = (case am_produced_by_run m of
             Some run \<Rightarrow> bt_insert ''produced_by_run'' (us (as_uuid run)) attributes | None \<Rightarrow> attributes)
      in \<lparr>ne_recorded_at = am_created_at m, ne_kind = ArtifactRecorded, ne_entity_type = Entity_Artifact,
          ne_entity_id = us (as_uuid (am_id m)), ne_attributes = attributes'\<rparr>)"

definition run_created_event :: "uuid_str \<Rightarrow> run_record \<Rightarrow> new_event" where
  "run_created_event us r =
     (let attributes = bt_of_list [(''component'', us (as_uuid (rspec_component (run_spec_of r)))),
            (''capability'', cap_str (rspec_capability (run_spec_of r))), (''state'', run_state_name Run_Created)];
          attributes' = (case run_reproduced_from r of
             Some origin \<Rightarrow> bt_insert ''reproduced_from'' (us (as_uuid origin)) attributes | None \<Rightarrow> attributes)
      in \<lparr>ne_recorded_at = run_created_at r, ne_kind = RunCreated, ne_entity_type = Entity_Run,
          ne_entity_id = us (as_uuid (run_id r)), ne_attributes = attributes'\<rparr>)"

definition run_transition_event :: "uuid_str \<Rightarrow> run_record \<Rightarrow> run_transition \<Rightarrow> new_event" where
  "run_transition_event us r t =
     \<lparr>ne_recorded_at = tr_at t, ne_kind = RunStateChanged, ne_entity_type = Entity_Run,
      ne_entity_id = us (as_uuid (run_id r)),
      ne_attributes = bt_of_list [(''from'', run_state_name (tr_from t)), (''to'', run_state_name (tr_to t))]\<rparr>"

definition derive_run_events :: "uuid_str \<Rightarrow> run_record option \<Rightarrow> run_record \<Rightarrow> new_event list" where
  "derive_run_events us previous current =
     (if previous = None then [run_created_event us current] else [])
     @ map (run_transition_event us current)
         (drop (case previous of None \<Rightarrow> 0 | Some p \<Rightarrow> length (run_transitions p)) (run_transitions current))"

definition task_created_event :: "uuid_str \<Rightarrow> task_record \<Rightarrow> new_event" where
  "task_created_event us r =
     \<lparr>ne_recorded_at = tk_created_at r, ne_kind = TaskCreated, ne_entity_type = Entity_Task,
      ne_entity_id = us (as_uuid (ts_id (tk_spec r))),
      ne_attributes = bt_of_list [(''principal'', tid_principal (ts_identity (tk_spec r))),
        (''state'', task_state_str Task_Created)]\<rparr>"

definition task_transition_event :: "uuid_str \<Rightarrow> task_record \<Rightarrow> task_transition \<Rightarrow> new_event" where
  "task_transition_event us r t =
     (let attributes = bt_of_list [(''from'', task_state_str (tt_from t)), (''to'', task_state_str (tt_to t))];
          attributes' = (if tt_to t = Task_Admitted then
             (case tk_workspace_evidence r of
                Some w \<Rightarrow> bt_insert ''workspace_digest'' (to_hex (wme_workspace_digest w)) attributes
              | None \<Rightarrow> attributes) else attributes)
      in \<lparr>ne_recorded_at = tt_at t, ne_kind = TaskStateChanged, ne_entity_type = Entity_Task,
          ne_entity_id = us (as_uuid (ts_id (tk_spec r))), ne_attributes = attributes'\<rparr>)"

definition derive_task_events :: "uuid_str \<Rightarrow> task_record option \<Rightarrow> task_record \<Rightarrow> new_event list" where
  "derive_task_events us previous current =
     (if previous = None then [task_created_event us current] else [])
     @ map (task_transition_event us current)
         (drop (case previous of None \<Rightarrow> 0 | Some p \<Rightarrow> length (tk_transitions p)) (tk_transitions current))"

definition workflow_cancel_requested_event :: "string \<Rightarrow> u64 \<Rightarrow> new_event" where
  "workflow_cancel_requested_event i at =
     \<lparr>ne_recorded_at = at, ne_kind = WorkflowCancelRequested, ne_entity_type = Entity_Workflow, ne_entity_id = i,
      ne_attributes = []\<rparr>"

definition workflow_attempt_created_event :: "uuid_str \<Rightarrow> workflow_record \<Rightarrow> string \<Rightarrow> step_attempt \<Rightarrow> u64 \<Rightarrow> new_event" where
  "workflow_attempt_created_event us w key a observed_at =
     \<lparr>ne_recorded_at = unwrap_or observed_at (sa_started_at a), ne_kind = WorkflowAttemptCreated,
      ne_entity_type = Entity_Workflow, ne_entity_id = us (as_uuid (wr_id w)),
      ne_attributes = bt_of_list [(''step'', key), (''attempt_id'', us (as_uuid (sa_id a))),
        (''attempt_number'', show_nat (unat (sa_number a))), (''run'', us (as_uuid (sa_run a))),
        (''state'', run_state_name (sa_state a))]\<rparr>"

definition workflow_attempt_state_changed_event :: "uuid_str \<Rightarrow> workflow_record \<Rightarrow> string \<Rightarrow> step_attempt
    \<Rightarrow> step_attempt \<Rightarrow> u64 \<Rightarrow> new_event" where
  "workflow_attempt_state_changed_event us w key before after observed_at =
     \<lparr>ne_recorded_at = unwrap_or observed_at
        (case sa_finished_at after of Some t \<Rightarrow> Some t | None \<Rightarrow> sa_started_at after),
      ne_kind = WorkflowAttemptStateChanged, ne_entity_type = Entity_Workflow, ne_entity_id = us (as_uuid (wr_id w)),
      ne_attributes = bt_of_list [(''step'', key), (''attempt_id'', us (as_uuid (sa_id after))),
        (''attempt_number'', show_nat (unat (sa_number after))), (''run'', us (as_uuid (sa_run after))),
        (''from'', run_state_name (sa_state before)), (''to'', run_state_name (sa_state after))]\<rparr>"

definition workflow_created_event :: "uuid_str \<Rightarrow> workflow_record \<Rightarrow> new_event" where
  "workflow_created_event us w =
     \<lparr>ne_recorded_at = wr_created_at w, ne_kind = WorkflowCreated, ne_entity_type = Entity_Workflow,
      ne_entity_id = us (as_uuid (wr_id w)),
      ne_attributes = bt_of_list [(''name'', ws_name (wr_spec w)), (''state'', workflow_state_name Wf_Created)]\<rparr>"

definition workflow_state_changed_event :: "uuid_str \<Rightarrow> workflow_state \<Rightarrow> workflow_record \<Rightarrow> u64 \<Rightarrow> new_event" where
  "workflow_state_changed_event us previous_state w observed_at =
     \<lparr>ne_recorded_at = (if wr_state w = Wf_Running then unwrap_or observed_at (wr_started_at w)
        else if wf_is_terminal (wr_state w) then unwrap_or observed_at (wr_finished_at w) else observed_at),
      ne_kind = WorkflowStateChanged, ne_entity_type = Entity_Workflow, ne_entity_id = us (as_uuid (wr_id w)),
      ne_attributes = bt_of_list [(''from'', workflow_state_name previous_state),
        (''to'', workflow_state_name (wr_state w))]\<rparr>"

text \<open>The attempts of a record, step by step; none for an absent one.\<close>

definition record_attempts :: "workflow_record option \<Rightarrow> step_attempt list" where
  "record_attempts previous = (case previous of None \<Rightarrow> [] | Some p \<Rightarrow> concat (map sr_attempts (wr_steps p)))"

definition attempt_events :: "uuid_str \<Rightarrow> workflow_record option \<Rightarrow> workflow_record \<Rightarrow> u64 \<Rightarrow> string \<Rightarrow> step_attempt
    \<Rightarrow> new_event list" where
  "attempt_events us previous current observed_at key a =
     (let previous_attempt = find (\<lambda>c. sa_id c = sa_id a) (record_attempts previous) in
      if sa_id a \<notin> sa_id ` set (record_attempts previous) then
        [workflow_attempt_created_event us current key a observed_at]
      else case previous_attempt of
        Some before \<Rightarrow> if sa_state before \<noteq> sa_state a
          then [workflow_attempt_state_changed_event us current key before a observed_at] else []
      | None \<Rightarrow> [])"

definition derive_workflow_events :: "uuid_str \<Rightarrow> workflow_record option \<Rightarrow> workflow_record \<Rightarrow> u64 \<Rightarrow> new_event list" where
  "derive_workflow_events us previous current observed_at =
     (if previous = None then [workflow_created_event us current] else [])
     @ (let previous_state = (case previous of None \<Rightarrow> Wf_Created | Some p \<Rightarrow> wr_state p) in
        if wr_state current \<noteq> previous_state
        then [workflow_state_changed_event us previous_state current observed_at] else [])
     @ (if Option.bind previous wr_cancel_requested_at = None then
          (case wr_cancel_requested_at current of
             Some at \<Rightarrow> [workflow_cancel_requested_event (us (as_uuid (wr_id current))) at] | None \<Rightarrow> [])
        else [])
     @ concat (map (\<lambda>step. concat (map (attempt_events us previous current observed_at (sr_key step)) (sr_attempts step)))
          (wr_steps current))"

section \<open>Specifications\<close>

text \<open>A log holds the sequence numbers from one upwards without a gap.\<close>

definition log_wf :: "event_log \<Rightarrow> bool" where
  "log_wf log \<longleftrightarrow> map (\<lambda>e. unat (le_sequence e)) (el_events log) = [1..<Suc (length (el_events log))]
     \<and> unat (el_next_sequence log) = length (el_events log)"

abbreviation U64_MAX :: u64 where
  "U64_MAX \<equiv> - 1"

abbreviation logged :: "event_log \<Rightarrow> new_event list" where
  "logged log \<equiv> map le_event (el_events log)"

section \<open>Facts\<close>

lemma record_event_Inr_iff:
  "record_event ev log = Inr (e, log') \<longleftrightarrow> checked_add (el_next_sequence log) 1 = Some (le_sequence e) \<and> le_event e = ev
     \<and> log' = \<lparr>el_next_sequence = le_sequence e, el_events = el_events log @ [e]\<rparr>"
  by (auto simp: record_event_def rbind_Inr_iff ok_or_Inr_iff Let_def)

lemma checked_add_one_None: "checked_add a 1 = None \<longleftrightarrow> a = U64_MAX"
proof -
  have "a = U64_MAX \<longleftrightarrow> unat (a + 1) = 0" using eq_neg_iff_add_eq_0[of a 1] by (simp add: unat_eq_zero)
  moreover have "unat (a + 1) = (unat a + 1) mod 2 ^ 64" by (simp add: unat_word_ariths)
  moreover have "unat a < 2 ^ 64" using unsigned_less[of a] by simp
  ultimately have "a = U64_MAX \<longleftrightarrow> \<not> unat a + 1 < 2 ^ 64"
    by (metis Suc_eq_plus1 Suc_lessI mod_less mod_self nat.distinct(1))
  then show ?thesis by (simp add: checked_add_def)
qed

lemma record_event_Inl_iff:
  "(\<exists>x. record_event ev log = Inl x) \<longleftrightarrow> el_next_sequence log = U64_MAX"
  unfolding checked_add_one_None[symmetric]
  by (cases "checked_add (el_next_sequence log) 1") (auto simp: record_event_def Let_def)

lemma log_wf_empty: "log_wf event_log_empty"
  by (simp add: log_wf_def event_log_empty_def)

lemma log_wf_record:
  assumes "log_wf log" and "record_event ev log = Inr (e, log')"
  shows "log_wf log' \<and> unat (el_next_sequence log') = Suc (unat (el_next_sequence log)) \<and> logged log' = logged log @ [ev]"
proof -
  have "unat (le_sequence e) = Suc (unat (el_next_sequence log))"
    using assms(2) by (auto simp: record_event_Inr_iff checked_add_Some_iff)
  then show ?thesis using assms by (auto simp: log_wf_def record_event_Inr_iff)
qed

lemma record_all_spec:
  assumes "log_wf log" and "record_all es log = (out, log')"
  shows "log_wf log' \<and> (\<exists>es'. logged log' = logged log @ es' \<and> prefix es' es
     \<and> (out = Inr () \<longleftrightarrow> es' = es) \<and> (out = Inr () \<or> el_next_sequence log' = U64_MAX))
     \<and> prefix (el_events log) (el_events log')"
  using assms
proof (induction es arbitrary: log)
  case (Cons e es)
  show ?case
  proof (cases "record_event e log")
    case (Inl x)
    then have "el_next_sequence log = U64_MAX" using record_event_Inl_iff by blast
    with Inl Cons.prems show ?thesis by auto
  next
    case (Inr p)
    obtain ev m where p: "p = (ev, m)" by (cases p)
    have m: "log_wf m" "logged m = logged log @ [e]" "el_events m = el_events log @ [ev]"
      using log_wf_record[OF Cons.prems(1)] Inr by (auto simp: p record_event_Inr_iff)
    have "record_all es m = (out, log')" using Cons.prems(2) Inr by (simp add: p)
    from Cons.IH[OF m(1) this] m(2,3) show ?thesis
      by (auto simp: prefix_def)
  qed
qed auto

lemma filter_after:
  assumes "log_wf log"
  shows "filter (\<lambda>e. le_sequence e > a) (el_events log) = drop (unat a) (el_events log)"
proof -
  have nth: "unat (le_sequence (el_events log ! i)) = Suc i" if i: "i < length (el_events log)" for i
  proof -
    have "map (\<lambda>e. unat (le_sequence e)) (el_events log) ! i = [1..<Suc (length (el_events log))] ! i"
      using assms unfolding log_wf_def by metis
    then show ?thesis using i by (simp del: upt_Suc)
  qed
  have "filter (\<lambda>e. le_sequence e > a) xs = drop (unat a - k) xs"
    if "\<And>i. i < length xs \<Longrightarrow> unat (le_sequence (xs ! i)) = Suc (k + i)" for xs k
    using that
  proof (induction xs arbitrary: k)
    case (Cons x xs)
    have x: "unat (le_sequence x) = Suc k" using Cons.prems[of 0] by simp
    have "filter (\<lambda>e. le_sequence e > a) xs = drop (unat a - Suc k) xs"
      by (rule Cons.IH) (use Cons.prems[of "Suc _"] in force)
    moreover have "unat a - k = Suc (unat a - Suc k)" if "\<not> unat a \<le> k" using that by simp
    ultimately show ?case using x
      by (cases "unat a \<le> k") (auto simp: word_less_nat_alt)
  qed simp
  from this[of "el_events log" 0] nth show ?thesis by simp
qed

lemma list_after_Inr_iff:
  assumes "log_wf log"
  shows "list_after a limit log = Inr page \<longleftrightarrow> 1 \<le> unat limit \<and> unat limit \<le> 1000
     \<and> page = take (unat limit) (drop (unat a) (el_events log))"
  using assms
  by (auto simp: list_after_def rbind_Inr_iff validate_event_page_limit_def MAX_EVENT_PAGE_def word_le_nat_alt filter_after
      split: if_splits)

lemma last_sequence:
  assumes "log_wf log" and "page = take n (drop k (el_events log))" and "page \<noteq> []"
  shows "unat (le_sequence (last page)) = k + length page"
proof -
  have len: "k + length page \<le> length (el_events log)" "0 < length page" using assms(2,3) by auto
  have "page ! j = el_events log ! (k + j)" if "j < length page" for j using assms(2) that by (auto simp: nth_drop)
  from this[of "length page - 1"] have "last page = el_events log ! (k + length page - 1)"
    using len(2) assms(3) by (simp add: last_conv_nth)
  moreover have "map (\<lambda>e. unat (le_sequence e)) (el_events log) ! (k + length page - 1) =
      [1..<Suc (length (el_events log))] ! (k + length page - 1)"
    using assms(1) unfolding log_wf_def by metis
  ultimately show ?thesis using len by (simp del: upt_Suc)
qed

text \<open>A continuation of a task's record derives just the events that are missing.\<close>

lemma derive_task_events_extends:
  assumes "task_record_wf sha ser p" and "task_record_wf sha ser c" and "task_extends p c"
  shows "derive_task_events us None c = derive_task_events us None p @ derive_task_events us (Some p) c"
proof -
  obtain ts where ts: "tk_transitions c = tk_transitions p @ ts" using assms(3) by (auto simp: task_extends_def prefix_def)
  have same: "tk_spec c = tk_spec p" "tk_created_at c = tk_created_at p" "tk_schema_version c = tk_schema_version p"
    using assms(3) by (auto simp: task_extends_def)
  have "task_transition_event us c t = task_transition_event us p t" if t: "t \<in> set (tk_transitions p)" for t
  proof (cases "tt_to t = Task_Admitted")
    case True
    then have "list_ex (\<lambda>t. tt_to t = Task_Admitted) (tk_transitions p)" using t by (auto simp: list_ex_iff)
    then have "tk_admitted_at p \<noteq> None"
      using replay_admitted[of "replay_init (tk_created_at p)" "tk_transitions p" "replay_of p"] assms(1)
      by (simp add: task_record_wf_def replay_of_def replay_init_def)
    then have "tk_workspace_evidence c = tk_workspace_evidence p"
      using assms same by (auto simp: task_record_wf_def evidence_ok_def task_extends_def split: if_splits option.splits)
    then show ?thesis using same unfolding task_transition_event_def by metis
  qed (simp add: task_transition_event_def same)
  then show ?thesis using ts same by (simp add: derive_task_events_def task_created_event_def)
qed

lemma parse_event_kind_iff: "parse_event_kind s = Some k \<longleftrightarrow> s = event_kind_str k"
proof
  assume "parse_event_kind s = Some k"
  then show "s = event_kind_str k" unfolding parse_event_kind_def by (auto split: if_split_asm)
qed (cases k; simp add: parse_event_kind_def)

lemma parse_entity_type_iff: "parse_entity_type s = Some t \<longleftrightarrow> s = entity_type_str t"
proof
  assume "parse_entity_type s = Some t"
  then show "s = entity_type_str t" unfolding parse_entity_type_def by (auto split: if_split_asm)
qed (cases t; simp add: parse_entity_type_def)

section \<open>Properties\<close>

text \<open>
  The names of event kinds and entity types are parsed back to what they name, and
  nothing else is parsed.
\<close>
lemma event_names_roundtrip:
  "(parse_event_kind s = Some k \<longleftrightarrow> s = event_kind_str k) \<and> (parse_entity_type s' = Some t \<longleftrightarrow> s' = entity_type_str t)"
  using parse_event_kind_iff parse_entity_type_iff by blast

text \<open>
  Paging: in any log built by recording events, a page starts right after the
  cursor, and together with what a further read from its last sequence number can return it is
  all that follows the cursor. So a reader that follows the cursor sees every event once, in order.
\<close>
theorem event_paging_complete:
  assumes "record_all es event_log_empty = (out, log)" and "list_after a limit log = Inr page" and "page \<noteq> []"
  shows "page @ filter (\<lambda>e. le_sequence e > le_sequence (last page)) (el_events log) =
      filter (\<lambda>e. le_sequence e > a) (el_events log) \<and> length page \<le> unat limit"
proof -
  have wf: "log_wf log" using record_all_spec[OF log_wf_empty assms(1)] by blast
  have page: "page = take (unat limit) (drop (unat a) (el_events log))"
    using list_after_Inr_iff[OF wf] assms(2) by blast
  have "unat (le_sequence (last page)) = unat a + length page" by (rule last_sequence[OF wf page assms(3)])
  then have "drop (unat (le_sequence (last page))) (el_events log) = drop (unat limit) (drop (unat a) (el_events log))"
    using page assms(3) by (simp add: min_def add.commute)
  then show ?thesis unfolding filter_after[OF wf]
    using append_take_drop_id[of "unat limit" "drop (unat a) (el_events log)"] page by (simp del: append_take_drop_id drop_drop)
qed

definition example_event :: new_event where
  "example_event = workflow_cancel_requested_event ''w'' 4"

theorem event_paging_complete_witness:
  "\<exists>log page. record_all [example_event, example_event, example_event] event_log_empty = (Inr (), log)
     \<and> list_after 1 1 log = Inr page \<and> map (unat \<circ> le_sequence) page = [2]
     \<and> length page \<le> unat (1::u32)"
proof -
  define log where "log = snd (record_all [example_event, example_event, example_event] event_log_empty)"
  define page where "page = projr (list_after 1 1 log)"
  have r: "record_all [example_event, example_event, example_event] event_log_empty = (Inr (), log)"
    unfolding log_def by code_simp
  have p: "list_after 1 1 log = Inr page" unfolding page_def log_def by code_simp
  have ne: "page \<noteq> []" unfolding page_def log_def by code_simp
  have "map (unat \<circ> le_sequence) page = [2]" unfolding page_def log_def by code_simp
  then show ?thesis using event_paging_complete[OF r p ne] r p by (intro exI[of _ log] exI[of _ page]) simp
qed

end
