(* ===== verification/Hub_Store.thy ===== *)
theory Hub_Store
  imports Hub_Events
begin

text \<open>
  The composite in-memory store of \<open>src/crates/hub-core/src/memory.rs\<close>
  (\<open>InMemoryHubStore\<close>): the repositories of \<open>Hub_Memory\<close> and \<open>Hub_Task_Lifecycle\<close> with the event
  log of \<open>Hub_Events\<close>. An operation returns its result and the store it leaves behind; a clock
  reading is an argument. The lemmas show that the log is the history of the repositories.
\<close>

section \<open>Model\<close>

record hub_store =
  hs_components :: components
  hs_runs :: runs
  hs_tasks :: tasks
  hs_artifacts :: artifact_metas
  hs_workflows :: workflows
  hs_events :: event_log

definition hub_store_empty :: hub_store where
  "hub_store_empty = \<lparr>hs_components = [], hs_runs = [], hs_tasks = [], hs_artifacts = [], hs_workflows = [],
     hs_events = event_log_empty\<rparr>"

text \<open>Recording the derived events after a repository write that returns \<open>x\<close>.\<close>

definition commit_events :: "new_event list \<Rightarrow> 'a \<Rightarrow> hub_store \<Rightarrow> 'a res \<times> hub_store" where
  "commit_events es x s =
     (case record_all es (hs_events s) of
        (Inl e, log) \<Rightarrow> (Inl e, s\<lparr>hs_events := log\<rparr>)
      | (Inr _, log) \<Rightarrow> (Inr x, s\<lparr>hs_events := log\<rparr>))"

definition hub_put_component :: "(bytes \<Rightarrow> bytes) \<Rightarrow> manifest_ser \<Rightarrow> uuid_str \<Rightarrow> component_manifest \<Rightarrow> u64
    \<Rightarrow> hub_store \<Rightarrow> bool res \<times> hub_store" where
  "hub_put_component sha ser us m now s =
     (case components_put sha ser m (hs_components s) of
        Inl e \<Rightarrow> (Inl e, s)
      | Inr (inserted, cs) \<Rightarrow>
          commit_events (if inserted then [component_registered_event us m now] else []) inserted
            (s\<lparr>hs_components := cs\<rparr>))"

definition hub_put_run :: "uuid_str \<Rightarrow> run_record \<Rightarrow> hub_store \<Rightarrow> unit res \<times> hub_store" where
  "hub_put_run us r s =
     (let previous = runs_get (hs_runs s) (run_id r) in
      commit_events (derive_run_events us previous r) () (s\<lparr>hs_runs := runs_put r (hs_runs s)\<rparr>))"

definition hub_put_task :: "(bytes \<Rightarrow> bytes) \<Rightarrow> evidence_ser \<Rightarrow> uuid_str \<Rightarrow> task_record \<Rightarrow> hub_store
    \<Rightarrow> unit res \<times> hub_store" where
  "hub_put_task sha ser us r s =
     (let previous = tasks_get (hs_tasks s) (ts_id (tk_spec r)) in
      case tasks_put sha ser r (hs_tasks s) of
        Inl e \<Rightarrow> (Inl e, s)
      | Inr ts \<Rightarrow> commit_events (derive_task_events us previous r) () (s\<lparr>hs_tasks := ts\<rparr>))"

definition hub_put_artifact :: "uuid_str \<Rightarrow> artifact_meta \<Rightarrow> hub_store \<Rightarrow> unit res \<times> hub_store" where
  "hub_put_artifact us m s =
     (let existed = artifacts_get (hs_artifacts s) (am_id m) \<noteq> None in
      commit_events (if existed then [] else [artifact_recorded_event us m]) ()
        (s\<lparr>hs_artifacts := artifacts_put m (hs_artifacts s)\<rparr>))"

definition hub_put_workflow :: "uuid_str \<Rightarrow> workflow_record \<Rightarrow> u64 \<Rightarrow> hub_store \<Rightarrow> unit res \<times> hub_store" where
  "hub_put_workflow us r now s =
     (let previous = workflows_get (hs_workflows s) (wr_id r);
          s' = s\<lparr>hs_workflows := workflows_put r (hs_workflows s)\<rparr>
      in case workflows_get (hs_workflows s') (wr_id r) of
           None \<Rightarrow> (Inl (Storage (plain ''workflow disappeared after in-memory put'')), s')
         | Some stored \<Rightarrow> commit_events (derive_workflow_events us previous stored now) () s')"

definition hub_request_cancel :: "uuid_str \<Rightarrow> workflow_id \<Rightarrow> u64 \<Rightarrow> hub_store
    \<Rightarrow> workflow_record option res \<times> hub_store" where
  "hub_request_cancel us i at s =
     (let previous = workflows_get (hs_workflows s) i;
          (updated, ws) = workflows_request_cancel i at (hs_workflows s)
      in commit_events
           (if Option.bind previous wr_cancel_requested_at = None \<and> Option.bind updated wr_cancel_requested_at \<noteq> None
            then [workflow_cancel_requested_event (us (as_uuid i)) at] else [])
           updated (s\<lparr>hs_workflows := ws\<rparr>))"

section \<open>Specifications\<close>

datatype hub_op = Op_PutComponent component_manifest u64 | Op_PutRun run_record | Op_PutTask task_record
  | Op_PutArtifact artifact_meta | Op_PutWorkflow workflow_record u64 | Op_RequestCancel workflow_id u64

fun hub_apply :: "(bytes \<Rightarrow> bytes) \<Rightarrow> manifest_ser \<Rightarrow> evidence_ser \<Rightarrow> uuid_str \<Rightarrow> hub_op \<Rightarrow> hub_store \<Rightarrow> hub_store" where
  "hub_apply sha mser eser us (Op_PutComponent m now) s = snd (hub_put_component sha mser us m now s)"
| "hub_apply sha mser eser us (Op_PutRun r) s = snd (hub_put_run us r s)"
| "hub_apply sha mser eser us (Op_PutTask r) s = snd (hub_put_task sha eser us r s)"
| "hub_apply sha mser eser us (Op_PutArtifact m) s = snd (hub_put_artifact us m s)"
| "hub_apply sha mser eser us (Op_PutWorkflow r now) s = snd (hub_put_workflow us r now s)"
| "hub_apply sha mser eser us (Op_RequestCancel i at) s = snd (hub_request_cancel us i at s)"

abbreviation task_events :: "uuid_str \<Rightarrow> task_id \<Rightarrow> new_event list \<Rightarrow> new_event list" where
  "task_events us i \<equiv> filter (\<lambda>e. ne_entity_type e = Entity_Task \<and> ne_entity_id e = us (as_uuid i))"

abbreviation artifact_events :: "uuid_str \<Rightarrow> artifact_id \<Rightarrow> new_event list \<Rightarrow> new_event list" where
  "artifact_events us i \<equiv> filter (\<lambda>e. ne_entity_type e = Entity_Artifact \<and> ne_entity_id e = us (as_uuid i))"

abbreviation cancel_events :: "uuid_str \<Rightarrow> workflow_id \<Rightarrow> new_event list \<Rightarrow> new_event list" where
  "cancel_events us i \<equiv> filter (\<lambda>e. ne_kind e = WorkflowCancelRequested \<and> ne_entity_id e = us (as_uuid i))"

text \<open>What the log must say about a task, an artifact and a cancellation, given the repositories.\<close>

definition chronicle :: "uuid_str \<Rightarrow> hub_store \<Rightarrow> bool" where
  "chronicle us s \<longleftrightarrow>
     (\<forall>i. task_events us i (logged (hs_events s)) =
        (case tasks_get (hs_tasks s) i of None \<Rightarrow> [] | Some r \<Rightarrow> derive_task_events us None r))
     \<and> (\<forall>i. length (artifact_events us i (logged (hs_events s))) =
        (case artifacts_get (hs_artifacts s) i of None \<Rightarrow> 0 | Some _ \<Rightarrow> 1))
     \<and> (\<forall>i. length (cancel_events us i (logged (hs_events s))) =
        (case Option.bind (workflows_get (hs_workflows s) i) wr_cancel_requested_at of None \<Rightarrow> 0 | Some _ \<Rightarrow> 1))"

definition store_inv :: "(bytes \<Rightarrow> bytes) \<Rightarrow> evidence_ser \<Rightarrow> uuid_str \<Rightarrow> hub_store \<Rightarrow> bool" where
  "store_inv sha ser us s \<longleftrightarrow> log_wf (hs_events s)
     \<and> (\<forall>i r. tasks_get (hs_tasks s) i = Some r \<longrightarrow> task_record_wf sha ser r \<and> ts_id (tk_spec r) = i)
     \<and> keyed wr_id (hs_workflows s) \<and> chronicle us s"

section \<open>Facts\<close>

lemma commit_events_spec:
  assumes "log_wf (hs_events s)"
  shows "log_wf (hs_events (snd (commit_events es x s)))"
    "prefix (el_events (hs_events s)) (el_events (hs_events (snd (commit_events es x s))))"
    "hs_components (snd (commit_events es x s)) = hs_components s" "hs_runs (snd (commit_events es x s)) = hs_runs s"
    "hs_tasks (snd (commit_events es x s)) = hs_tasks s" "hs_artifacts (snd (commit_events es x s)) = hs_artifacts s"
    "hs_workflows (snd (commit_events es x s)) = hs_workflows s"
    "el_next_sequence (hs_events (snd (commit_events es x s))) \<noteq> U64_MAX \<Longrightarrow>
       logged (hs_events (snd (commit_events es x s))) = logged (hs_events s) @ es"
proof -
  obtain out log where r: "record_all es (hs_events s) = (out, log)" by fastforce
  have eq: "snd (commit_events es x s) = s\<lparr>hs_events := log\<rparr>"
    using r by (cases out) (simp_all add: commit_events_def)
  note spec = record_all_spec[OF assms r]
  show "log_wf (hs_events (snd (commit_events es x s)))"
    "prefix (el_events (hs_events s)) (el_events (hs_events (snd (commit_events es x s))))"
    "el_next_sequence (hs_events (snd (commit_events es x s))) \<noteq> U64_MAX \<Longrightarrow>
       logged (hs_events (snd (commit_events es x s))) = logged (hs_events s) @ es"
    using spec by (auto simp: eq)
qed (auto simp: commit_events_def split: prod.splits sum.splits)

subsection \<open>What the derived events are about\<close>

lemma derived_task:
  "e \<in> set (derive_task_events us p c) \<Longrightarrow> ne_entity_type e = Entity_Task
     \<and> ne_entity_id e = us (as_uuid (ts_id (tk_spec c))) \<and> ne_kind e \<noteq> WorkflowCancelRequested"
  by (auto simp: derive_task_events_def task_created_event_def task_transition_event_def Let_def split: if_splits)

lemma derived_run:
  "e \<in> set (derive_run_events us p c) \<Longrightarrow> ne_entity_type e = Entity_Run \<and> ne_kind e \<noteq> WorkflowCancelRequested"
  by (auto simp: derive_run_events_def run_created_event_def run_transition_event_def Let_def split: if_splits)

lemmas workflow_event_defs = workflow_created_event_def workflow_state_changed_event_def
  workflow_cancel_requested_event_def workflow_attempt_created_event_def workflow_attempt_state_changed_event_def

lemma workflow_event_fields [simp]:
  "ne_entity_type (workflow_created_event us c) = Entity_Workflow" "ne_kind (workflow_created_event us c) = WorkflowCreated"
  "ne_entity_type (workflow_state_changed_event us st c t) = Entity_Workflow"
  "ne_kind (workflow_state_changed_event us st c t) = WorkflowStateChanged"
  "ne_entity_type (workflow_cancel_requested_event i at) = Entity_Workflow"
  "ne_kind (workflow_cancel_requested_event i at) = WorkflowCancelRequested"
  "ne_entity_id (workflow_cancel_requested_event i at) = i"
  "ne_entity_type (workflow_attempt_created_event us c k a t) = Entity_Workflow"
  "ne_kind (workflow_attempt_created_event us c k a t) = WorkflowAttemptCreated"
  "ne_entity_type (workflow_attempt_state_changed_event us c k b a t) = Entity_Workflow"
  "ne_kind (workflow_attempt_state_changed_event us c k b a t) = WorkflowAttemptStateChanged"
  by (simp_all add: workflow_event_defs)

lemma attempt_events_about:
  "e \<in> set (attempt_events us p c t k a) \<Longrightarrow> ne_entity_type e = Entity_Workflow \<and> ne_kind e \<noteq> WorkflowCancelRequested"
  by (auto simp: attempt_events_def Let_def split: if_splits option.splits)

lemma derived_workflow_all: "list_all (\<lambda>e. ne_entity_type e = Entity_Workflow) (derive_workflow_events us p c t)"
proof -
  have "list_all (\<lambda>e. ne_entity_type e = Entity_Workflow)
      (concat (map (\<lambda>step. concat (map (attempt_events us p c t (sr_key step)) (sr_attempts step))) (wr_steps c)))"
    unfolding list_all_iff using attempt_events_about by fastforce
  then show ?thesis by (simp add: derive_workflow_events_def Let_def split: option.split)
qed

lemmas derived_workflow = derived_workflow_all[unfolded list_all_iff, rule_format]

lemma uuid_str_eq: "inj us \<Longrightarrow> us (as_uuid i) = us (as_uuid j) \<longleftrightarrow> i = j"
  by (cases i; cases j) (auto dest: injD)

lemma cancel_events_workflow:
  assumes "inj us"
  shows "length (cancel_events us i (derive_workflow_events us p c t)) =
     (if i = wr_id c \<and> Option.bind p wr_cancel_requested_at = None \<and> wr_cancel_requested_at c \<noteq> None then 1 else 0)"
proof -
  have "cancel_events us j (concat (map (\<lambda>step. concat (map (attempt_events us p c t (sr_key step)) (sr_attempts step)))
      (wr_steps c))) = []" for j
    by (auto simp: filter_empty_conv dest: attempt_events_about)
  moreover have "us (as_uuid (wr_id c)) = us (as_uuid i) \<longleftrightarrow> i = wr_id c"
    using uuid_str_eq[OF assms] by metis
  ultimately show ?thesis
    by (cases p; cases "wr_cancel_requested_at c") (simp_all add: derive_workflow_events_def Let_def del: filter_False filter_True)
qed

lemma other_events:
  "task_events us i (derive_run_events us p c) = []" "artifact_events us j (derive_run_events us p c) = []"
  "cancel_events us k (derive_run_events us p c) = []"
  "artifact_events us j (derive_task_events us p' c') = []" "cancel_events us k (derive_task_events us p' c') = []"
  "task_events us i (derive_workflow_events us p'' c'' t) = []"
  "artifact_events us j (derive_workflow_events us p'' c'' t) = []"
  by (auto simp: filter_empty_conv dest: derived_run derived_task derived_workflow)

lemma task_events_derived:
  assumes "inj us"
  shows "task_events us i (derive_task_events us p c) =
     (if i = ts_id (tk_spec c) then derive_task_events us p c else [])"
proof -
  have "us (as_uuid (ts_id (tk_spec c))) = us (as_uuid i) \<longleftrightarrow> i = ts_id (tk_spec c)"
    using uuid_str_eq[OF assms] by metis
  then show ?thesis
    by (auto intro!: filter_True filter_False dest: derived_task)
qed

subsection \<open>Every operation keeps the invariant\<close>

lemma store_inv_keep:
  assumes inv: "store_inv sha ser us s" and s': "s' = snd (commit_events es x q)" and q: "hs_events q = hs_events s"
    and max: "el_next_sequence (hs_events s') \<noteq> U64_MAX"
    and tasks: "\<And>i r. tasks_get (hs_tasks q) i = Some r \<Longrightarrow> task_record_wf sha ser r \<and> ts_id (tk_spec r) = i"
    and flows: "keyed wr_id (hs_workflows q)"
    and t: "\<And>i. (case tasks_get (hs_tasks s) i of None \<Rightarrow> [] | Some r \<Rightarrow> derive_task_events us None r) @ task_events us i es =
        (case tasks_get (hs_tasks q) i of None \<Rightarrow> [] | Some r \<Rightarrow> derive_task_events us None r)"
    and a: "\<And>i. (case artifacts_get (hs_artifacts s) i of None \<Rightarrow> 0 | Some _ \<Rightarrow> 1) + length (artifact_events us i es) =
        (case artifacts_get (hs_artifacts q) i of None \<Rightarrow> 0 | Some _ \<Rightarrow> 1)"
    and c: "\<And>i. (case Option.bind (workflows_get (hs_workflows s) i) wr_cancel_requested_at of None \<Rightarrow> 0 | Some _ \<Rightarrow> 1)
          + length (cancel_events us i es) =
        (case Option.bind (workflows_get (hs_workflows q) i) wr_cancel_requested_at of None \<Rightarrow> 0 | Some _ \<Rightarrow> 1)"
  shows "store_inv sha ser us s'"
proof -
  have wf: "log_wf (hs_events q)" using inv q by (simp add: store_inv_def)
  note spec = commit_events_spec[OF wf, of es x, folded s']
  have log: "logged (hs_events s') = logged (hs_events s) @ es" using spec(8)[OF max] q by simp
  have "chronicle us s" using inv by (simp add: store_inv_def)
  then have "chronicle us s'"
    unfolding chronicle_def log filter_append length_append spec(5-7) using t a c by auto
  then show ?thesis using spec tasks flows by (simp add: store_inv_def)
qed

lemma put_component_inv:
  assumes "store_inv sha ser us s" and "el_next_sequence (hs_events (snd (hub_put_component sha mser us m now s))) \<noteq> U64_MAX"
  shows "store_inv sha ser us (snd (hub_put_component sha mser us m now s))"
proof (cases "components_put sha mser m (hs_components s)")
  case (Inr p)
  obtain b cs where p: "p = (b, cs)" by (cases p)
  have "snd (hub_put_component sha mser us m now s) =
      snd (commit_events (if b then [component_registered_event us m now] else []) b (s\<lparr>hs_components := cs\<rparr>))"
    by (simp add: hub_put_component_def Inr p)
  from assms(1) this show ?thesis
    by (rule store_inv_keep)
      (use assms in \<open>auto simp: store_inv_def component_registered_event_def\<close>)
qed (use assms in \<open>simp add: hub_put_component_def\<close>)

lemma put_run_inv:
  assumes "store_inv sha ser us s" and "el_next_sequence (hs_events (snd (hub_put_run us r s))) \<noteq> U64_MAX"
  shows "store_inv sha ser us (snd (hub_put_run us r s))"
  by (rule store_inv_keep[OF assms(1) hub_put_run_def[unfolded Let_def, THEN arg_cong[of _ _ snd]]])
    (use assms in \<open>auto simp: store_inv_def other_events\<close>)

lemma put_artifact_inv:
  assumes "inj us" and "store_inv sha ser us s" and "el_next_sequence (hs_events (snd (hub_put_artifact us m s))) \<noteq> U64_MAX"
  shows "store_inv sha ser us (snd (hub_put_artifact us m s))"
proof -
  have type: "ne_entity_type (artifact_recorded_event us m) = Entity_Artifact"
    "ne_kind (artifact_recorded_event us m) = ArtifactRecorded"
    "ne_entity_id (artifact_recorded_event us m) = us (as_uuid (am_id m))"
    by (simp_all add: artifact_recorded_event_def Let_def)
  show ?thesis
    by (rule store_inv_keep[OF assms(2) hub_put_artifact_def[unfolded Let_def, THEN arg_cong[of _ _ snd]]])
      (use assms type in
        \<open>auto simp: store_inv_def artifacts_get_def artifacts_put_def uuid_str_eq[OF assms(1)] split: option.splits\<close>)
qed

lemma put_task_inv:
  assumes "inj us" and "store_inv sha ser us s" and "el_next_sequence (hs_events (snd (hub_put_task sha ser us r s))) \<noteq> U64_MAX"
  shows "store_inv sha ser us (snd (hub_put_task sha ser us r s))"
proof (cases "tasks_put sha ser r (hs_tasks s)")
  case (Inr ts)
  let ?i = "ts_id (tk_spec r)" and ?p = "tasks_get (hs_tasks s) (ts_id (tk_spec r))"
  have put: "task_record_wf sha ser r" "ts = bt_insert ?i r (hs_tasks s)"
      "\<And>p. ?p = Some p \<Longrightarrow> task_record_wf sha ser p \<and> task_extends p r"
    using Inr by (auto simp: tasks_put_Inr_iff tasks_get_def)
  have eq: "snd (hub_put_task sha ser us r s) = snd (commit_events (derive_task_events us ?p r) () (s\<lparr>hs_tasks := ts\<rparr>))"
    by (simp add: hub_put_task_def Inr Let_def)
  have new: "(case ?p of None \<Rightarrow> [] | Some r \<Rightarrow> derive_task_events us None r) @ derive_task_events us ?p r = derive_task_events us None r"
  proof (cases ?p)
    case (Some q)
    then show ?thesis using put(3)[OF Some] derive_task_events_extends[of sha ser q r us] put(1) by simp
  qed simp
  have get: "tasks_get ts j = (if j = ?i then Some r else tasks_get (hs_tasks s) j)" for j
    by (simp add: put(2) tasks_get_def)
  show ?thesis
    by (rule store_inv_keep[OF assms(2) eq])
      (use assms put(1) new in \<open>auto simp: store_inv_def other_events get task_events_derived split: if_splits\<close>)
qed (use assms in \<open>simp add: hub_put_task_def Let_def\<close>)

lemma put_workflow_inv:
  assumes "inj us" and "store_inv sha ser us s" and "el_next_sequence (hs_events (snd (hub_put_workflow us r now s))) \<noteq> U64_MAX"
  shows "store_inv sha ser us (snd (hub_put_workflow us r now s))"
proof -
  have inv: "keyed wr_id (hs_workflows s)" using assms(2) by (simp add: store_inv_def)
  define w where "w = r\<lparr>wr_cancel_requested_at :=
      (if wr_cancel_requested_at r = None then Option.bind (workflows_get (hs_workflows s) (wr_id r)) wr_cancel_requested_at
       else wr_cancel_requested_at r)\<rparr>"
  have w: "workflows_get (workflows_put r (hs_workflows s)) (wr_id r) = Some w" "wr_id w = wr_id r"
      "wr_cancel_requested_at w = None \<longrightarrow> Option.bind (workflows_get (hs_workflows s) (wr_id r)) wr_cancel_requested_at = None"
    using memory_workflows.get_put[OF inv, of r] by (auto simp: w_def)
  have other: "workflows_get (workflows_put r (hs_workflows s)) j = workflows_get (hs_workflows s) j" if "j \<noteq> wr_id r" for j
    using memory_workflows.get_put_other[OF inv that] .
  have eq: "snd (hub_put_workflow us r now s) = snd (commit_events
      (derive_workflow_events us (workflows_get (hs_workflows s) (wr_id r)) w now) ()
      (s\<lparr>hs_workflows := workflows_put r (hs_workflows s)\<rparr>))"
    by (simp add: hub_put_workflow_def Let_def w(1))
  have count: "(case Option.bind (workflows_get (hs_workflows s) j) wr_cancel_requested_at of None \<Rightarrow> 0 | Some _ \<Rightarrow> 1)
      + length (cancel_events us j (derive_workflow_events us (workflows_get (hs_workflows s) (wr_id r)) w now)) =
    (case Option.bind (workflows_get (workflows_put r (hs_workflows s)) j) wr_cancel_requested_at of None \<Rightarrow> 0 | Some _ \<Rightarrow> 1)" for j
    using w other[of j] by (cases "j = wr_id r") (auto simp: cancel_events_workflow[OF assms(1)] split: option.splits)
  show ?thesis
    by (rule store_inv_keep[OF assms(2) eq])
      (use assms count memory_workflows.put_inv[OF inv] in \<open>auto simp: store_inv_def other_events\<close>)
qed

lemma request_cancel_inv:
  assumes "inj us" and "store_inv sha ser us s" and "el_next_sequence (hs_events (snd (hub_request_cancel us i at s))) \<noteq> U64_MAX"
  shows "store_inv sha ser us (snd (hub_request_cancel us i at s))"
proof -
  have inv: "keyed wr_id (hs_workflows s)" using assms(2) by (simp add: store_inv_def)
  obtain u ws where u: "workflows_request_cancel i at (hs_workflows s) = (u, ws)" by fastforce
  let ?es = "if Option.bind (workflows_get (hs_workflows s) i) wr_cancel_requested_at = None
      \<and> Option.bind u wr_cancel_requested_at \<noteq> None then [workflow_cancel_requested_event (us (as_uuid i)) at] else []"
  have get: "workflows_get ws j = (if j = i then u else workflows_get (hs_workflows s) j)" for j
    using u by (auto simp: workflows_request_cancel_def workflows_get_def Let_def split: option.splits)
  have kept: "Option.bind u wr_cancel_requested_at = None \<Longrightarrow>
      Option.bind (workflows_get (hs_workflows s) i) wr_cancel_requested_at = None"
    using memory_workflows.cancel_result[OF inv, of i at] memory_workflows.get_cancel[OF inv, of i at] u
    by (cases "workflows_get (hs_workflows s) i")
      (auto simp: get_or_insert_def simp del: wf_is_terminal.simps split: option.splits if_splits)
  have ids: "us (as_uuid i) = us (as_uuid j) \<longleftrightarrow> i = j" for j :: workflow_id
    by (rule uuid_str_eq[OF assms(1)])
  have ws: "keyed wr_id ws" using memory_workflows.cancel_inv[OF inv, of i at] u by simp
  have eq: "snd (hub_request_cancel us i at s) = snd (commit_events ?es u (s\<lparr>hs_workflows := ws\<rparr>))"
    by (simp add: hub_request_cancel_def Let_def u)
  have count: "(case Option.bind (workflows_get (hs_workflows s) j) wr_cancel_requested_at of None \<Rightarrow> 0 | Some _ \<Rightarrow> 1)
      + length (cancel_events us j ?es) =
    (case Option.bind (workflows_get ws j) wr_cancel_requested_at of None \<Rightarrow> 0 | Some _ \<Rightarrow> 1)" for j
    using kept by (cases "j = i") (auto simp: get ids split: option.splits)
  show ?thesis
    by (rule store_inv_keep[OF assms(2) eq]) (use assms count ws in \<open>auto simp: store_inv_def\<close>)
qed

lemmas hub_apply_defs = hub_put_component_def hub_put_run_def hub_put_task_def hub_put_artifact_def
  hub_put_workflow_def hub_request_cancel_def

lemma hub_apply_log:
  assumes "log_wf (hs_events s)"
  shows "log_wf (hs_events (hub_apply sha mser eser us op s))
    \<and> prefix (el_events (hs_events s)) (el_events (hs_events (hub_apply sha mser eser us op s)))"
proof -
  have c: "log_wf (hs_events q) \<Longrightarrow> hs_events q = hs_events s \<Longrightarrow>
      log_wf (hs_events (snd (commit_events es x q))) \<and>
      prefix (el_events (hs_events s)) (el_events (hs_events (snd (commit_events es x q))))" for q es and x :: 'x
    using commit_events_spec(1,2)[of q es x] by simp
  show ?thesis
    by (cases op) (use assms in \<open>auto simp: hub_apply_defs Let_def split: sum.split option.split prod.split intro!: c[THEN conjunct1] c[THEN conjunct2]\<close>)
qed

lemma exhausted_stays:
  assumes "log_wf (hs_events s)" and "el_next_sequence (hs_events s) = U64_MAX"
  shows "el_next_sequence (hs_events (hub_apply sha mser eser us op s)) = U64_MAX"
proof -
  let ?s' = "hub_apply sha mser eser us op s"
  have "length (el_events (hs_events s)) \<le> length (el_events (hs_events ?s'))" "log_wf (hs_events ?s')"
    using hub_apply_log[OF assms(1)] prefix_length_le by blast+
  then have "U64_MAX \<le> el_next_sequence (hs_events ?s')"
    using assms unfolding log_wf_def word_le_nat_alt by metis
  then show ?thesis by (metis word_n1_ge antisym)
qed

lemma hub_apply_inv:
  assumes "inj us" and "store_inv sha eser us s" and "el_next_sequence (hs_events (hub_apply sha mser eser us op s)) \<noteq> U64_MAX"
  shows "store_inv sha eser us (hub_apply sha mser eser us op s)"
  using assms put_component_inv put_run_inv put_task_inv put_artifact_inv put_workflow_inv request_cancel_inv
  by (cases op) simp_all

lemma hub_run_inv:
  assumes "inj us" and "el_next_sequence (hs_events (fold (hub_apply sha mser eser us) ops hub_store_empty)) \<noteq> U64_MAX"
  shows "store_inv sha eser us (fold (hub_apply sha mser eser us) ops hub_store_empty)"
  using assms(2)
proof (induction ops rule: rev_induct)
  case Nil
  show ?case
    by (auto simp: store_inv_def hub_store_empty_def log_wf_def chronicle_def event_log_empty_def tasks_get_def
        artifacts_get_def workflows_get_def keyed_Nil)
next
  case (snoc op ops)
  let ?s = "fold (hub_apply sha mser eser us) ops hub_store_empty"
  have "log_wf (hs_events ?s)"
    using hub_apply_log by (induction ops rule: rev_induct) (auto simp: hub_store_empty_def log_wf_empty)
  then have "el_next_sequence (hs_events ?s) \<noteq> U64_MAX" using snoc.prems exhausted_stays by fastforce
  then show ?case using hub_apply_inv[OF assms(1) snoc.IH] snoc.prems by simp
qed

section \<open>Properties\<close>


definition example_ops :: "hub_op list" where
  "example_ops = [Op_PutTask example_task_record, Op_PutTask (snd (task_transition_to Task_Cancelled 9 example_task_record)),
     Op_PutTask example_task_record]"

definition example_uuid_str :: uuid_str where
  "example_uuid_str u = replicate (unat u) CHR ''x''"

lemma example_uuid_str_inj: "inj example_uuid_str"
  by (rule injI) (metis example_uuid_str_def length_replicate word_unat_eq_iff)


end
