(* ===== verification/Hub_Exec.thy ===== *)
theory Hub_Exec
  imports Hub_Run Hub_Task
begin

text \<open>
  The executor port (\<open>src/crates/hub-core/src/exec.rs\<close>), the guard of the SciCapsule contract
  (\<open>scicapsule.rs\<close>), and the resolution of placeholders into an execution request
  (\<open>orchestrator.rs\<close>). An executor is a record of its methods. A cancellation token is a flag; an
  executor may observe it at any time, so what an execution observes is a parameter.
\<close>

section \<open>Model\<close>

subsection \<open>Requests, outcomes and executors\<close>

record execution_request =
  er_program :: string
  er_args :: "string list"
  er_working_dir :: string
  er_env :: "(string, string) btree"
  er_timeout_ms :: u64
  er_max_capture_bytes_per_stream :: nat

record execution_outcome =
  eo_exit_code :: "i32 option"
  eo_signal :: "i32 option"
  eo_timed_out :: bool
  eo_cancelled :: bool
  eo_start_error :: "string option"
  eo_duration_ms :: u64
  eo_stdout :: bytes
  eo_stdout_truncated :: bool
  eo_stderr :: bytes
  eo_stderr_truncated :: bool

definition exited_cleanly :: "execution_outcome \<Rightarrow> bool" where
  "exited_cleanly o' \<longleftrightarrow> \<not> eo_timed_out o' \<and> \<not> eo_cancelled o' \<and> eo_start_error o' = None \<and> eo_exit_code o' = Some 0"

record execution_report =
  rep_outcome :: execution_outcome
  rep_backend_id :: string

record task_execution_report =
  trep_execution :: execution_report
  trep_admitted_backend :: backend_descriptor

record executor =
  ex_backend_id :: string
  ex_backend_descriptor :: backend_descriptor
  ex_execute_report :: "execution_request \<Rightarrow> executor_failure + execution_report"

definition default_backend_descriptor :: "string \<Rightarrow> backend_descriptor" where
  "default_backend_descriptor i =
     \<lparr>bd_backend_id = i, bd_isolation = Iso_Process, bd_isolation_qualified = False, bd_isolation_evidence_id = None,
      bd_enforces_network_policy = False, bd_enforces_default_deny_network = False,
      bd_enforces_workspace_write_policy = False,
      bd_resources = \<lparr>re_wall_clock_ms = False, re_cpu_millis = False, re_memory_bytes = False, re_gpu_devices = False,
        re_model_tokens = False\<rparr>,
      bd_capabilities = []\<rparr>"

definition default_execute_report :: "string \<Rightarrow> (execution_request \<Rightarrow> executor_failure + execution_outcome)
    \<Rightarrow> execution_request \<Rightarrow> executor_failure + execution_report" where
  "default_execute_report i execute request =
     rbind (execute request) (\<lambda>o'. Inr \<lparr>rep_outcome = o', rep_backend_id = i\<rparr>)"

definition execute_task_report :: "executor \<Rightarrow> task_spec \<Rightarrow> execution_request
    \<Rightarrow> executor_failure + task_execution_report" where
  "execute_task_report ex task request =
     rbind (map_err (\<lambda>e. Backend (Fmt ''task backend admission rejected: {error}'' [FMsg (error_message e)]))
              (backend_admit (ex_backend_descriptor ex) task)) (\<lambda>_.
     rbind (ex_execute_report ex request) (\<lambda>execution.
       Inr \<lparr>trep_execution = execution, trep_admitted_backend = ex_backend_descriptor ex\<rparr>))"

subsection \<open>The SciCapsule contract\<close>

definition CAPSULE_CAPABILITY :: string where "CAPSULE_CAPABILITY = ''capsule.execute''"
definition CONTRACT_VERSION_V1 :: string where "CONTRACT_VERSION_V1 = ''1.0.0''"
definition CONTRACT_VERSION_V2 :: string where "CONTRACT_VERSION_V2 = ''2.0.0''"
definition CONTRACT_METADATA_V1 :: string where "CONTRACT_METADATA_V1 = ''scicapsule-hub-v1''"
definition CONTRACT_METADATA_V2 :: string where "CONTRACT_METADATA_V2 = ''scicapsule-hub-v2''"
definition CAPSULE_MEDIA_TYPE :: string where "CAPSULE_MEDIA_TYPE = ''application/vnd.scirust.scicap''"
definition POLICY_MEDIA_TYPE :: string where
  "POLICY_MEDIA_TYPE = ''application/vnd.scicapsule.trust-policy.v1+json''"
definition REQUEST_MEDIA_TYPE :: string where
  "REQUEST_MEDIA_TYPE = ''application/vnd.scicapsule.hub-run-request.v1+json''"
definition RESULT_MEDIA_TYPE_V1 :: string where
  "RESULT_MEDIA_TYPE_V1 = ''application/vnd.scicapsule.hub-run-result.v1+json''"
definition RESULT_MEDIA_TYPE_V2 :: string where
  "RESULT_MEDIA_TYPE_V2 = ''application/vnd.scicapsule.hub-run-result.v2+json''"
definition V2_SOURCE_HEAD :: string where "V2_SOURCE_HEAD = ''bb79eea787f0d9562585b27dd38f5f57fa5b5ea9''"
definition V2_SOURCE_MERGE :: string where "V2_SOURCE_MERGE = ''31e4a825c8a45837ce4f8ff69f936b46e53d3b82''"

definition unsupported :: "message \<Rightarrow> core_error" where
  "unsupported reason = Validation (Fmt ''unsupported SciCapsule Hub execution contract: {}'' [FMsg reason])"

definition check_properties :: "string \<Rightarrow> capability \<Rightarrow> (string \<times> string) list \<Rightarrow> unit res" where
  "check_properties template c expected =
     try_for (\<lambda>(key, value).
       if bt_get (cap_properties c) key \<noteq> Some value then Inl (unsupported (Fmt template [FDebug key, FDebug value]))
       else Inr ()) expected"

definition validate_common :: "component_manifest \<Rightarrow> capability \<Rightarrow> string \<Rightarrow> unit res" where
  "validate_common m c result_type =
     (if bt_get (manifest_metadata m) ''canonical_capsule_owner'' \<noteq> Some ''scirust'' then
        Inl (unsupported (plain ''canonical_capsule_owner metadata must be scirust''))
      else if map (\<lambda>p. (port_name p, port_description p)) (cap_inputs c) \<noteq>
          [(''capsule'', CAPSULE_MEDIA_TYPE), (''policy'', POLICY_MEDIA_TYPE), (''request'', REQUEST_MEDIA_TYPE)] then
        Inl (unsupported (plain ''input ports do not match SciCapsule Hub contract''))
      else if map (\<lambda>p. (port_name p, port_description p)) (cap_outputs c) \<noteq> [(''result'', result_type)] then
        Inl (unsupported (plain ''result output media type does not match contract''))
      else check_properties ''capability property {key:?} must be {expected:?}'' c
        [(''authorization'', ''local_trust_policy''), (''request_media_type'', REQUEST_MEDIA_TYPE),
         (''result_media_type'', result_type), (''sandbox'', ''none'')])"

definition validate_single_output :: "process_binding \<Rightarrow> string \<Rightarrow> string \<Rightarrow> unit res" where
  "validate_single_output p path media_type =
     (case proc_outputs p of
        [out] \<Rightarrow>
          if out_name out \<noteq> ''result'' \<or> out_path out \<noteq> path \<or> out_media_type out \<noteq> Some media_type \<or> \<not> out_required out
          then Inl (unsupported (plain ''result output does not match SciCapsule execution contract''))
          else Inr ()
      | _ \<Rightarrow> Inl (unsupported (plain ''SciCapsule execution requires exactly one result output'')))"

definition validate_capsule_v1 :: "component_manifest \<Rightarrow> capability \<Rightarrow> unit res" where
  "validate_capsule_v1 m c =
     rbind (validate_common m c RESULT_MEDIA_TYPE_V1) (\<lambda>_.
       if bt_get (manifest_metadata m) ''contract'' \<noteq> Some CONTRACT_METADATA_V1 then
         Inl (unsupported (Fmt ''contract metadata must be {CONTRACT_METADATA_V1}'' [FStr CONTRACT_METADATA_V1]))
       else rbind (ok_or (unsupported (plain ''missing process execution binding'')) (manifest_execution m)) (\<lambda>e.
         case e of Process p \<Rightarrow>
           if \<not> is_absolute (proc_program p) then
             Inl (unsupported (plain ''SciCapsule executable path must be absolute''))
           else if proc_working_dir p \<noteq> None then
             Inl (unsupported (plain ''SciCapsule Hub v1 does not declare a working_dir override''))
           else if proc_args p \<noteq> [''hub-run'', ''--capsule'', ''{input:capsule}'', ''--policy'', ''{input:policy}'',
               ''--request'', ''{input:request}'', ''--result'', ''{output:result}''] then
             Inl (unsupported (plain ''process argv does not match SciCapsule Hub v1''))
           else validate_single_output p ''outputs/scicapsule-result.json'' RESULT_MEDIA_TYPE_V1))"

definition validate_capsule_v2 :: "component_manifest \<Rightarrow> capability \<Rightarrow> unit res" where
  "validate_capsule_v2 m c =
     rbind (validate_common m c RESULT_MEDIA_TYPE_V2) (\<lambda>_.
       if bt_get (manifest_metadata m) ''contract'' \<noteq> Some CONTRACT_METADATA_V2 then
         Inl (unsupported (Fmt ''contract metadata must be {CONTRACT_METADATA_V2}'' [FStr CONTRACT_METADATA_V2]))
       else rbind (check_properties ''v2 capability property {key:?} must be {expected:?}'' c
         [(''execution_mode'', ''bounded_process_unix''), (''trust_decision_owner'', ''SciCapsule''),
          (''trust_is_scientific_verdict'', ''false''), (''scicapsule.source_head'', V2_SOURCE_HEAD),
          (''scicapsule.source_merge'', V2_SOURCE_MERGE)]) (\<lambda>_.
       rbind (ok_or (unsupported (plain ''missing process execution binding'')) (manifest_execution m)) (\<lambda>e.
         case e of Process p \<Rightarrow>
           if \<not> is_absolute (proc_program p) then
             Inl (unsupported (plain ''SciCapsule v2 launcher path must be absolute''))
           else if proc_working_dir p \<noteq> None then
             Inl (unsupported (plain ''SciCapsule Hub v2 does not declare a working_dir override''))
           else if proc_args p \<noteq> [''--capsule'', ''{input:capsule}'', ''--policy'', ''{input:policy}'',
               ''--request'', ''{input:request}'', ''--result'', ''{output:result}'', ''--scicapsule-program'',
               ''/opt/scicapsule/bin/scicapsule''] then
             Inl (unsupported (plain ''process argv does not match SciCapsule Hub v2''))
           else validate_single_output p ''outputs/scicapsule-result-v2.json'' RESULT_MEDIA_TYPE_V2)))"

definition validate_execution_contract :: "component_manifest \<Rightarrow> capability \<Rightarrow> unit res" where
  "validate_execution_contract m c =
     (if cap_str (cap_name c) \<noteq> CAPSULE_CAPABILITY then Inl (unsupported (plain ''unexpected capability name''))
      else if version_str (contract_version c) = CONTRACT_VERSION_V1 then validate_capsule_v1 m c
      else if version_str (contract_version c) = CONTRACT_VERSION_V2 then validate_capsule_v2 m c
      else Inl (unsupported (Fmt ''contract version {version}; supported versions are {CONTRACT_VERSION_V1} and {CONTRACT_VERSION_V2}''
        [FStr (version_str (contract_version c)), FStr CONTRACT_VERSION_V1, FStr CONTRACT_VERSION_V2])))"

subsection \<open>Placeholders\<close>

text \<open>\<open>{input:name}\<close> and \<open>{output:name}\<close>: the name between the prefix and the closing brace.\<close>

definition placeholder :: "string \<Rightarrow> string \<Rightarrow> string option" where
  "placeholder prefix raw = Option.bind (strip_prefix prefix raw) (\<lambda>r. strip_suffix ''}'' r)"

definition partial_placeholder :: "string \<Rightarrow> bool" where
  "partial_placeholder raw \<longleftrightarrow> str_contains ''{params}'' raw \<or> str_contains ''{input:'' raw \<or> str_contains ''{output:'' raw"

definition check_placeholder :: "process_binding \<Rightarrow> run_spec \<Rightarrow> string \<Rightarrow> unit res" where
  "check_placeholder p spec raw =
     (if raw = ''{params}'' then Inr ()
      else case placeholder ''{input:'' raw of
        Some name \<Rightarrow>
          if \<not> list_ex (\<lambda>i. ib_name i = name) (rspec_inputs spec) then
            Inl (Validation (Fmt ''binding references unknown input {name:?}; declared inputs: {:?}''
              [FDebug name, FDebugs (map ib_name (rspec_inputs spec))]))
          else Inr ()
      | None \<Rightarrow> (case placeholder ''{output:'' raw of
            Some name \<Rightarrow>
              if \<not> list_ex (\<lambda>out. out_name out = name) (proc_outputs p) then
                Inl (Validation (Fmt ''binding references unknown output {name:?}; declared outputs: {:?}''
                  [FDebug name, FDebugs (map out_name (proc_outputs p))]))
              else Inr ()
          | None \<Rightarrow>
              if partial_placeholder raw then
                Inl (Validation (Fmt ''placeholder must occupy the whole argument, got {raw:?}'' [FDebug raw]))
              else Inr ()))"

definition check_placeholders :: "execution_binding \<Rightarrow> run_spec \<Rightarrow> unit res" where
  "check_placeholders b spec = (case b of Process p \<Rightarrow> try_for (check_placeholder p spec) (proc_args p))"

definition substitute_placeholders :: "string \<Rightarrow> string \<Rightarrow> (string, string) btree \<Rightarrow> (string, string) btree \<Rightarrow> string res" where
  "substitute_placeholders raw params_json input_paths output_paths =
     (if raw = ''{params}'' then Inr params_json
      else case placeholder ''{input:'' raw of
        Some name \<Rightarrow> ok_or (Validation (Fmt ''unresolved input placeholder {name:?} at execution time'' [FDebug name]))
          (bt_get input_paths name)
      | None \<Rightarrow> (case placeholder ''{output:'' raw of
            Some name \<Rightarrow> ok_or (Validation (Fmt ''unresolved output placeholder {name:?} at execution time'' [FDebug name]))
              (bt_get output_paths name)
          | None \<Rightarrow>
              if partial_placeholder raw then
                Inl (Validation (Fmt ''placeholder must occupy the whole argument, got {raw:?}'' [FDebug raw]))
              else Inr raw))"

text \<open>UTF-8 validity: the permitted ranges of the continuation bytes after a leading byte.\<close>

definition utf8_ranges :: "nat \<Rightarrow> (nat \<times> nat) list option" where
  "utf8_ranges b =
     (if b < 128 then Some []
      else if 194 \<le> b \<and> b \<le> 223 then Some [(128, 191)]
      else if b = 224 then Some [(160, 191), (128, 191)]
      else if 225 \<le> b \<and> b \<le> 236 \<or> b = 238 \<or> b = 239 then Some [(128, 191), (128, 191)]
      else if b = 237 then Some [(128, 159), (128, 191)]
      else if b = 240 then Some [(144, 191), (128, 191), (128, 191)]
      else if 241 \<le> b \<and> b \<le> 243 then Some [(128, 191), (128, 191), (128, 191)]
      else if b = 244 then Some [(128, 143), (128, 191), (128, 191)]
      else None)"

function is_utf8 :: "bytes \<Rightarrow> bool" where
  "is_utf8 [] = True"
| "is_utf8 (c # cs) =
     (case utf8_ranges (byte_of c) of
        None \<Rightarrow> False
      | Some rs \<Rightarrow> length rs \<le> length cs
          \<and> list_all2 (\<lambda>(lo, hi) x. lo \<le> byte_of x \<and> byte_of x \<le> hi) rs (take (length rs) cs)
          \<and> is_utf8 (drop (length rs) cs))"
  by pat_completeness auto

termination
  by (relation "measure length") auto

text \<open>
  The request for one run. The error of \<open>String::from_utf8\<close> is a function of the rejected bytes,
  which are kept. \<open>path_env\<close> is the value of the \<open>PATH\<close> variable.
\<close>

definition build_request :: "params_ser \<Rightarrow> string \<Rightarrow> limits \<Rightarrow> run_spec \<Rightarrow> execution_binding option \<Rightarrow> string
    \<Rightarrow> execution_request res" where
  "build_request ser path_env lim spec binding workdir =
     (case binding of
        None \<Rightarrow> Inl (Validation (Fmt ''component {} declares no executable binding'' [id_arg (rspec_component spec)]))
      | Some (Process p) \<Rightarrow>
          rbind (canonical_params_bytes ser spec) (\<lambda>bs.
            if \<not> is_utf8 bs then Inl (Validation (Fmt ''parameters are not UTF-8: {e}'' [FDebug bs]))
            else
              let input_paths = bt_of_list (map (\<lambda>i. (ib_name i, path_join (path_join workdir ''inputs'') (ib_name i)))
                    (rspec_inputs spec));
                  output_paths = bt_of_list (map (\<lambda>out. (out_name out, path_join workdir (out_path out))) (proc_outputs p))
              in
              rbind (try_fold (\<lambda>args raw. rbind (substitute_placeholders raw bs input_paths output_paths)
                       (\<lambda>a. Inr (args @ [a]))) [] (proc_args p)) (\<lambda>args.
                Inr \<lparr>er_program = proc_program p, er_args = args,
                  er_working_dir = (case proc_working_dir p of Some w \<Rightarrow> w | None \<Rightarrow> workdir),
                  er_env = bt_of_list [(''PATH'', path_env), (''TMPDIR'', workdir)],
                  er_timeout_ms = rspec_timeout_ms spec,
                  er_max_capture_bytes_per_stream = max_capture_bytes lim\<rparr>)))"

section \<open>Facts\<close>

text \<open>What an argument of the binding becomes, for a specification whose placeholders were checked.\<close>

definition resolves_to :: "string \<Rightarrow> bytes \<Rightarrow> process_binding \<Rightarrow> run_spec \<Rightarrow> string \<Rightarrow> string \<Rightarrow> bool" where
  "resolves_to workdir params p spec raw a \<longleftrightarrow>
     (if raw = ''{params}'' then a = params
      else case placeholder ''{input:'' raw of
        Some name \<Rightarrow> name \<in> ib_name ` set (rspec_inputs spec) \<and> a = path_join (path_join workdir ''inputs'') name
      | None \<Rightarrow> (case placeholder ''{output:'' raw of
            Some name \<Rightarrow> \<exists>out\<in>set (proc_outputs p). out_name out = name \<and> a = path_join workdir (out_path out)
          | None \<Rightarrow> a = raw \<and> \<not> partial_placeholder raw))"

lemma input_path_get:
  "bt_get (bt_of_list (map (\<lambda>i. (ib_name i, f (ib_name i))) is)) n =
     (if n \<in> ib_name ` set is then Some (f n) else None)"
proof -
  have "map_of (map (\<lambda>i. (ib_name i, f (ib_name i))) xs) n = (if n \<in> ib_name ` set xs then Some (f n) else None)" for xs
    by (induction xs) auto
  from this[of "rev is"] show ?thesis by (simp add: bt_get_of_list rev_map)
qed

lemma output_path_get:
  assumes "n \<in> out_name ` set outs"
  shows "\<exists>out\<in>set outs. out_name out = n \<and> bt_get (bt_of_list (map (\<lambda>out. (out_name out, f (out_path out))) outs)) n = Some (f (out_path out))"
proof -
  have "map_of (rev (map (\<lambda>out. (out_name out, f (out_path out))) outs)) n \<noteq> None"
    using assms by (auto simp: map_of_eq_None_iff image_iff)
  then obtain y where y: "map_of (rev (map (\<lambda>out. (out_name out, f (out_path out))) outs)) n = Some y" by blast
  then have "(n, y) \<in> set (map (\<lambda>out. (out_name out, f (out_path out))) outs)" using map_of_SomeD by fastforce
  then show ?thesis using y by (auto simp: bt_get_of_list)
qed

lemma substitute_checked:
  assumes "check_placeholder p spec raw = Inr ()"
  shows "\<exists>a. substitute_placeholders raw params
        (bt_of_list (map (\<lambda>i. (ib_name i, path_join (path_join w ''inputs'') (ib_name i))) (rspec_inputs spec)))
        (bt_of_list (map (\<lambda>out. (out_name out, path_join w (out_path out))) (proc_outputs p))) = Inr a
      \<and> resolves_to w params p spec raw a"
proof -
  consider "raw = ''{params}''" | n where "raw \<noteq> ''{params}''" "placeholder ''{input:'' raw = Some n"
    | n where "raw \<noteq> ''{params}''" "placeholder ''{input:'' raw = None" "placeholder ''{output:'' raw = Some n"
    | "raw \<noteq> ''{params}''" "placeholder ''{input:'' raw = None" "placeholder ''{output:'' raw = None"
    by fastforce
  then show ?thesis
  proof cases
    case (2 n)
    then have "n \<in> ib_name ` set (rspec_inputs spec)"
      using assms by (force simp: check_placeholder_def list_ex_iff split: if_splits)
    then show ?thesis using 2
      by (simp add: substitute_placeholders_def resolves_to_def input_path_get[of "path_join (path_join w ''inputs'')"])
  next
    case (3 n)
    then have "n \<in> out_name ` set (proc_outputs p)"
      using assms by (force simp: check_placeholder_def list_ex_iff split: if_splits)
    from output_path_get[OF this, of "path_join w"] 3 show ?thesis
      by (auto simp: substitute_placeholders_def resolves_to_def)
  next
    case 4
    then show ?thesis using assms
      by (simp add: check_placeholder_def substitute_placeholders_def resolves_to_def split: if_splits)
  qed (simp add: substitute_placeholders_def resolves_to_def)
qed

lemma substitute_all_checked:
  assumes "\<And>raw. raw \<in> set raws \<Longrightarrow> \<exists>a. f raw = Inr a \<and> R raw a"
  shows "\<exists>as. try_fold (\<lambda>args raw. rbind (f raw) (\<lambda>a. Inr (args @ [a]))) acc raws = (Inr (acc @ as) :: 'e + 'b list)
    \<and> list_all2 R raws as"
  using assms
proof (induction raws arbitrary: acc)
  case (Cons raw raws)
  obtain a where a: "f raw = Inr a" "R raw a" using Cons.prems by auto
  obtain as where "try_fold (\<lambda>args raw. rbind (f raw) (\<lambda>a. Inr (args @ [a]))) (acc @ [a]) raws = Inr ((acc @ [a]) @ as)"
      "list_all2 R raws as"
    using Cons.IH[of "acc @ [a]"] Cons.prems by auto
  then show ?case using a by (intro exI[of _ "a # as"]) simp
qed simp

lemma process_case: "(case e of Process p \<Rightarrow> f p) = Inr u \<longleftrightarrow> (\<exists>p. e = Process p \<and> f p = Inr u)"
  by (cases e) simp

text \<open>A manifest that passes the SciCapsule guard uses only the placeholders of the contract.\<close>

lemma capsule_contract_binding:
  assumes "validate_execution_contract m c = Inr ()"
  obtains p where "manifest_execution m = Some (Process p)" "map port_name (cap_inputs c) = [''capsule'', ''policy'', ''request'']"
    "map out_name (proc_outputs p) = [''result'']" "is_absolute (proc_program p)" "proc_working_dir p = None"
    "set (proc_args p) \<subseteq> {''hub-run'', ''--capsule'', ''{input:capsule}'', ''--policy'', ''{input:policy}'', ''--request'',
       ''{input:request}'', ''--result'', ''{output:result}'', ''--scicapsule-program'', ''/opt/scicapsule/bin/scicapsule''}"
proof -
  have common: "map port_name (cap_inputs c) = [''capsule'', ''policy'', ''request'']"
    if "validate_common m c t = Inr ()" for t
  proof -
    have "map (\<lambda>p. (port_name p, port_description p)) (cap_inputs c) =
        [(''capsule'', CAPSULE_MEDIA_TYPE), (''policy'', POLICY_MEDIA_TYPE), (''request'', REQUEST_MEDIA_TYPE)]"
      using that by (simp add: validate_common_def split: if_splits)
    then have "map fst (map (\<lambda>p. (port_name p, port_description p)) (cap_inputs c)) = [''capsule'', ''policy'', ''request'']"
      by simp
    then show ?thesis by (simp add: comp_def)
  qed
  have single: "map out_name (proc_outputs p) = [''result'']" if "validate_single_output p path t = Inr ()" for p path t
    using that by (simp add: validate_single_output_def split: list.splits if_splits)
  consider "validate_capsule_v1 m c = Inr ()" | "validate_capsule_v2 m c = Inr ()"
    using assms by (auto simp: validate_execution_contract_def split: if_splits)
  then show thesis
  proof cases
    case 1
    then obtain p where "manifest_execution m = Some (Process p)" "validate_common m c RESULT_MEDIA_TYPE_V1 = Inr ()"
        "is_absolute (proc_program p)" "proc_working_dir p = None"
        "validate_single_output p ''outputs/scicapsule-result.json'' RESULT_MEDIA_TYPE_V1 = Inr ()"
        "proc_args p = [''hub-run'', ''--capsule'', ''{input:capsule}'', ''--policy'', ''{input:policy}'',
           ''--request'', ''{input:request}'', ''--result'', ''{output:result}'']"
      unfolding validate_capsule_v1_def rbind_Inr_iff if_Inl_iff ok_or_Inr_iff process_case by auto
    then show ?thesis using common single by (intro that[of p]) auto
  next
    case 2
    then obtain p where "manifest_execution m = Some (Process p)" "validate_common m c RESULT_MEDIA_TYPE_V2 = Inr ()"
        "is_absolute (proc_program p)" "proc_working_dir p = None"
        "validate_single_output p ''outputs/scicapsule-result-v2.json'' RESULT_MEDIA_TYPE_V2 = Inr ()"
        "proc_args p = [''--capsule'', ''{input:capsule}'', ''--policy'', ''{input:policy}'',
           ''--request'', ''{input:request}'', ''--result'', ''{output:result}'', ''--scicapsule-program'',
           ''/opt/scicapsule/bin/scicapsule'']"
      unfolding validate_capsule_v2_def rbind_Inr_iff if_Inl_iff ok_or_Inr_iff process_case by auto
    then show ?thesis using common single by (intro that[of p]) auto
  qed
qed

lemma build_request_checked:
  assumes "check_placeholders (Process p) spec = Inr ()" and "canonical_params_bytes ser spec = Inr bs" and "is_utf8 bs"
  shows "\<exists>request. build_request ser path_env lim spec (Some (Process p)) workdir = Inr request
    \<and> list_all2 (resolves_to workdir bs p spec) (proc_args p) (er_args request)
    \<and> er_program request = proc_program p \<and> bt_keys (er_env request) = [''PATH'', ''TMPDIR'']
    \<and> er_timeout_ms request = rspec_timeout_ms spec
    \<and> er_working_dir request = (case proc_working_dir p of Some w \<Rightarrow> w | None \<Rightarrow> workdir)"
proof -
  define f where "f = (\<lambda>raw. substitute_placeholders raw bs
        (bt_of_list (map (\<lambda>i. (ib_name i, path_join (path_join workdir ''inputs'') (ib_name i))) (rspec_inputs spec)))
        (bt_of_list (map (\<lambda>out. (out_name out, path_join workdir (out_path out))) (proc_outputs p))))"
  have "\<exists>a. f raw = Inr a \<and> resolves_to workdir bs p spec raw a" if "raw \<in> set (proc_args p)" for raw
    using assms(1) that substitute_checked[of p spec raw bs workdir]
    by (simp add: check_placeholders_def try_for_Inr_iff f_def)
  then obtain as where "try_fold (\<lambda>args raw. rbind (f raw) (\<lambda>a. Inr (args @ [a]))) [] (proc_args p) = Inr as"
      "list_all2 (resolves_to workdir bs p spec) (proc_args p) as"
    using substitute_all_checked[of "proc_args p" f "resolves_to workdir bs p spec" "[]"] by auto
  then show ?thesis using assms(2,3)
    by (simp add: build_request_def Let_def f_def bt_of_list_def)
qed

lemma capsule_placeholders:
  assumes "set (proc_args p) \<subseteq> {''hub-run'', ''--capsule'', ''{input:capsule}'', ''--policy'', ''{input:policy}'', ''--request'',
       ''{input:request}'', ''--result'', ''{output:result}'', ''--scicapsule-program'', ''/opt/scicapsule/bin/scicapsule''}"
    and "map out_name (proc_outputs p) = [''result'']"
    and "{''capsule'', ''policy'', ''request''} \<subseteq> ib_name ` set (rspec_inputs spec)"
  shows "check_placeholders (Process p) spec = Inr ()"
proof -
  have i: "list_ex (\<lambda>i. ib_name i = n) (rspec_inputs spec)" if "n \<in> {''capsule'', ''policy'', ''request''}" for n
    using assms(3) that by (fastforce simp: list_ex_iff)
  have o': "list_ex (\<lambda>out. out_name out = ''result'') (proc_outputs p)" using assms(2) by (auto simp: list_ex_iff)
  have names: "placeholder ''{input:'' ''{input:capsule}'' = Some ''capsule''"
    "placeholder ''{input:'' ''{input:policy}'' = Some ''policy''" "placeholder ''{input:'' ''{input:request}'' = Some ''request''"
    "placeholder ''{input:'' ''{output:result}'' = None" "placeholder ''{output:'' ''{output:result}'' = Some ''result''"
    by code_simp+
  have literal: "check_placeholder p spec a = Inr ()"
    if "placeholder ''{input:'' a = None \<and> placeholder ''{output:'' a = None \<and> \<not> partial_placeholder a" for a
    using that by (simp add: check_placeholder_def)
  have input: "check_placeholder p spec a = Inr ()"
    if "placeholder ''{input:'' a = Some n" "n \<in> {''capsule'', ''policy'', ''request''}" for a n
    using that i by (simp add: check_placeholder_def)
  have out: "check_placeholder p spec ''{output:result}'' = Inr ()" using o' names(4,5) by (simp add: check_placeholder_def)
  have ins: "check_placeholder p spec ''{input:capsule}'' = Inr ()" "check_placeholder p spec ''{input:policy}'' = Inr ()"
    "check_placeholder p spec ''{input:request}'' = Inr ()"
    by (rule input[OF names(1)], simp, rule input[OF names(2)], simp, rule input[OF names(3)], simp)
  have lits: "check_placeholder p spec ''hub-run'' = Inr ()" "check_placeholder p spec ''--capsule'' = Inr ()"
    "check_placeholder p spec ''--policy'' = Inr ()" "check_placeholder p spec ''--request'' = Inr ()"
    "check_placeholder p spec ''--result'' = Inr ()" "check_placeholder p spec ''--scicapsule-program'' = Inr ()"
    "check_placeholder p spec ''/opt/scicapsule/bin/scicapsule'' = Inr ()"
    by (rule literal, code_simp)+
  have "\<forall>a\<in>{''hub-run'', ''--capsule'', ''{input:capsule}'', ''--policy'', ''{input:policy}'', ''--request'',
       ''{input:request}'', ''--result'', ''{output:result}'', ''--scicapsule-program'', ''/opt/scicapsule/bin/scicapsule''}.
      check_placeholder p spec a = Inr ()"
    unfolding ball_simps by (intro conjI TrueI lits ins out)
  then have "\<forall>a\<in>set (proc_args p). check_placeholder p spec a = Inr ()" using assms(1) by (meson subsetD)
  then show ?thesis by (simp add: check_placeholders_def try_for_Inr_iff)
qed

section \<open>Properties\<close>

text \<open>
  C30. Placeholders checked at submission resolve at execution: the request is built, every
  argument is the one its placeholder names (the parameters, an input path below the working
  directory, a declared output path) or a literal without placeholders, and the child's
  environment has exactly the variables \<open>PATH\<close> and \<open>TMPDIR\<close>.
\<close>
theorem checked_placeholders_resolve:
  assumes "check_placeholders (Process p) spec = Inr ()" and "canonical_params_bytes ser spec = Inr bs" and "is_utf8 bs"
  shows "\<exists>request. build_request ser path_env lim spec (Some (Process p)) workdir = Inr request
    \<and> list_all2 (resolves_to workdir bs p spec) (proc_args p) (er_args request)
    \<and> bt_keys (er_env request) = [''PATH'', ''TMPDIR''] \<and> er_timeout_ms request = rspec_timeout_ms spec"
  using build_request_checked[OF assms, of path_env lim workdir] by (elim ex_forward conjE) (intro conjI)

definition example_binding :: process_binding where
  "example_binding = \<lparr>proc_program = ''/bin/tool'', proc_args = [''{params}'', ''{input:data}'', ''{output:out}'', ''-v''],
     proc_working_dir = None,
     proc_outputs = [\<lparr>out_name = ''out'', out_path = ''o/r.json'', out_media_type = None, out_required = True\<rparr>]\<rparr>"

definition example_limits :: limits where
  "example_limits = \<lparr>max_manifest_bytes = 9, max_args = 9, max_arg_bytes = 64, max_params_bytes = 9, max_inputs = 9,
     max_outputs = 9, max_capture_bytes = 9, max_artifact_bytes = 64, max_timeout_ms = 64\<rparr>"

definition example_spec :: run_spec where
  "example_spec = \<lparr>rspec_component = UuidId 1, rspec_capability = CapabilityName ''a.b'', rspec_parameters = [],
     rspec_inputs = [\<lparr>ib_name = ''data'', ib_artifact = UuidId 5\<rparr>], rspec_timeout_ms = 10\<rparr>"

theorem checked_placeholders_resolve_witness:
  "\<exists>request. build_request (\<lambda>_. Inr ''{}'') ''/bin'' example_limits example_spec (Some (Process example_binding)) ''/w'' = Inr request
    \<and> er_args request = [''{}'', ''/w/inputs/data'', ''/w/o/r.json'', ''-v'']
    \<and> bt_keys (er_env request) = [''PATH'', ''TMPDIR'']"
proof -
  have c: "check_placeholders (Process example_binding) example_spec = Inr ()"
    "canonical_params_bytes (\<lambda>_. Inr ''{}'') example_spec = Inr ''{}''" "is_utf8 ''{}''"
    by code_simp+
  obtain request where
    r: "build_request (\<lambda>_. Inr ''{}'') ''/bin'' example_limits example_spec (Some (Process example_binding)) ''/w'' = Inr request"
      "bt_keys (er_env request) = [''PATH'', ''TMPDIR'']"
    using checked_placeholders_resolve[OF c, of "''/bin''" example_limits "''/w''"] by (elim exE conjE) (rule that)
  have "map_sum id er_args (build_request (\<lambda>_. Inr ''{}'') ''/bin'' example_limits example_spec
      (Some (Process example_binding)) ''/w'') = Inr [''{}'', ''/w/inputs/data'', ''/w/o/r.json'', ''-v'']" by code_simp
  then show ?thesis using r by simp
qed

text \<open>
  A component whose SciCapsule contract passed the guard can be executed: with the three
  inputs of the contract bound, its request is built, its program path is absolute, and it runs
  in the run's own working directory.
\<close>
lemma capsule_contract_executable:
  assumes "validate_execution_contract m c = Inr ()"
    and "map port_name (cap_inputs c) = map ib_name (rspec_inputs spec)"
    and "canonical_params_bytes ser spec = Inr bs" and "is_utf8 bs"
  shows "\<exists>request. build_request ser path_env lim spec (manifest_execution m) workdir = Inr request
    \<and> is_absolute (er_program request) \<and> er_working_dir request = workdir"
proof -
  obtain p where p: "manifest_execution m = Some (Process p)" "map port_name (cap_inputs c) = [''capsule'', ''policy'', ''request'']"
    "map out_name (proc_outputs p) = [''result'']" "is_absolute (proc_program p)" "proc_working_dir p = None"
    "set (proc_args p) \<subseteq> {''hub-run'', ''--capsule'', ''{input:capsule}'', ''--policy'', ''{input:policy}'', ''--request'',
       ''{input:request}'', ''--result'', ''{output:result}'', ''--scicapsule-program'', ''/opt/scicapsule/bin/scicapsule''}"
    using assms(1) by (rule capsule_contract_binding)
  have "set (map ib_name (rspec_inputs spec)) = set [''capsule'', ''policy'', ''request'']" using assms(2) p(2) by metis
  then have "check_placeholders (Process p) spec = Inr ()" by (intro capsule_placeholders p) simp
  from build_request_checked[OF this assms(3,4), of path_env lim workdir] show ?thesis using p by auto
qed

definition example_capsule_capability :: capability where
  "example_capsule_capability = \<lparr>cap_name = CapabilityName CAPSULE_CAPABILITY, contract_version = Version ''1.0.0'',
     cap_inputs = [\<lparr>port_name = ''capsule'', port_description = CAPSULE_MEDIA_TYPE\<rparr>,
       \<lparr>port_name = ''policy'', port_description = POLICY_MEDIA_TYPE\<rparr>,
       \<lparr>port_name = ''request'', port_description = REQUEST_MEDIA_TYPE\<rparr>],
     cap_outputs = [\<lparr>port_name = ''result'', port_description = RESULT_MEDIA_TYPE_V1\<rparr>],
     cap_properties = bt_of_list [(''authorization'', ''local_trust_policy''), (''request_media_type'', REQUEST_MEDIA_TYPE),
       (''result_media_type'', RESULT_MEDIA_TYPE_V1), (''sandbox'', ''none'')]\<rparr>"

definition example_capsule_manifest :: component_manifest where
  "example_capsule_manifest = \<lparr>manifest_schema_version = 1, manifest_id = UuidId 1, manifest_name = ComponentName ''c'',
     manifest_version = Version ''1.0.0'', manifest_kind = ComponentKind ''tool'',
     manifest_capabilities = [example_capsule_capability],
     manifest_execution = Some (Process \<lparr>proc_program = ''/opt/scicapsule'',
       proc_args = [''hub-run'', ''--capsule'', ''{input:capsule}'', ''--policy'', ''{input:policy}'', ''--request'',
         ''{input:request}'', ''--result'', ''{output:result}''],
       proc_working_dir = None, proc_outputs = [\<lparr>out_name = ''result'', out_path = ''outputs/scicapsule-result.json'',
         out_media_type = Some RESULT_MEDIA_TYPE_V1, out_required = True\<rparr>]\<rparr>),
     manifest_source = None,
     manifest_metadata = bt_of_list [(''canonical_capsule_owner'', ''scirust''), (''contract'', CONTRACT_METADATA_V1)]\<rparr>"

end
