(* ===== verification/Hub_Blobs.thy ===== *)
theory Hub_Blobs
  imports Hub_Run
begin

text \<open>
  The content-addressed blob store: \<open>FileSystemArtifactStore\<close> in
  \<open>src/crates/hub-core/src/memory.rs\<close>. The file system is a map from paths to nodes. What the operating
  system may do at a call (fail, deliver a file in chunks, change a file between two calls) is
  an argument of the operation; a failed call leaves the file system as far as the operation
  got. The gate that serialises digest scans is not modelled.
\<close>

section \<open>Model\<close>

subsection \<open>File system\<close>

type_synonym fs_path = "string list"

datatype link_target = Dangling | ToRegular bytes | ToDirectory

datatype fs_node = Regular bytes | Directory | Symlink link_target

type_synonym fs = "fs_path \<Rightarrow> fs_node option"

text \<open>\<open>Path::exists\<close> follows symbolic links; so does opening a file for reading.\<close>

definition path_exists :: "fs \<Rightarrow> fs_path \<Rightarrow> bool" where
  "path_exists s p = (case s p of None \<Rightarrow> False | Some (Symlink Dangling) \<Rightarrow> False | Some _ \<Rightarrow> True)"

fun file_bytes :: "fs_node \<Rightarrow> bytes option" where
  "file_bytes (Regular b) = Some b"
| "file_bytes (Symlink (ToRegular b)) = Some b"
| "file_bytes _ = None"

text \<open>\<open>create_dir_all\<close>: the path and its missing ancestors become directories.\<close>

definition mkdirs :: "fs_path \<Rightarrow> fs \<Rightarrow> fs" where
  "mkdirs p s = (\<lambda>q. if s q = None \<and> take (length q) p = q then Some Directory else s q)"

definition blob_path :: "fs_path \<Rightarrow> content_digest \<Rightarrow> fs_path" where
  "blob_path root d = root @ [''blobs'', take 2 (to_hex d), to_hex d]"

definition blob_open :: "fs_path \<Rightarrow> message option \<Rightarrow> fs \<Rightarrow> unit res \<times> fs" where
  "blob_open root failed s =
     (case failed of
        Some e \<Rightarrow> (Inl (Storage (Fmt ''creating blob dir: {e}'' [FMsg e])), s)
      | None \<Rightarrow> (Inr (), mkdirs (root @ [''blobs'']) s))"

subsection \<open>Writing\<close>

text \<open>Failures of the calls in \<open>put\<close>; a failed write leaves some bytes in the temporary file.\<close>

record put_io =
  io_mkdir :: "message option"
  io_write :: "(message \<times> bytes) option"
  io_rename :: "message option"

definition blob_put :: "(bytes \<Rightarrow> bytes) \<Rightarrow> fs_path \<Rightarrow> put_io \<Rightarrow> string \<Rightarrow> artifact_id \<Rightarrow> bytes \<Rightarrow> u64 \<Rightarrow> bytes
    \<Rightarrow> fs \<Rightarrow> content_digest res \<times> fs" where
  "blob_put sha root io tmp_uuid fresh bs max_bytes domain s =
     (if length bs > unat max_bytes then (Inl (ArtifactTooLarge fresh (of_nat (length bs)) max_bytes), s)
      else
        let d = hash_bytes sha domain bs; path = blob_path root d;
            shard = butlast path; tmp = shard @ [last path @ ''.tmp-'' @ tmp_uuid]
        in if path_exists s path then (Inr d, s)
        else case io_mkdir io of
          Some e \<Rightarrow> (Inl (Storage (Fmt ''creating shard dir: {e}'' [FMsg e])), s)
        | None \<Rightarrow>
            let s1 = mkdirs shard s in
            case io_write io of
              Some (e, partly) \<Rightarrow> (Inl (Storage (Fmt ''writing temp blob: {e}'' [FMsg e])), s1(tmp \<mapsto> Regular partly))
            | None \<Rightarrow>
                let s2 = s1(tmp \<mapsto> Regular bs) in
                (case io_rename io of
                   Some e \<Rightarrow> (Inl (Storage (Fmt ''publishing blob: {e}'' [FMsg e])), s2)
                 | None \<Rightarrow> (Inr d, (s2(tmp := None))(path \<mapsto> Regular bs))))"

text \<open>
  The copy loop of \<open>put_file\<close>, over the results of the \<open>read\<close> calls: the byte count, the digest
  state and the staged bytes; a write at the given offset may fail. A number of chunks that
  reaches the end of file is what the reader delivers.
\<close>

fun copy_loop :: "artifact_id \<Rightarrow> u64 \<Rightarrow> (nat \<Rightarrow> message option) \<Rightarrow> u64 \<Rightarrow> digest_state \<Rightarrow> bytes \<Rightarrow> read_event list
    \<Rightarrow> (u64 \<times> digest_state) res \<times> bytes" where
  "copy_loop fresh max_bytes write count st staged [] = (Inr (count, st), staged)"
| "copy_loop fresh max_bytes write count st staged (Interrupted # rest) = copy_loop fresh max_bytes write count st staged rest"
| "copy_loop fresh max_bytes write count st staged (ReadError e # rest) =
     (Inl (Storage (Fmt ''reading source artifact {source_path:?}: {e}'' [FMsg e])), staged)"
| "copy_loop fresh max_bytes write count st staged (Chunk bs # rest) =
     (if bs = [] then (Inr (count, st), staged)
      else case checked_add count (of_nat (length bs)) of
        None \<Rightarrow> (Inl (ArtifactTooLarge fresh (- 1) max_bytes), staged)
      | Some count' \<Rightarrow>
          if count' > max_bytes then (Inl (ArtifactTooLarge fresh count' max_bytes), staged)
          else case write (length staged) of
            Some e \<Rightarrow> (Inl (Storage (Fmt ''writing staged blob: {e}'' [FMsg e])), staged)
          | None \<Rightarrow> copy_loop fresh max_bytes write count' (digest_update st bs) (staged @ bs) rest)"

text \<open>Failures of the calls in \<open>put_file\<close>; \<open>pf_regular\<close> is whether the opened file is a regular one.\<close>

record put_file_io =
  pf_stat :: message
  pf_open :: "message option"
  pf_regular :: "message + bool"
  pf_incoming :: "message option"
  pf_create :: "message option"
  pf_reader :: "read_event list"
  pf_write :: "nat \<Rightarrow> message option"
  pf_sync :: "message option"
  pf_mkdir :: "message option"
  pf_rename :: "message option"

definition stage_source :: "(bytes \<Rightarrow> bytes) \<Rightarrow> put_file_io \<Rightarrow> artifact_id \<Rightarrow> u64 \<Rightarrow> bytes
    \<Rightarrow> (content_digest \<times> u64) res \<times> bytes" where
  "stage_source sha io fresh max_bytes domain =
     (case copy_loop fresh max_bytes (pf_write io) 0 (digest_new domain) [] (pf_reader io) of
        (Inl e, staged) \<Rightarrow> (Inl e, staged)
      | (Inr (count, st), staged) \<Rightarrow>
          (case pf_sync io of
             Some e \<Rightarrow> (Inl (Storage (Fmt ''syncing staged blob: {e}'' [FMsg e])), staged)
           | None \<Rightarrow> (Inr (digest_finalize sha st, count), staged)))"

definition blob_put_file :: "(bytes \<Rightarrow> bytes) \<Rightarrow> fs_path \<Rightarrow> put_file_io \<Rightarrow> string \<Rightarrow> artifact_id \<Rightarrow> fs_path \<Rightarrow> u64
    \<Rightarrow> bytes \<Rightarrow> fs \<Rightarrow> (content_digest \<times> u64) res \<times> fs" where
  "blob_put_file sha root io tmp_uuid fresh source max_bytes domain s =
     (case s source of
        None \<Rightarrow> (Inl (Storage (Fmt ''stating source artifact {source_path:?}: {e}'' [FMsg (pf_stat io)])), s)
      | Some (Symlink _) \<Rightarrow> (Inl (Storage (plain ''refusing symbolic-link artifact source {source_path:?}'')), s)
      | Some Directory \<Rightarrow> (Inl (Storage (plain ''artifact source {source_path:?} is not a regular file'')), s)
      | Some (Regular _) \<Rightarrow>
        (case pf_open io of
           Some e \<Rightarrow> (Inl (Storage (Fmt ''opening source artifact {source_path:?}: {e}'' [FMsg e])), s)
         | None \<Rightarrow>
        (case pf_regular io of
           Inl e \<Rightarrow> (Inl (Storage (Fmt ''stating opened artifact: {e}'' [FMsg e])), s)
         | Inr False \<Rightarrow> (Inl (Storage (plain ''opened artifact source {source_path:?} is not a regular file'')), s)
         | Inr True \<Rightarrow>
        (case pf_incoming io of
           Some e \<Rightarrow> (Inl (Storage (Fmt ''creating incoming blob dir: {e}'' [FMsg e])), s)
         | None \<Rightarrow>
            let s1 = mkdirs (root @ [''incoming'']) s; tmp = root @ [''incoming'', tmp_uuid @ ''.tmp''] in
        (case pf_create io of
           Some e \<Rightarrow> (Inl (Storage (Fmt ''creating staged blob: {e}'' [FMsg e])), s1)
         | None \<Rightarrow>
        (case stage_source sha io fresh max_bytes domain of
           (Inl e, staged) \<Rightarrow> (Inl e, s1(tmp := None))
         | (Inr (d, count), staged) \<Rightarrow>
            let path = blob_path root d in
            if path_exists s1 path then (Inr (d, count), s1(tmp := None))
            else (case pf_mkdir io of
                Some e \<Rightarrow> (Inl (Storage (Fmt ''creating shard dir: {e}'' [FMsg e])), s1(tmp \<mapsto> Regular staged))
              | None \<Rightarrow>
                  let s2 = mkdirs (butlast path) s1 in
                  (case pf_rename io of
                     Some e \<Rightarrow>
                       if path_exists s2 path then (Inr (d, count), s2(tmp := None))
                       else (Inl (Storage (Fmt ''publishing streamed blob: {e}'' [FMsg e])), s2(tmp := None))
                   | None \<Rightarrow> (Inr (d, count), (s2(tmp := None))(path \<mapsto> Regular staged))))))))))"

subsection \<open>Reading\<close>

definition blob_read :: "fs_path \<Rightarrow> message option \<Rightarrow> message \<Rightarrow> content_digest \<Rightarrow> fs \<Rightarrow> bytes res" where
  "blob_read root failed not_file d s =
     (case s (blob_path root d) of
        None \<Rightarrow> Inl (BlobNotFound (to_hex d))
      | Some (Symlink Dangling) \<Rightarrow> Inl (BlobNotFound (to_hex d))
      | Some n \<Rightarrow>
          (case failed of
             Some e \<Rightarrow> Inl (Storage (Fmt ''reading blob: {e}'' [FMsg e]))
           | None \<Rightarrow> ok_or (Storage (Fmt ''reading blob: {e}'' [FMsg not_file])) (file_bytes n)))"

definition blob_copy_to_path :: "fs_path \<Rightarrow> message option \<Rightarrow> message \<Rightarrow> content_digest \<Rightarrow> fs_path \<Rightarrow> fs \<Rightarrow> unit res \<times> fs" where
  "blob_copy_to_path root failed not_file d dest s =
     (if \<not> path_exists s (blob_path root d) then (Inl (BlobNotFound (to_hex d)), s)
      else case failed of
        Some e \<Rightarrow> (Inl (Storage (Fmt ''copying artifact to {:?}: {e}'' [FMsg e])), s)
      | None \<Rightarrow> (case Option.bind (s (blob_path root d)) file_bytes of
            None \<Rightarrow> (Inl (Storage (Fmt ''copying artifact to {:?}: {e}'' [FMsg not_file])), s)
          | Some bs \<Rightarrow> (Inr (), s(dest \<mapsto> Regular bs))))"

definition blob_contains :: "fs_path \<Rightarrow> content_digest \<Rightarrow> fs \<Rightarrow> bool" where
  "blob_contains root d s = path_exists s (blob_path root d)"

text \<open>
  \<open>read_verified_bounded\<close>: \<open>stat\<close> is the node seen by \<open>symlink_metadata\<close>, \<open>opened\<close> the one that was
  opened (another process may have replaced it in between), \<open>Inl\<close> an error of the call with
  whether it says that there is no such file.
\<close>

type_synonym 'a io = "(bool \<times> message) + 'a"

definition read_error :: "content_digest \<Rightarrow> bool \<times> message \<Rightarrow> core_error" where
  "read_error d e = (if fst e then BlobNotFound (to_hex d) else Storage (Fmt ''reading bounded artifact: {error}'' [FMsg (snd e)]))"

definition read_verified_bounded :: "(bytes \<Rightarrow> bytes) \<Rightarrow> fs_node io \<Rightarrow> fs_node io \<Rightarrow> message option \<Rightarrow> content_digest
    \<Rightarrow> u64 \<Rightarrow> u64 \<Rightarrow> bytes res" where
  "read_verified_bounded sha stat opened failed d expected_size limit =
     (if expected_size > limit then Inl (Storage (plain ''artifact exceeds bounded read limit''))
      else rbind (map_err (read_error d) stat) (\<lambda>n.
        case n of
          Regular _ \<Rightarrow>
            rbind (map_err (read_error d) opened) (\<lambda>f.
              case f of
                Regular content \<Rightarrow>
                  rbind (ok_or (Storage (plain ''artifact read bound overflow'')) (checked_add expected_size 1)) (\<lambda>read_limit.
                    case failed of
                      Some e \<Rightarrow> Inl (Storage (Fmt ''reading bounded artifact: {e}'' [FMsg e]))
                    | None \<Rightarrow>
                        let bs = take (unat read_limit) content in
                        if length bs \<noteq> unat expected_size then Inl (Storage (plain ''artifact byte count mismatch''))
                        else if d \<noteq> hash_bytes sha DOMAIN_ARTIFACT_BLOB bs \<and> d \<noteq> hash_bytes sha DOMAIN_CAPTURE bs then
                          Inl (Storage (plain ''artifact content digest mismatch''))
                        else Inr bs)
              | _ \<Rightarrow> Inl (Storage (plain ''artifact must remain a regular file'')))
        | _ \<Rightarrow> Inl (Storage (plain ''artifact must be a regular non-symlink file''))))"

text \<open>The scan of \<open>verified_raw_sha256\<close>: the byte count and the three digests, fed with the same chunks.\<close>

fun scan_loop :: "u64 \<times> bytes \<times> digest_state \<times> digest_state \<Rightarrow> read_event list
    \<Rightarrow> (u64 \<times> bytes \<times> digest_state \<times> digest_state) res" where
  "scan_loop acc [] = Inr acc"
| "scan_loop acc (Interrupted # rest) = scan_loop acc rest"
| "scan_loop acc (ReadError e # rest) = Inl (Storage (Fmt ''reading blob for portable digest: {e}'' [FMsg e]))"
| "scan_loop (count, raw, art, cap) (Chunk bs # rest) =
     (if bs = [] then Inr (count, raw, art, cap)
      else rbind (ok_or (Storage (plain ''portable digest byte count overflow'')) (checked_add count (of_nat (length bs)))) (\<lambda>count'.
        scan_loop (count', raw @ bs, digest_update art bs, digest_update cap bs) rest))"

definition verified_raw_sha256 :: "(bytes \<Rightarrow> bytes) \<Rightarrow> fs_node io \<Rightarrow> message option \<Rightarrow> read_event list \<Rightarrow> content_digest
    \<Rightarrow> u64 \<Rightarrow> raw_sha256 res" where
  "verified_raw_sha256 sha stat failed reader d expected_size =
     rbind (map_err (\<lambda>e. if fst e then BlobNotFound (to_hex d)
              else Storage (Fmt ''stating blob for portable digest: {e}'' [FMsg (snd e)])) stat) (\<lambda>n.
       case n of
         Regular _ \<Rightarrow>
           (case failed of
              Some e \<Rightarrow> Inl (Storage (Fmt ''opening blob for portable digest: {e}'' [FMsg e]))
            | None \<Rightarrow>
                rbind (scan_loop (0, [], digest_new DOMAIN_ARTIFACT_BLOB, digest_new DOMAIN_CAPTURE) reader)
                  (\<lambda>(count, raw, art, cap).
                    if count \<noteq> expected_size then
                      Inl (Storage (Fmt ''artifact byte count mismatch: metadata={expected_size}, stored={size}''
                        [FNat (unat expected_size), FNat (unat count)]))
                    else if d \<noteq> digest_finalize sha art \<and> d \<noteq> digest_finalize sha cap then
                      Inl (Storage (Fmt ''artifact content digest mismatch for stored blob {content_digest}'' [FStr (to_hex d)]))
                    else Inr (RawSha256 (sha raw))))
       | _ \<Rightarrow> Inl (Storage (plain ''portable digest source must be a regular non-symlink file'')))"

section \<open>Specifications\<close>

definition blob_valid :: "(bytes \<Rightarrow> bytes) \<Rightarrow> content_digest \<Rightarrow> bytes \<Rightarrow> bool" where
  "blob_valid sha d bs \<longleftrightarrow> d = hash_bytes sha DOMAIN_ARTIFACT_BLOB bs \<or> d = hash_bytes sha DOMAIN_CAPTURE bs"

text \<open>Every published blob is a regular file whose contents hash to its name.\<close>

definition blobs_ok :: "(bytes \<Rightarrow> bytes) \<Rightarrow> fs_path \<Rightarrow> fs \<Rightarrow> bool" where
  "blobs_ok sha root s \<longleftrightarrow> (\<forall>d n. s (blob_path root d) = Some n \<longrightarrow> (\<exists>bs. n = Regular bs \<and> blob_valid sha d bs))"

text \<open>The buffer of the read loops has 64 KiB.\<close>

definition chunks_ok :: "read_event list \<Rightarrow> bool" where
  "chunks_ok r \<longleftrightarrow> (\<forall>bs. Chunk bs \<in> set r \<longrightarrow> length bs \<le> 65536)"

definition collision :: "(bytes \<Rightarrow> bytes) \<Rightarrow> bool" where
  "collision sha \<longleftrightarrow> (\<exists>p q. p \<noteq> q \<and> sha p = sha q)"

section \<open>Facts\<close>

subsection \<open>Paths\<close>

lemma hex_char_dot:
  assumes "n < 16"
  shows "hex_char n \<noteq> CHR ''.''"
proof -
  have "hex_char n \<in> set ''0123456789abcdef''" unfolding hex_char_def using assms by (intro nth_mem) simp
  then show ?thesis by auto
qed

lemma to_hex_dot: "CHR ''.'' \<notin> set (to_hex d)"
proof
  assume "CHR ''.'' \<in> set (to_hex d)"
  then obtain c where c: "CHR ''.'' = hex_char (byte_of c div 16) \<or> CHR ''.'' = hex_char (byte_of c mod 16)"
    by (auto simp: to_hex_def hex_of_bytes_def)
  have "byte_of c div 16 < 16" using byte_of_lt[of c] by (simp add: less_mult_imp_div_less del: byte_of_lt)
  with c hex_char_dot[of "byte_of c div 16"] hex_char_dot[of "byte_of c mod 16"] show False by auto
qed

lemma blob_path_inj [simp]: "blob_path root d = blob_path root d' \<longleftrightarrow> d = d'"
  by (auto simp: blob_path_def)

lemma blob_path_parts: "butlast (blob_path root d) = root @ [''blobs'', take 2 (to_hex d)]" "last (blob_path root d) = to_hex d"
  by (simp_all add: blob_path_def butlast_append)

lemma tmp_not_blob: "root @ [''blobs'', x] @ [y @ ''.tmp-'' @ z] \<noteq> blob_path root d"
proof
  assume "root @ [''blobs'', x] @ [y @ ''.tmp-'' @ z] = blob_path root d"
  then have "to_hex d = y @ ''.tmp-'' @ z" by (simp add: blob_path_def)
  then show False using to_hex_dot[of d] by simp
qed

lemma incoming_not_blob: "root @ [''incoming'', x] \<noteq> blob_path root d"
  by (simp add: blob_path_def)

lemma mkdirs_longer: "length p < length q \<Longrightarrow> mkdirs p s q = s q"
  by (metis (no_types, lifting) leD length_take min.cobounded1 mkdirs_def)

lemma mkdirs_shard: "mkdirs (root @ [''blobs'', x]) s (blob_path root d) = s (blob_path root d)"
  by (rule mkdirs_longer) (simp add: blob_path_def)

lemma mkdirs_incoming: "mkdirs (root @ [''incoming'']) s (blob_path root d) = s (blob_path root d)"
  by (rule mkdirs_longer) (simp add: blob_path_def)

lemma blobs_ok_cong: "(\<And>d. s' (blob_path root d) = s (blob_path root d)) \<Longrightarrow> blobs_ok sha root s' \<longleftrightarrow> blobs_ok sha root s"
  by (simp add: blobs_ok_def)

lemma blobs_ok_publish:
  assumes "blobs_ok sha root s" and "blob_valid sha d bs"
    and "\<And>d'. s' (blob_path root d') = (if d' = d then Some (Regular bs) else s (blob_path root d'))"
  shows "blobs_ok sha root s'"
  using assms unfolding blobs_ok_def by (metis option.inject)

lemma exists_stored:
  assumes "blobs_ok sha root s" and "path_exists s (blob_path root d)"
  shows "\<exists>bs. s (blob_path root d) = Some (Regular bs) \<and> blob_valid sha d bs"
  using assms by (auto simp: path_exists_def blobs_ok_def split: option.splits)

lemma blob_valid_unique:
  assumes "blob_valid sha d bs" and "d = hash_bytes sha domain bs'" and "domain \<in> {DOMAIN_ARTIFACT_BLOB, DOMAIN_CAPTURE}"
  shows "bs = bs' \<or> collision sha"
proof -
  obtain domain' where d': "d = hash_bytes sha domain' bs" "domain' \<in> {DOMAIN_ARTIFACT_BLOB, DOMAIN_CAPTURE}"
    using assms(1) by (auto simp: blob_valid_def)
  have len: "length x < 2 ^ 64" if "x \<in> {DOMAIN_ARTIFACT_BLOB, DOMAIN_CAPTURE}" for x
    using that by (auto simp: DOMAIN_ARTIFACT_BLOB_def DOMAIN_CAPTURE_def)
  let ?p = "PREFIX @ le_bytes 8 (length domain') @ domain' @ bs" and ?q = "PREFIX @ le_bytes 8 (length domain) @ domain @ bs'"
  have same: "sha ?p = sha ?q" using d'(1) assms(2) by (simp add: fed_hash)
  show ?thesis
  proof (cases "?p = ?q")
    case True
    then show ?thesis using preimage_inj[OF True len[OF d'(2)] len[OF assms(3)]] by simp
  next
    case False
    then show ?thesis using same unfolding collision_def by metis
  qed
qed

subsection \<open>Writing\<close>

lemma blob_put_spec:
  assumes "blobs_ok sha root s" and "domain \<in> {DOMAIN_ARTIFACT_BLOB, DOMAIN_CAPTURE}"
    and "blob_put sha root io u fresh bs max_bytes domain s = (out, s')"
  shows "blobs_ok sha root s'" and "out = Inr d \<Longrightarrow> d = hash_bytes sha domain bs \<and> length bs \<le> unat max_bytes
    \<and> (\<exists>b. s' (blob_path root d) = Some (Regular b) \<and> blob_valid sha d b)"
proof -
  define d0 where "d0 = hash_bytes sha domain bs"
  define shard where "shard = butlast (blob_path root d0)"
  define tmp where "tmp = shard @ [last (blob_path root d0) @ ''.tmp-'' @ u]"
  have valid: "blob_valid sha d0 bs" using assms(2) by (auto simp: d0_def blob_valid_def)
  have paths: "mkdirs shard s (blob_path root d) = s (blob_path root d)" "blob_path root d \<noteq> tmp" "tmp \<noteq> blob_path root d" for d
    using mkdirs_shard tmp_not_blob[of root "take 2 (to_hex d0)" "to_hex d0" u d]
    by (auto simp: shard_def tmp_def blob_path_parts)
  note step = assms(3)[unfolded blob_put_def Let_def, folded d0_def, folded shard_def, folded tmp_def]
  have "(\<forall>d. s' (blob_path root d) = s (blob_path root d)) \<or>
      (\<forall>d. s' (blob_path root d) = (if d = d0 then Some (Regular bs) else s (blob_path root d)))"
    using step by (auto simp: paths split: if_splits option.splits prod.splits)
  then show "blobs_ok sha root s'"
    using blobs_ok_cong[of s' root s] blobs_ok_publish[OF assms(1) valid] assms(1) by blast
  show "d = hash_bytes sha domain bs \<and> length bs \<le> unat max_bytes
      \<and> (\<exists>b. s' (blob_path root d) = Some (Regular b) \<and> blob_valid sha d b)" if "out = Inr d"
    using step that exists_stored[OF assms(1), of d0] valid
    by (auto simp: d0_def[symmetric] split: if_splits option.splits prod.splits)
qed

lemma copy_loop_spec:
  assumes "copy_loop fresh max_bytes w count st staged r = (Inr (count', st'), staged')" and "chunks_ok r" and "count \<le> max_bytes"
  shows "reader_error r = None \<and> staged' = staged @ delivered r \<and> st' = digest_update st (delivered r)
    \<and> unat count' = unat count + length (delivered r) \<and> count' \<le> max_bytes"
  using assms
proof (induction r arbitrary: count st staged rule: delivered.induct)
  case (2 bs rest)
  show ?case
  proof (cases "bs = []")
    case False
    have rest: "chunks_ok rest" and len: "length bs \<le> 65536" using "2.prems"(2) by (auto simp: chunks_ok_def)
    have u: "unat (of_nat (length bs) :: u64) = length bs" using len by (simp add: unat_of_nat)
    obtain c where c: "checked_add count (of_nat (length bs)) = Some c" "c \<le> max_bytes"
        "copy_loop fresh max_bytes w c (digest_update st bs) (staged @ bs) rest = (Inr (count', st'), staged')"
      using "2.prems"(1) False by (auto split: option.splits if_splits)
    have "unat c = unat count + length bs" using c(1) u by (simp add: checked_add_Some_iff)
    then show ?thesis using "2.IH"[OF False c(3) rest c(2)] False by (simp add: digest_update_append)
  qed (use "2.prems" in \<open>simp add: digest_update_Nil\<close>)
qed (auto simp: digest_update_Nil chunks_ok_def)

lemma stage_source_spec:
  assumes "stage_source sha io fresh max_bytes domain = (Inr (d, count), staged)" and "chunks_ok (pf_reader io)"
  shows "staged = delivered (pf_reader io) \<and> d = hash_bytes sha domain staged \<and> unat count = length staged \<and> count \<le> max_bytes"
proof -
  obtain st where "copy_loop fresh max_bytes (pf_write io) 0 (digest_new domain) [] (pf_reader io) = (Inr (count, st), staged)"
      "d = digest_finalize sha st"
    using assms(1) by (auto simp: stage_source_def split: sum.splits prod.splits option.splits)
  with copy_loop_spec[OF this(1) assms(2)] show ?thesis by (simp add: hash_bytes_def)
qed

lemma blob_put_file_spec:
  assumes "blobs_ok sha root s" and "domain \<in> {DOMAIN_ARTIFACT_BLOB, DOMAIN_CAPTURE}" and "chunks_ok (pf_reader io)"
    and "blob_put_file sha root io u fresh source max_bytes domain s = (out, s')"
  shows "blobs_ok sha root s'" and "out = Inr (d, count) \<Longrightarrow> d = hash_bytes sha domain (delivered (pf_reader io))
    \<and> unat count = length (delivered (pf_reader io)) \<and> count \<le> max_bytes
    \<and> (\<exists>b. s' (blob_path root d) = Some (Regular b) \<and> blob_valid sha d b) \<and> (\<exists>b. s source = Some (Regular b))"
proof -
  have tmp: "root @ [''incoming'', x] \<noteq> blob_path root d" for x d by (rule incoming_not_blob)
  note paths = mkdirs_shard mkdirs_incoming tmp tmp[symmetric] blob_path_parts
  have "(\<forall>d. s' (blob_path root d) = s (blob_path root d)) \<or>
      (\<exists>d c staged. stage_source sha io fresh max_bytes domain = (Inr (d, c), staged) \<and>
        (\<forall>d'. s' (blob_path root d') = (if d' = d then Some (Regular staged) else s (blob_path root d'))))"
    using assms(4) unfolding blob_put_file_def Let_def
    by (simp add: paths split: if_split_asm option.split_asm prod.split_asm sum.split_asm fs_node.split_asm bool.split_asm)
      (auto simp: paths)
  then show "blobs_ok sha root s'"
  proof (elim disjE exE conjE)
    fix d c staged
    assume st: "stage_source sha io fresh max_bytes domain = (Inr (d, c), staged)"
      and eff: "\<forall>d'. s' (blob_path root d') = (if d' = d then Some (Regular staged) else s (blob_path root d'))"
    have "blob_valid sha d staged" using stage_source_spec[OF st assms(3)] assms(2) by (auto simp: blob_valid_def)
    then show ?thesis using eff by (intro blobs_ok_publish[OF assms(1)]) auto
  qed (use blobs_ok_cong[of s' root s] assms(1) in blast)
  have exists: "path_exists (mkdirs (root @ [''incoming'']) s) (blob_path root d) = path_exists s (blob_path root d)" for d
    by (simp add: path_exists_def mkdirs_incoming)
  show "d = hash_bytes sha domain (delivered (pf_reader io))
    \<and> unat count = length (delivered (pf_reader io)) \<and> count \<le> max_bytes
    \<and> (\<exists>b. s' (blob_path root d) = Some (Regular b) \<and> blob_valid sha d b) \<and> (\<exists>b. s source = Some (Regular b))"
    if out: "out = Inr (d, count)"
  proof -
    obtain staged where st: "stage_source sha io fresh max_bytes domain = (Inr (d, count), staged)"
      and src: "\<exists>b. s source = Some (Regular b)"
      and fin: "s' (blob_path root d) = Some (Regular staged) \<or>
        path_exists s (blob_path root d) \<and> s' (blob_path root d) = s (blob_path root d)"
      using assms(4) out unfolding blob_put_file_def Let_def
      by (auto simp: paths exists path_exists_def
          split: if_splits option.splits prod.splits sum.splits fs_node.splits bool.splits)
    note stage_source_spec[OF st assms(3)]
    then show ?thesis using fin src exists_stored[OF assms(1)] assms(2) by (auto simp: blob_valid_def)
  qed
qed

lemma blob_put_persists:
  assumes "blob_put sha root io u fresh bs max_bytes domain s = (out, s')" and "s (blob_path root d) = Some (Regular b)"
  shows "s' (blob_path root d) = Some (Regular b)"
proof -
  define d0 where "d0 = hash_bytes sha domain bs"
  define shard where "shard = butlast (blob_path root d0)"
  define tmp where "tmp = shard @ [last (blob_path root d0) @ ''.tmp-'' @ u]"
  have paths: "mkdirs shard s (blob_path root d) = s (blob_path root d)" "blob_path root d \<noteq> tmp" "tmp \<noteq> blob_path root d" for d
    using mkdirs_shard tmp_not_blob[of root "take 2 (to_hex d0)" "to_hex d0" u d]
    by (auto simp: shard_def tmp_def blob_path_parts)
  note step = assms(1)[unfolded blob_put_def Let_def, folded d0_def, folded shard_def, folded tmp_def]
  have "path_exists s (blob_path root d)" using assms(2) by (simp add: path_exists_def)
  then show ?thesis using step assms(2) by (auto simp: paths split: if_splits option.splits prod.splits)
qed

lemma blob_put_file_persists:
  assumes "blob_put_file sha root io u fresh source max_bytes domain s = (out, s')" and "s (blob_path root d) = Some (Regular b)"
  shows "s' (blob_path root d) = Some (Regular b)"
proof -
  have tmp: "root @ [''incoming'', x] \<noteq> blob_path root d" for x d by (rule incoming_not_blob)
  note paths = mkdirs_shard mkdirs_incoming tmp tmp[symmetric] blob_path_parts
  have exists: "path_exists (mkdirs (root @ [''incoming'']) s) (blob_path root d)" using assms(2) by (simp add: path_exists_def mkdirs_incoming)
  then show ?thesis
    using assms unfolding blob_put_file_def Let_def
    by (simp add: paths split: if_split_asm option.split_asm prod.split_asm sum.split_asm fs_node.split_asm bool.split_asm)
      (auto simp: paths)
qed

lemma blob_read_stored: "s (blob_path root d) = Some (Regular b) \<Longrightarrow> blob_read root None nf d s = Inr b"
  by (simp add: blob_read_def)

lemma blob_read_Inr:
  assumes "blobs_ok sha root s"
  shows "blob_read root None nf d s = Inr b \<longleftrightarrow> s (blob_path root d) = Some (Regular b)"
proof
  assume r: "blob_read root None nf d s = Inr b"
  then obtain n where n: "s (blob_path root d) = Some n" by (auto simp: blob_read_def split: option.splits)
  then obtain b' where "n = Regular b'" using assms by (auto simp: blobs_ok_def)
  with n r show "s (blob_path root d) = Some (Regular b)" by (simp add: blob_read_def)
qed (rule blob_read_stored)

subsection \<open>The store's contract\<close>

text \<open>
  \<open>ArtifactStore\<close>: a write that succeeds returns the digest of the bytes, under which they
  can be read from then on; \<open>clash\<close> is the event that the hash function collides.
\<close>

locale artifact_store =
  fixes put :: "'c \<Rightarrow> bytes \<Rightarrow> 's \<Rightarrow> content_digest res \<times> 's" and read :: "'s \<Rightarrow> content_digest \<Rightarrow> bytes res"
    and inv :: "'s \<Rightarrow> bool" and admissible :: "'c \<Rightarrow> bool" and hash :: "'c \<Rightarrow> bytes \<Rightarrow> content_digest" and clash :: bool
  assumes put_inv: "inv s \<Longrightarrow> admissible c \<Longrightarrow> inv (snd (put c bs s))"
    and put_read: "inv s \<Longrightarrow> admissible c \<Longrightarrow> put c bs s = (Inr d, s') \<Longrightarrow>
      d = hash c bs \<and> (\<exists>b. read s' d = Inr b \<and> (b = bs \<or> clash))"
    and put_keeps: "inv s \<Longrightarrow> admissible c \<Longrightarrow> read s d = Inr b \<Longrightarrow> read (snd (put c bs s)) d = Inr b"
begin

lemma puts_keep:
  assumes "inv s" and "\<forall>(c, bs)\<in>set calls. admissible c" and "read s d = Inr b"
  shows "read (fold (\<lambda>(c, bs) s. snd (put c bs s)) calls s) d = Inr b"
  using assms by (induction calls arbitrary: s) (auto simp: put_inv put_keeps)

lemma put_puts_read:
  assumes "inv s" and "admissible c" and "put c bs s = (Inr d, s')" and "\<forall>(c, bs)\<in>set calls. admissible c"
  shows "d = hash c bs \<and> (\<exists>b. read (fold (\<lambda>(c, bs) s. snd (put c bs s)) calls s') d = Inr b \<and> (b = bs \<or> clash))"
proof -
  have "inv s'" using put_inv[OF assms(1,2), of bs] assms(3) by simp
  then show ?thesis using put_read[OF assms(1-3)] puts_keep assms(4) by blast
qed

end

record put_call =
  pc_io :: put_io
  pc_tmp :: string
  pc_id :: artifact_id
  pc_max :: u64
  pc_domain :: bytes

definition blob_put_call :: "(bytes \<Rightarrow> bytes) \<Rightarrow> fs_path \<Rightarrow> put_call \<Rightarrow> bytes \<Rightarrow> fs \<Rightarrow> content_digest res \<times> fs" where
  "blob_put_call sha root c bs s = blob_put sha root (pc_io c) (pc_tmp c) (pc_id c) bs (pc_max c) (pc_domain c) s"

interpretation file_blobs: artifact_store "blob_put_call sha root" "\<lambda>s d. blob_read root None nf d s" "blobs_ok sha root"
  "\<lambda>c. pc_domain c \<in> {DOMAIN_ARTIFACT_BLOB, DOMAIN_CAPTURE}" "\<lambda>c. hash_bytes sha (pc_domain c)" "collision sha"
  for sha :: "bytes \<Rightarrow> bytes" and root :: fs_path and nf :: message
proof
  fix s bs d s' b and c :: put_call
  assume inv: "blobs_ok sha root s" and dom: "pc_domain c \<in> {DOMAIN_ARTIFACT_BLOB, DOMAIN_CAPTURE}"
  obtain out t where t: "blob_put sha root (pc_io c) (pc_tmp c) (pc_id c) bs (pc_max c) (pc_domain c) s = (out, t)"
    by fastforce
  then have call: "blob_put_call sha root c bs s = (out, t)" by (simp add: blob_put_call_def)
  show "blobs_ok sha root (snd (blob_put_call sha root c bs s))" using blob_put_spec(1)[OF inv dom t] call by simp
  show "blob_read root None nf d (snd (blob_put_call sha root c bs s)) = Inr b" if "blob_read root None nf d s = Inr b"
    using that blob_put_persists[OF t] blob_read_stored call by (simp add: blob_read_Inr[OF inv])
  show "d = hash_bytes sha (pc_domain c) bs \<and> (\<exists>b. blob_read root None nf d s' = Inr b \<and> (b = bs \<or> collision sha))"
    if "blob_put_call sha root c bs s = (Inr d, s')"
  proof -
    have "out = Inr d" "t = s'" using that call by auto
    with blob_put_spec(2)[OF inv dom t, of d] show ?thesis
      using blob_valid_unique[of sha d _ "pc_domain c" bs] dom blob_read_stored by metis
  qed
qed

section \<open>Properties\<close>


definition example_call :: put_call where
  "example_call = \<lparr>pc_io = \<lparr>io_mkdir = None, io_write = None, io_rename = None\<rparr>, pc_tmp = ''u'', pc_id = UuidId 1,
     pc_max = 9, pc_domain = DOMAIN_CAPTURE\<rparr>"


text \<open>
  Streaming a file into the store stores exactly the bytes the reader delivered: the
  returned digest and size are theirs, the size is within the limit, and reading the digest
  returns them unless the hash function collides.
\<close>
theorem blob_put_file_streams:
  assumes "blobs_ok sha root s" and "domain \<in> {DOMAIN_ARTIFACT_BLOB, DOMAIN_CAPTURE}" and "chunks_ok (pf_reader io)"
    and "blob_put_file sha root io u fresh source max_bytes domain s = (Inr (d, n), s')"
  shows "d = hash_bytes sha domain (delivered (pf_reader io)) \<and> unat n = length (delivered (pf_reader io)) \<and> n \<le> max_bytes
    \<and> (\<exists>b. s source = Some (Regular b))
    \<and> (\<exists>b. blob_read root None nf d s' = Inr b \<and> (b = delivered (pf_reader io) \<or> collision sha))"
proof -
  note f = blob_put_file_spec(2)[OF assms refl]
  then obtain b where "s' (blob_path root d) = Some (Regular b)" "blob_valid sha d b" by blast
  then show ?thesis using f blob_read_stored blob_valid_unique assms(2) by metis
qed

definition example_file_io :: put_file_io where
  "example_file_io = \<lparr>pf_stat = plain ''e'', pf_open = None, pf_regular = Inr True, pf_incoming = None, pf_create = None,
     pf_reader = [Chunk ''ab'', Interrupted, Chunk ''c'', Chunk []], pf_write = (\<lambda>_. None), pf_sync = None, pf_mkdir = None,
     pf_rename = None\<rparr>"

theorem blob_put_file_streams_witness:
  "\<exists>d n s'. blob_put_file id [''r''] example_file_io ''u'' (UuidId 1) [''w'', ''f''] 9 DOMAIN_ARTIFACT_BLOB
       ((\<lambda>_. None)([''w'', ''f''] \<mapsto> Regular ''abc'')) = (Inr (d, n), s') \<and> unat n = 3"
proof -
  let ?s = "(\<lambda>_. None)([''w'', ''f''] \<mapsto> Regular ''abc'')"
  have "map_prod (map_sum id snd) id (stage_source id example_file_io (UuidId 1) 9 DOMAIN_ARTIFACT_BLOB) = (Inr 3, ''abc'')"
    by code_simp
  then obtain d0 where stage: "stage_source id example_file_io (UuidId 1) 9 DOMAIN_ARTIFACT_BLOB = (Inr (d0, 3), ''abc'')"
    by (cases "stage_source id example_file_io (UuidId 1) 9 DOMAIN_ARTIFACT_BLOB"; cases "fst (stage_source id example_file_io (UuidId 1) 9 DOMAIN_ARTIFACT_BLOB)") auto
  have io: "pf_open example_file_io = None" "pf_regular example_file_io = Inr True" "pf_incoming example_file_io = None"
      "pf_create example_file_io = None" "pf_mkdir example_file_io = None" "pf_rename example_file_io = None"
    by (simp_all add: example_file_io_def)
  obtain d n s' where put: "blob_put_file id [''r''] example_file_io ''u'' (UuidId 1) [''w'', ''f''] 9 DOMAIN_ARTIFACT_BLOB ?s =
      (Inr (d, n), s')"
    by (cases "path_exists (mkdirs [''r'', ''incoming''] ?s) (blob_path [''r''] d0)")
      (simp_all add: blob_put_file_def stage io Let_def)
  have "unat n = length (delivered (pf_reader example_file_io))"
  proof (rule blob_put_file_streams[OF _ _ _ put, THEN conjunct2, THEN conjunct1])
    show "blobs_ok id [''r''] ?s" by (auto simp: blobs_ok_def blob_path_def)
    show "chunks_ok (pf_reader example_file_io)" by (auto simp: chunks_ok_def example_file_io_def)
  qed simp
  then show ?thesis using put by (auto simp: example_file_io_def)
qed

lemma scan_loop_spec:
  assumes "scan_loop (count, raw, art, cap) r = Inr (count', raw', art', cap')" and "chunks_ok r"
  shows "raw' = raw @ delivered r \<and> art' = digest_update art (delivered r) \<and> cap' = digest_update cap (delivered r)
    \<and> unat count' = unat count + length (delivered r)"
  using assms
proof (induction r arbitrary: count raw art cap rule: delivered.induct)
  case (2 bs rest)
  show ?case
  proof (cases "bs = []")
    case False
    have rest: "chunks_ok rest" and len: "length bs \<le> 65536" using "2.prems"(2) by (auto simp: chunks_ok_def)
    have u: "unat (of_nat (length bs) :: u64) = length bs" using len by (simp add: unat_of_nat)
    obtain c where c: "checked_add count (of_nat (length bs)) = Some c"
        "scan_loop (c, raw @ bs, digest_update art bs, digest_update cap bs) rest = Inr (count', raw', art', cap')"
      using "2.prems"(1) False by (auto simp: rbind_Inr_iff ok_or_Inr_iff)
    have "unat c = unat count + length bs" using c(1) u by (simp add: checked_add_Some_iff)
    then show ?thesis using "2.IH"[OF False c(2) rest] False by (simp add: digest_update_append)
  qed (use "2.prems" in \<open>simp add: digest_update_Nil\<close>)
qed (auto simp: digest_update_Nil chunks_ok_def)

lemma regular_case: "(case n of Regular b \<Rightarrow> f b | Directory \<Rightarrow> Inl e | Symlink t \<Rightarrow> Inl e) = Inr y \<longleftrightarrow> (\<exists>b. n = Regular b \<and> f b = Inr y)"
  by (cases n) simp_all

lemma no_failure: "(case failed of None \<Rightarrow> x | Some e \<Rightarrow> Inl (g e)) = Inr y \<longleftrightarrow> failed = None \<and> x = Inr y"
  by (cases failed) simp_all



end
