(* ===== verification/Hub_Action.thy ===== *)
theory Hub_Action
  imports Hub_Error
begin

text \<open>
  Actions: operations on a state that return a result or an error, and the state they leave in
  either case. This is how the methods of the orchestrator are modelled: \<open>?\<close> in the source is
  \<open>sbind\<close> here, and what was written before an early return stays written.
\<close>

section \<open>Model\<close>

type_synonym ('s, 'a) action = "'s \<Rightarrow> 'a res \<times> 's"

definition sret :: "'a \<Rightarrow> ('s, 'a) action" where "sret x = (\<lambda>s. (Inr x, s))"
definition sfail :: "core_error \<Rightarrow> ('s, 'a) action" where "sfail e = (\<lambda>s. (Inl e, s))"
definition slift :: "'a res \<Rightarrow> ('s, 'a) action" where "slift r = (\<lambda>s. (r, s))"

definition sbind :: "('s, 'a) action \<Rightarrow> ('a \<Rightarrow> ('s, 'b) action) \<Rightarrow> ('s, 'b) action" where
  "sbind m f = (\<lambda>s. case m s of (Inl e, s') \<Rightarrow> (Inl e, s') | (Inr x, s') \<Rightarrow> f x s')"

section \<open>Specifications\<close>

text \<open>A state predicate an action keeps, whether it succeeds or fails; the errors it may return.\<close>

definition keeps :: "('s \<Rightarrow> bool) \<Rightarrow> ('s, 'a) action \<Rightarrow> bool" where
  "keeps I m \<longleftrightarrow> (\<forall>s. I s \<longrightarrow> I (snd (m s)))"

definition fails_with :: "(core_error \<Rightarrow> bool) \<Rightarrow> ('s, 'a) action \<Rightarrow> bool" where
  "fails_with E m \<longleftrightarrow> (\<forall>s e s'. m s = (Inl e, s') \<longrightarrow> E e)"

section \<open>Facts\<close>

named_theorems action_simps \<open>when the combinators of actions return a value\<close>
named_theorems keeps_intros \<open>predicates kept by the combinators of actions\<close>
named_theorems fails_intros \<open>errors of the combinators of actions\<close>

lemma sbind_Inr_iff [action_simps]:
  "sbind m f s = (Inr y, s') \<longleftrightarrow> (\<exists>x s1. m s = (Inr x, s1) \<and> f x s1 = (Inr y, s'))"
  by (auto simp: sbind_def split: prod.splits sum.splits)

lemma sbind_Inl_iff:
  "sbind m f s = (Inl e, s') \<longleftrightarrow> m s = (Inl e, s') \<or> (\<exists>x s1. m s = (Inr x, s1) \<and> f x s1 = (Inl e, s'))"
  by (auto simp: sbind_def split: prod.splits sum.splits)

lemma action_iff [action_simps]:
  "sret x s = (r, s') \<longleftrightarrow> r = Inr x \<and> s' = s"
  "sfail e s = (r, s') \<longleftrightarrow> r = Inl e \<and> s' = s"
  "slift q s = (r, s') \<longleftrightarrow> q = r \<and> s' = s"
  by (auto simp: sret_def sfail_def slift_def)

lemma keepsD: "keeps I m \<Longrightarrow> I s \<Longrightarrow> m s = (q, s') \<Longrightarrow> I s'"
  unfolding keeps_def by (metis snd_conv)

lemma keeps_basic [keeps_intros]:
  "keeps I (sret x)" "keeps I (sfail e)" "keeps I (slift q)" "keeps I (\<lambda>s. (g s, s))"
  by (simp_all add: keeps_def sret_def sfail_def slift_def)

lemma keeps_sbind [keeps_intros]:
  assumes "keeps I m" and "\<And>x. keeps I (f x)"
  shows "keeps I (sbind m f)"
  using assms by (auto simp: keeps_def sbind_def split: prod.splits sum.splits)

lemma keeps_sbind_on:
  assumes "keeps I m" and "\<And>s x s1. I s \<Longrightarrow> m s = (Inr x, s1) \<Longrightarrow> I s1 \<Longrightarrow> I (snd (f x s1))"
  shows "keeps I (sbind m f)"
  using assms by (auto simp: keeps_def sbind_def split: prod.splits sum.splits)

text \<open>After a lifted result only its values matter.\<close>

lemma keeps_slift_on: "(\<And>x. q = Inr x \<Longrightarrow> keeps I (f x)) \<Longrightarrow> keeps I (sbind (slift q) f)"
  by (rule keeps_sbind_on) (auto simp: keeps_def slift_def)

lemma keeps_if [keeps_intros]: "(b \<Longrightarrow> keeps I m) \<Longrightarrow> (\<not> b \<Longrightarrow> keeps I m') \<Longrightarrow> keeps I (if b then m else m')"
  by simp

lemma keeps_option [keeps_intros]:
  "(q = None \<Longrightarrow> keeps I m) \<Longrightarrow> (\<And>x. q = Some x \<Longrightarrow> keeps I (f x)) \<Longrightarrow> keeps I (case q of None \<Rightarrow> m | Some x \<Rightarrow> f x)"
  by (simp split: option.splits)

lemma keeps_prod [keeps_intros]: "(\<And>x y. q = (x, y) \<Longrightarrow> keeps I (f x y)) \<Longrightarrow> keeps I (case q of (x, y) \<Rightarrow> f x y)"
  by (simp split: prod.splits)

lemma fails_basic [fails_intros]:
  "fails_with E (sret x)" "E e \<Longrightarrow> fails_with E (sfail e)" "(\<And>e. q = Inl e \<Longrightarrow> E e) \<Longrightarrow> fails_with E (slift q)"
  "(\<And>s e. g s = Inl e \<Longrightarrow> E e) \<Longrightarrow> fails_with E (\<lambda>s. (g s, s))"
  by (auto simp: fails_with_def sret_def sfail_def slift_def)

lemma fails_sbind [fails_intros]:
  "fails_with E m \<Longrightarrow> (\<And>x. fails_with E (f x)) \<Longrightarrow> fails_with E (sbind m f)"
  unfolding fails_with_def sbind_Inl_iff by blast

lemma fails_if [fails_intros]:
  "(b \<Longrightarrow> fails_with E m) \<Longrightarrow> (\<not> b \<Longrightarrow> fails_with E m') \<Longrightarrow> fails_with E (if b then m else m')"
  by simp

lemma fails_option [fails_intros]:
  "(q = None \<Longrightarrow> fails_with E m) \<Longrightarrow> (\<And>x. q = Some x \<Longrightarrow> fails_with E (f x)) \<Longrightarrow> fails_with E (case q of None \<Rightarrow> m | Some x \<Rightarrow> f x)"
  by (simp split: option.splits)

lemma fails_prod [fails_intros]: "(\<And>x y. q = (x, y) \<Longrightarrow> fails_with E (f x y)) \<Longrightarrow> fails_with E (case q of (x, y) \<Rightarrow> f x y)"
  by (simp split: prod.splits)

end
