(* ===== verification/Hub_Orchestrator.thy ===== *)
theory Hub_Orchestrator
  imports Hub_Action Hub_Store Hub_Publication Hub_Exec Hub_Blobs "HOL-Library.Sublist"
begin

text \<open>
  The run half of the orchestrator: \<open>src/crates/hub-core/src/orchestrator.rs\<close>, lines 89 to 900
  and \<open>reproduce_run\<close>. Its state is the in-memory repositories, the file system and the maps of
  live cancellation tokens. An operation takes the state and returns a result and the state it
  leaves, also when it fails. Fresh ids, clock readings and what the operating system and the
  executor do are arguments. Log output is not modelled.
\<close>

section \<open>Model\<close>

subsection \<open>State and environment\<close>

record hub =
  h_components :: components
  h_runs :: runs
  h_artifacts :: artifact_metas
  h_workflows :: workflows
  h_fences :: fences
  h_fs :: fs
  h_active_cancels :: "(run_id, bool) btree"
  h_active_workflow_cancels :: "(workflow_id, bool) btree"
  h_active_workflow_runs :: "(workflow_id, run_id list) btree"

definition hub_new :: "fs \<Rightarrow> hub" where
  "hub_new t = \<lparr>h_components = [], h_runs = [], h_artifacts = [], h_workflows = [], h_fences = [], h_fs = t,
     h_active_cancels = [], h_active_workflow_cancels = [], h_active_workflow_runs = []\<rparr>"

text \<open>What one hub is assembled from: hash, serialisers, uuid text, limits and directories.\<close>

record hub_env =
  he_sha :: "bytes \<Rightarrow> bytes"
  he_mser :: manifest_ser
  he_pser :: params_ser
  he_us :: uuid_str
  he_limits :: limits
  he_blob_root :: fs_path
  he_workdir_root :: string
  he_workdir_path :: fs_path
  he_path_env :: string

definition put_run :: "run_record \<Rightarrow> (hub, unit) action" where
  "put_run r = (\<lambda>s. (Inr (), s\<lparr>h_runs := runs_put r (h_runs s)\<rparr>))"

definition put_artifact :: "artifact_meta \<Rightarrow> (hub, unit) action" where
  "put_artifact m = (\<lambda>s. (Inr (), s\<lparr>h_artifacts := artifacts_put m (h_artifacts s)\<rparr>))"

definition on_fs :: "(fs \<Rightarrow> 'a res \<times> fs) \<Rightarrow> (hub, 'a) action" where
  "on_fs f = (\<lambda>s. case f (h_fs s) of (r, t) \<Rightarrow> (r, s\<lparr>h_fs := t\<rparr>))"

subsection \<open>Registry\<close>

datatype registration_status = RegistrationCreated | AlreadyRegistered

definition register_component :: "hub_env \<Rightarrow> component_manifest \<Rightarrow> (hub, registration_status) action" where
  "register_component env m =
     sbind (slift (validate_manifest m)) (\<lambda>_ s.
       case components_put (he_sha env) (he_mser env) m (h_components s) of
         Inl e \<Rightarrow> (Inl e, s)
       | Inr (inserted, cs) \<Rightarrow>
           sbind (slift (manifest_digest (he_sha env) (he_mser env) m))
             (\<lambda>_. sret (if inserted then RegistrationCreated else AlreadyRegistered)) (s\<lparr>h_components := cs\<rparr>))"

definition discover_by_capability :: "capability_name \<Rightarrow> hub \<Rightarrow> component_manifest list" where
  "discover_by_capability c s =
     (let latest_by_id = fold (\<lambda>m. bt_insert (manifest_id m) m) (components_list (h_components s)) [] in
      filter (\<lambda>m. find_capability m c \<noteq> None) (bt_values latest_by_id))"

subsection \<open>External artifacts\<close>

definition ingest_artifact :: "hub_env \<Rightarrow> put_io \<Rightarrow> string \<Rightarrow> artifact_id \<Rightarrow> u64 \<Rightarrow> string \<Rightarrow> string \<Rightarrow> bytes
    \<Rightarrow> (hub, artifact_meta) action" where
  "ingest_artifact env io tmp fresh now name media_type bs =
     (let limit = max_artifact_bytes (he_limits env) in
      if length bs > unat limit then sfail (ArtifactTooLarge fresh (of_nat (length bs)) limit)
      else
        let meta = \<lparr>am_id = fresh, am_name = name, am_media_type = media_type,
              am_digest = hash_bytes (he_sha env) DOMAIN_ARTIFACT_BLOB bs, am_size = of_nat (length bs),
              am_created_at = now, am_produced_by_run = None\<rparr>
        in
        sbind (slift (validate_artifact_meta meta)) (\<lambda>_.
        sbind (on_fs (blob_put (he_sha env) (he_blob_root env) io tmp fresh bs limit DOMAIN_ARTIFACT_BLOB)) (\<lambda>_.
        sbind (put_artifact meta) (\<lambda>_. sret meta))))"

subsection \<open>Submission\<close>

text \<open>The manifest and capability a run is admitted under, with the checks of a pin.\<close>

definition admit_manifest :: "hub_env \<Rightarrow> hub \<Rightarrow> run_spec \<Rightarrow> component_admission_pin option
    \<Rightarrow> (component_manifest \<times> content_digest \<times> capability) res" where
  "admit_manifest env s spec pin =
     rbind (ok_or (ComponentNotFound (rspec_component spec))
        (case pin of
           Some p \<Rightarrow> components_get (h_components s) (rspec_component spec) (pin_component_version p)
         | None \<Rightarrow> components_latest (h_components s) (rspec_component spec))) (\<lambda>m.
     rbind (manifest_digest (he_sha env) (he_mser env) m) (\<lambda>d.
     rbind (case pin of
         Some p \<Rightarrow> if d \<noteq> pin_manifest_digest p then
             Inl (Validation (Fmt ''component {} version {} manifest digest {} does not match required {}''
               [id_arg (manifest_id m), FStr (version_str (manifest_version m)), FStr (to_hex d), FStr (to_hex (pin_manifest_digest p))]))
           else Inr ()
       | None \<Rightarrow> Inr ()) (\<lambda>_.
     rbind (ok_or (CapabilityNotDeclared (rspec_component spec) (cap_str (rspec_capability spec)))
        (find_capability m (rspec_capability spec))) (\<lambda>c.
     rbind (case pin of
         Some p \<Rightarrow> if contract_version c \<noteq> pin_contract_version p then
             Inl (Validation (Fmt ''capability {} contract version {} does not match required {}''
               [FStr (cap_str (cap_name c)), FStr (version_str (contract_version c)), FStr (version_str (pin_contract_version p))]))
           else Inr ()
       | None \<Rightarrow> Inr ()) (\<lambda>_. Inr (m, d, c))))))"

text \<open>Every port is bound, nothing else is, and the bound artifacts exist.\<close>

definition check_bindings :: "hub \<Rightarrow> run_spec \<Rightarrow> capability \<Rightarrow> unit res" where
  "check_bindings s spec c =
     (let port_names = map port_name (cap_inputs c); binding_names = map ib_name (rspec_inputs spec) in
      rbind (try_for (\<lambda>n. if n \<notin> set binding_names
          then Inl (MissingInputBinding (cap_str (rspec_capability spec)) n) else Inr ()) port_names) (\<lambda>_.
      rbind (try_for (\<lambda>n. if n \<notin> set port_names
          then Inl (Validation (Fmt ''input {name:?} does not match any input port of capability {}''
            [FDebug n, FStr (cap_str (rspec_capability spec))])) else Inr ()) binding_names) (\<lambda>_.
        try_for (\<lambda>i. if artifacts_get (h_artifacts s) (ib_artifact i) = None
          then Inl (ArtifactNotFound (ib_artifact i)) else Inr ()) (rspec_inputs spec))))"

definition submit_run_internal :: "hub_env \<Rightarrow> run_id \<Rightarrow> u64 \<Rightarrow> run_spec \<Rightarrow> run_id option \<Rightarrow> component_admission_pin option
    \<Rightarrow> (hub, run_record) action" where
  "submit_run_internal env fresh now spec reproduced_from pin =
     sbind (slift (validate_run_spec (he_pser env) (he_limits env) spec)) (\<lambda>_.
     sbind (\<lambda>s. (admit_manifest env s spec pin, s)) (\<lambda>(m, d, c).
     sbind (slift (if cap_str (rspec_capability spec) = CAPSULE_CAPABILITY then validate_execution_contract m c else Inr ())) (\<lambda>_.
     sbind (\<lambda>s. (check_bindings s spec c, s)) (\<lambda>_.
     sbind (slift (case manifest_execution m of Some b \<Rightarrow> check_placeholders b spec | None \<Rightarrow> Inr ())) (\<lambda>_.
     sbind (slift (run_create (he_pser env) fresh spec (name_str (manifest_name m)) (manifest_version m)
        (contract_version c) now (he_limits env))) (\<lambda>r0.
     sbind (slift (run_transition_to Run_Validated now
        (r0\<lparr>run_manifest_digest := Some d, run_reproduced_from := reproduced_from\<rparr>))) (\<lambda>r1.
     sbind (slift (run_transition_to Run_Queued now r1)) (\<lambda>r2.
     sbind (put_run r2) (\<lambda>_. sret r2)))))))))"

definition submit_run :: "hub_env \<Rightarrow> run_id \<Rightarrow> u64 \<Rightarrow> run_spec \<Rightarrow> (hub, run_record) action" where
  "submit_run env fresh now spec = submit_run_internal env fresh now spec None None"

definition submit_run_pinned :: "hub_env \<Rightarrow> run_id \<Rightarrow> u64 \<Rightarrow> run_spec \<Rightarrow> component_admission_pin \<Rightarrow> (hub, run_record) action" where
  "submit_run_pinned env fresh now spec pin = submit_run_internal env fresh now spec None (Some pin)"

subsection \<open>Execution\<close>

text \<open>
  What the operating system and the executor do during one execution, and the ids and clock
  readings it draws: failures of calls by input or output name, the executor, the changes the
  process makes to the file system, and whether the working directory could be removed.
\<close>

record run_io =
  rio_workdir :: "message option"
  rio_copy :: "string \<Rightarrow> message option"
  rio_not_file :: message
  rio_output_dir :: "string \<Rightarrow> message option"
  rio_started :: u64
  rio_executor :: executor
  rio_process :: "fs \<Rightarrow> fs"
  rio_failed_at :: u64
  rio_finished :: u64
  rio_stream_put :: "string \<Rightarrow> put_io"
  rio_stat :: "string \<Rightarrow> message option"
  rio_put_file :: "string \<Rightarrow> put_file_io"
  rio_tmp :: "string \<Rightarrow> string"
  rio_artifact :: "string \<Rightarrow> artifact_id"
  rio_removed :: bool

text \<open>\<open>workdir.join(path)\<close> as a path of the file system.\<close>

fun component_text :: "path_component \<Rightarrow> string list" where
  "component_text (Normal s) = [s]"
| "component_text ParentDir = [''..'']"
| "component_text RootDir = []"
| "component_text CurDir = []"

definition fs_join :: "fs_path \<Rightarrow> string \<Rightarrow> fs_path" where
  "fs_join workdir path =
     (if starts_with ''/'' path then concat (map component_text (path_components path))
      else workdir @ concat (map component_text (path_components path)))"

text \<open>The manifest captured at submission, with the digest recorded for a record that has none.\<close>

definition resolve_manifest :: "hub_env \<Rightarrow> hub \<Rightarrow> run_record \<Rightarrow> (component_manifest \<times> run_record) res" where
  "resolve_manifest env s r =
     (let spec = run_spec_of r in
      rbind (ok_or (ComponentNotFound (rspec_component spec))
        (components_get (h_components s) (rspec_component spec) (run_component_version r))) (\<lambda>m.
      rbind (manifest_digest (he_sha env) (he_mser env) m) (\<lambda>d.
      rbind (case run_manifest_digest r of
          Some expected \<Rightarrow>
            if d \<noteq> expected then
              Inl (Validation (Fmt ''component {} version {} manifest digest changed from recorded {} to {}''
                [id_arg (manifest_id m), FStr (version_str (manifest_version m)), FStr (to_hex expected), FStr (to_hex d)]))
            else Inr r
        | None \<Rightarrow> Inr (r\<lparr>run_manifest_digest := Some d\<rparr>)) (\<lambda>r'.
      rbind (ok_or (CapabilityNotDeclared (rspec_component spec) (cap_str (rspec_capability spec)))
        (find_capability m (rspec_capability spec))) (\<lambda>c.
        if contract_version c \<noteq> run_contract_version r then
          Inl (Validation (Fmt ''capability {} contract version changed from recorded {} to {}''
            [FStr (cap_str (cap_name c)), FStr (version_str (run_contract_version r)), FStr (version_str (contract_version c))]))
        else Inr (m, r'))))))"

fun materialize_inputs :: "hub_env \<Rightarrow> run_io \<Rightarrow> fs_path \<Rightarrow> input_binding list \<Rightarrow> (hub, input_provenance list) action" where
  "materialize_inputs env io workdir [] = sret []"
| "materialize_inputs env io workdir (i # rest) =
     sbind (\<lambda>s. (ok_or (ArtifactNotFound (ib_artifact i)) (artifacts_get (h_artifacts s) (ib_artifact i)), s)) (\<lambda>meta.
     sbind (on_fs (blob_copy_to_path (he_blob_root env) (rio_copy io (ib_name i)) (rio_not_file io) (am_digest meta)
        (workdir @ [''inputs'', ib_name i]))) (\<lambda>_.
     sbind (materialize_inputs env io workdir rest) (\<lambda>ps.
       sret (\<lparr>ip_name = ib_name i, ip_artifact = ib_artifact i, ip_digest = am_digest meta, ip_size = am_size meta\<rparr> # ps))))"

definition declared_outputs :: "execution_binding option \<Rightarrow> output_spec list" where
  "declared_outputs binding = (case binding of Some (Process p) \<Rightarrow> proc_outputs p | None \<Rightarrow> [])"

fun make_output_dirs :: "run_io \<Rightarrow> fs_path \<Rightarrow> output_spec list \<Rightarrow> (hub, unit) action" where
  "make_output_dirs io workdir [] = sret ()"
| "make_output_dirs io workdir (out # rest) =
     (case rio_output_dir io (out_name out) of
        Some e \<Rightarrow> sfail (Storage (Fmt ''creating output dir {:?}: {e}'' [FMsg e]))
      | None \<Rightarrow> sbind (on_fs (\<lambda>t. (Inr (), mkdirs (butlast (fs_join workdir (out_path out))) t)))
          (\<lambda>_. make_output_dirs io workdir rest))"

text \<open>Reports for the two failures of an executor that are results of the run.\<close>

definition executor_stopped :: "string \<Rightarrow> bool \<Rightarrow> u64 \<Rightarrow> execution_report" where
  "executor_stopped backend timed_out ms =
     \<lparr>rep_outcome = \<lparr>eo_exit_code = None, eo_signal = None, eo_timed_out = timed_out, eo_cancelled = \<not> timed_out,
        eo_start_error = None, eo_duration_ms = ms, eo_stdout = [], eo_stdout_truncated = False, eo_stderr = [],
        eo_stderr_truncated = False\<rparr>,
      rep_backend_id = backend\<rparr>"

definition run_process :: "hub_env \<Rightarrow> run_io \<Rightarrow> run_record \<Rightarrow> execution_binding option \<Rightarrow> string
    \<Rightarrow> (hub, execution_report) action" where
  "run_process env io r binding workdir =
     (case build_request (he_pser env) (he_path_env env) (he_limits env) (run_spec_of r) binding workdir of
        Inl e \<Rightarrow>
          sbind (slift (run_transition_to Run_Failed (rio_failed_at io) r)) (\<lambda>r'.
          sbind (put_run r') (\<lambda>_. sfail e))
      | Inr request \<Rightarrow>
          sbind (on_fs (\<lambda>t. (Inr (), rio_process io t))) (\<lambda>_.
            case ex_execute_report (rio_executor io) request of
              Inr report \<Rightarrow> sret report
            | Inl (TimedOut ms) \<Rightarrow> sret (executor_stopped (ex_backend_id (rio_executor io)) True ms)
            | Inl ExecCancelled \<Rightarrow> sret (executor_stopped (ex_backend_id (rio_executor io)) False 0)
            | Inl (Backend reason) \<Rightarrow> sfail (ExecutionFailed (run_id r) (Backend reason))))"

text \<open>The non-empty captured streams become artifacts.\<close>

fun persist_streams :: "hub_env \<Rightarrow> run_io \<Rightarrow> run_record \<Rightarrow> u64 \<Rightarrow> (string \<times> bytes \<times> bool) list
    \<Rightarrow> (hub, output_ref list) action" where
  "persist_streams env io r now [] = sret []"
| "persist_streams env io r now ((name, bs, truncated) # rest) =
     (if bs = [] then persist_streams env io r now rest
      else
        let label = (if truncated then name @ ''-truncated'' else name) in
        sbind (on_fs (blob_put (he_sha env) (he_blob_root env) (rio_stream_put io name) (rio_tmp io name) (rio_artifact io name)
          bs (max_artifact_bytes (he_limits env)) DOMAIN_CAPTURE)) (\<lambda>d.
        let meta = \<lparr>am_id = rio_artifact io name, am_name = he_us env (as_uuid (run_id r)) @ ''-'' @ label,
              am_media_type = ''text/plain; charset=utf-8'', am_digest = d, am_size = of_nat (length bs), am_created_at = now,
              am_produced_by_run = Some (run_id r)\<rparr>
        in
        sbind (slift (validate_artifact_meta meta)) (\<lambda>_.
        sbind (put_artifact meta) (\<lambda>_.
        sbind (persist_streams env io r now rest) (\<lambda>refs.
          sret (\<lparr>oref_name = name, oref_artifact = am_id meta, oref_digest = d, oref_size = am_size meta\<rparr> # refs))))))"

definition persist_stream_artifacts :: "hub_env \<Rightarrow> run_io \<Rightarrow> run_record \<Rightarrow> execution_outcome \<Rightarrow> u64
    \<Rightarrow> (hub, output_ref list) action" where
  "persist_stream_artifacts env io r outcome now =
     persist_streams env io r now
       [(''stdout'', eo_stdout outcome, eo_stdout_truncated outcome), (''stderr'', eo_stderr outcome, eo_stderr_truncated outcome)]"

definition ingest_output_file :: "hub_env \<Rightarrow> run_io \<Rightarrow> run_record \<Rightarrow> output_spec \<Rightarrow> fs_path \<Rightarrow> u64
    \<Rightarrow> (hub, output_ref option) action" where
  "ingest_output_file env io r out workdir now =
     (\<lambda>s. let path = fs_join workdir (out_path out); label = ''file:'' @ out_name out in
        case rio_stat io (out_name out) of
          Some e \<Rightarrow> (Inl (Storage (Fmt ''stating output {:?}: {error}'' [FDebug (out_path out), FMsg e])), s)
        | None \<Rightarrow>
          (case h_fs s path of
             None \<Rightarrow> (Inr None, s)
           | Some (Symlink _) \<Rightarrow>
               (Inl (Storage (Fmt ''declared output {:?} must not be a symbolic link'' [FDebug (out_path out)])), s)
           | Some Directory \<Rightarrow> (Inr None, s)
           | Some (Regular _) \<Rightarrow>
               sbind (on_fs (blob_put_file (he_sha env) (he_blob_root env) (rio_put_file io (out_name out)) (rio_tmp io label)
                 (rio_artifact io label) path (max_artifact_bytes (he_limits env)) DOMAIN_ARTIFACT_BLOB)) (\<lambda>(d, count).
               let meta = \<lparr>am_id = rio_artifact io label, am_name = he_us env (as_uuid (run_id r)) @ ''-'' @ out_name out,
                     am_media_type = unwrap_or ''application/octet-stream'' (out_media_type out), am_digest = d,
                     am_size = count, am_created_at = now, am_produced_by_run = Some (run_id r)\<rparr>
               in
               sbind (slift (validate_artifact_meta meta)) (\<lambda>_.
               sbind (put_artifact meta) (\<lambda>_.
                 sret (Some \<lparr>oref_name = label, oref_artifact = am_id meta, oref_digest = d, oref_size = count\<rparr>)))) s))"

text \<open>The declared outputs of a clean exit: the references and the names of missing required ones.\<close>

fun ingest_outputs :: "hub_env \<Rightarrow> run_io \<Rightarrow> run_record \<Rightarrow> fs_path \<Rightarrow> u64 \<Rightarrow> output_spec list
    \<Rightarrow> (hub, output_ref list \<times> string list) action" where
  "ingest_outputs env io r workdir now [] = sret ([], [])"
| "ingest_outputs env io r workdir now (out # rest) =
     sbind (ingest_output_file env io r out workdir now) (\<lambda>found.
     sbind (ingest_outputs env io r workdir now rest) (\<lambda>(refs, missing).
       sret (case found of
           Some reference \<Rightarrow> (reference # refs, missing)
         | None \<Rightarrow> (refs, if out_required out then out_name out # missing else missing))))"

definition run_failure :: "execution_outcome \<Rightarrow> u64 \<Rightarrow> string list \<Rightarrow> string option" where
  "run_failure outcome timeout_ms missing =
     (if exited_cleanly outcome \<and> missing = [] then None
      else if eo_cancelled outcome then Some ''cancelled''
      else if eo_timed_out outcome then Some (''timed out after '' @ show_nat (unat timeout_ms) @ '' ms'')
      else if missing \<noteq> [] then Some (''required output(s) not produced: '' @ join '', '' missing)
      else case eo_start_error outcome of
        Some e \<Rightarrow> Some (''failed to start: '' @ e)
      | None \<Rightarrow>
          (case eo_exit_code outcome of
             Some code \<Rightarrow> Some (''non-zero exit code '' @ show_int code)
           | None \<Rightarrow> Some ''terminated by signal''))"

definition final_state :: "execution_outcome \<Rightarrow> string list \<Rightarrow> run_state" where
  "final_state outcome missing =
     (if eo_cancelled outcome \<and> \<not> eo_timed_out outcome then Run_Cancelled
      else if exited_cleanly outcome \<and> missing = [] then Run_Succeeded
      else Run_Failed)"

definition remove_dir :: "fs_path \<Rightarrow> fs \<Rightarrow> fs" where
  "remove_dir p t = (\<lambda>q. if take (length p) q = p then None else t q)"

text \<open>From the started run to the terminal record (\<open>execute_run_inner\<close> after the transition to running).\<close>

definition finish_run :: "hub_env \<Rightarrow> run_io \<Rightarrow> run_record \<Rightarrow> execution_binding option \<Rightarrow> fs_path \<Rightarrow> input_provenance list
    \<Rightarrow> execution_report \<Rightarrow> (hub, run_record) action" where
  "finish_run env io r binding workdir provenance report =
     (let outcome = rep_outcome report; now = rio_finished io in
      sbind (slift (params_digest (he_sha env) (he_pser env) (run_spec_of r))) (\<lambda>pd.
      sbind (persist_stream_artifacts env io r outcome now) (\<lambda>streams.
      sbind (if exited_cleanly outcome then ingest_outputs env io r workdir now (declared_outputs binding) else sret ([], []))
        (\<lambda>(files, missing).
      let r' = r\<lparr>run_outcome_of := Some \<lparr>ro_exit_code = eo_exit_code outcome, ro_signal = eo_signal outcome,
            ro_timed_out = eo_timed_out outcome, ro_cancelled = eo_cancelled outcome,
            ro_executor_backend = rep_backend_id report, ro_duration_ms = saturating_sub now (rio_started io),
            ro_inputs = provenance, ro_outputs = streams @ files, ro_env_keys = [''PATH'', ''TMPDIR''],
            ro_params_digest = pd, ro_failure = run_failure outcome (rspec_timeout_ms (run_spec_of r)) missing\<rparr>\<rparr>
      in
      sbind (slift (run_transition_to (final_state outcome missing) now r')) (\<lambda>r''.
      sbind (put_run r'') (\<lambda>_.
      sbind (on_fs (\<lambda>t. (Inr (), if rio_removed io then remove_dir workdir t else t))) (\<lambda>_. sret r'')))))))"

definition execute_run_inner :: "hub_env \<Rightarrow> run_io \<Rightarrow> run_id \<Rightarrow> (hub, run_record) action" where
  "execute_run_inner env io i =
     sbind (\<lambda>s. (ok_or (RunNotFound i) (runs_get (h_runs s) i), s)) (\<lambda>r0.
     if run_state_of r0 \<noteq> Run_Queued then sfail (RunNotExecutable i (run_state_of r0))
     else
       sbind (\<lambda>s. (resolve_manifest env s r0, s)) (\<lambda>(m, r1).
       let binding = manifest_execution m; dir = he_us env (as_uuid i); workdir = he_workdir_path env @ [dir] in
       sbind (case rio_workdir io of
           Some e \<Rightarrow> sfail (Storage (Fmt ''creating run workdir: {e}'' [FMsg e]))
         | None \<Rightarrow> on_fs (\<lambda>t. (Inr (), mkdirs (workdir @ [''inputs'']) t))) (\<lambda>_.
       sbind (materialize_inputs env io workdir (rspec_inputs (run_spec_of r1))) (\<lambda>provenance.
       sbind (make_output_dirs io workdir (declared_outputs binding)) (\<lambda>_.
       sbind (slift (run_transition_to Run_Running (rio_started io) r1)) (\<lambda>r2.
       sbind (put_run r2) (\<lambda>_.
       sbind (run_process env io r2 binding (path_join (he_workdir_root env) dir)) (\<lambda>report.
         finish_run env io r2 binding workdir provenance report))))))))"

definition execute_run :: "hub_env \<Rightarrow> run_io \<Rightarrow> run_id \<Rightarrow> (hub, run_record) action" where
  "execute_run env io i s =
     (if bt_get (h_active_cancels s) i \<noteq> None then (Inl (RunNotExecutable i Run_Running), s)
      else case execute_run_inner env io i (s\<lparr>h_active_cancels := bt_insert i False (h_active_cancels s)\<rparr>) of
        (result, s') \<Rightarrow> (result, s'\<lparr>h_active_cancels := bt_remove i (h_active_cancels s')\<rparr>))"

subsection \<open>Cancellation, queries and reproduction\<close>

definition cancel_run :: "u64 \<Rightarrow> run_id \<Rightarrow> (hub, bool) action" where
  "cancel_run now i s =
     (if bt_get (h_active_cancels s) i \<noteq> None then
        (Inr True, s\<lparr>h_active_cancels := bt_insert i True (h_active_cancels s)\<rparr>)
      else case runs_get (h_runs s) i of
        None \<Rightarrow> (Inl (RunNotFound i), s)
      | Some r \<Rightarrow>
          if run_is_terminal (run_state_of r) then (Inr False, s)
          else sbind (slift (run_transition_to Run_Cancelled now r)) (\<lambda>r'. sbind (put_run r') (\<lambda>_. sret False)) s)"

definition artifact_bytes :: "hub_env \<Rightarrow> message option \<Rightarrow> message \<Rightarrow> artifact_id \<Rightarrow> hub \<Rightarrow> (artifact_meta \<times> bytes) res" where
  "artifact_bytes env failed not_file i s =
     rbind (ok_or (ArtifactNotFound i) (artifacts_get (h_artifacts s) i)) (\<lambda>meta.
     rbind (blob_read (he_blob_root env) failed not_file (am_digest meta) (h_fs s)) (\<lambda>bs. Inr (meta, bs)))"

definition artifact_bytes_bounded :: "hub_env \<Rightarrow> (content_digest \<Rightarrow> fs_node io) \<Rightarrow> (content_digest \<Rightarrow> fs_node io)
    \<Rightarrow> message option \<Rightarrow> artifact_id \<Rightarrow> u64 \<Rightarrow> hub \<Rightarrow> (artifact_meta \<times> bytes) res" where
  "artifact_bytes_bounded env stat opened failed i limit s =
     rbind (ok_or (ArtifactNotFound i) (artifacts_get (h_artifacts s) i)) (\<lambda>meta.
     if am_size meta > limit then Inl (ArtifactTooLarge i (am_size meta) limit)
     else rbind (read_verified_bounded (he_sha env) (stat (am_digest meta)) (opened (am_digest meta)) failed
        (am_digest meta) (am_size meta) limit) (\<lambda>bs. Inr (meta, bs)))"

definition artifact_raw_sha256 :: "hub_env \<Rightarrow> (content_digest \<Rightarrow> fs_node io) \<Rightarrow> message option \<Rightarrow> read_event list
    \<Rightarrow> artifact_id \<Rightarrow> hub \<Rightarrow> (artifact_meta \<times> raw_sha256) res" where
  "artifact_raw_sha256 env stat failed reader i s =
     rbind (ok_or (ArtifactNotFound i) (artifacts_get (h_artifacts s) i)) (\<lambda>meta.
     rbind (verified_raw_sha256 (he_sha env) (stat (am_digest meta)) failed reader (am_digest meta) (am_size meta))
       (\<lambda>raw. Inr (meta, raw)))"

text \<open>The checks of \<open>reproduce_run\<close>; the result is the digest of the registered manifest.\<close>

definition check_reproducible :: "hub_env \<Rightarrow> hub \<Rightarrow> run_record \<Rightarrow> content_digest res" where
  "check_reproducible env s original =
     (let spec = run_spec_of original in
      rbind (ok_or (ComponentNotFound (rspec_component spec))
        (components_get (h_components s) (rspec_component spec) (run_component_version original))) (\<lambda>m.
      rbind (manifest_digest (he_sha env) (he_mser env) m) (\<lambda>d.
      rbind (case run_manifest_digest original of
          Some expected \<Rightarrow>
            if d \<noteq> expected then
              Inl (Validation (Fmt ''component {} version {} manifest digest changed from recorded {} to {}''
                [id_arg (manifest_id m), FStr (version_str (manifest_version m)), FStr (to_hex expected), FStr (to_hex d)]))
            else Inr ()
        | None \<Rightarrow> Inr ()) (\<lambda>_.
      rbind (ok_or (CapabilityNotDeclared (rspec_component spec) (cap_str (rspec_capability spec)))
        (find_capability m (rspec_capability spec))) (\<lambda>c.
      rbind (if contract_version c \<noteq> run_contract_version original then
          Inl (Validation (Fmt ''capability {} contract version changed from recorded {} to {}''
            [FStr (cap_str (cap_name c)), FStr (version_str (run_contract_version original)), FStr (version_str (contract_version c))]))
        else Inr ()) (\<lambda>_.
      rbind (try_for (\<lambda>i. if artifacts_get (h_artifacts s) (ib_artifact i) = None
          then Inl (ArtifactNotFound (ib_artifact i)) else Inr ()) (rspec_inputs spec)) (\<lambda>_. Inr d)))))))"

definition reproduce_run :: "hub_env \<Rightarrow> run_id \<Rightarrow> u64 \<Rightarrow> run_id \<Rightarrow> (hub, run_record) action" where
  "reproduce_run env fresh now i =
     sbind (\<lambda>s. (ok_or (RunNotFound i) (runs_get (h_runs s) i), s)) (\<lambda>original.
     sbind (\<lambda>s. (check_reproducible env s original, s)) (\<lambda>d.
       submit_run_internal env fresh now (run_spec_of original) (Some i)
         (Some \<lparr>pin_component_version = run_component_version original, pin_manifest_digest = d,
                pin_contract_version = run_contract_version original\<rparr>)))"

section \<open>Specifications\<close>

text \<open>Well-formed repositories: keys, validated manifests and legal run histories.\<close>

definition hub_wf :: "hub \<Rightarrow> bool" where
  "hub_wf s \<longleftrightarrow> keyed manifest_key (h_components s)
     \<and> (\<forall>i v m. components_get (h_components s) i v = Some m \<longrightarrow> validate_manifest m = Inr ())
     \<and> keyed run_id (h_runs s) \<and> (\<forall>i r. runs_get (h_runs s) i = Some r \<longrightarrow> run_wf r)
     \<and> keyed am_id (h_artifacts s) \<and> bt_wf (h_active_cancels s)"

text \<open>What the execution of one run leaves alone; new artifact metadata names the run.\<close>

definition only_run :: "run_id \<Rightarrow> hub \<Rightarrow> hub \<Rightarrow> bool" where
  "only_run i s s' \<longleftrightarrow>
     h_components s' = h_components s \<and> h_workflows s' = h_workflows s \<and> h_fences s' = h_fences s
     \<and> h_active_cancels s' = h_active_cancels s \<and> h_active_workflow_cancels s' = h_active_workflow_cancels s
     \<and> h_active_workflow_runs s' = h_active_workflow_runs s
     \<and> (\<forall>j. j \<noteq> i \<longrightarrow> runs_get (h_runs s') j = runs_get (h_runs s) j)
     \<and> (\<forall>a m. artifacts_get (h_artifacts s') a = Some m \<longrightarrow>
          artifacts_get (h_artifacts s) a = Some m \<or> am_produced_by_run m = Some i)"

text \<open>
  Artifact metadata never dangles: the blob it names is stored, its bytes hash to the digest,
  and they have the recorded size unless the hash function collides.
\<close>

definition blob_stored :: "hub_env \<Rightarrow> content_digest \<Rightarrow> nat \<Rightarrow> hub \<Rightarrow> bool" where
  "blob_stored env d n s \<longleftrightarrow> (\<exists>bs. h_fs s (blob_path (he_blob_root env) d) = Some (Regular bs)
     \<and> blob_valid (he_sha env) d bs \<and> (length bs = n \<or> collision (he_sha env)))"

definition artifacts_stored :: "hub_env \<Rightarrow> hub \<Rightarrow> bool" where
  "artifacts_stored env s \<longleftrightarrow> blobs_ok (he_sha env) (he_blob_root env) (h_fs s)
     \<and> (\<forall>a m. artifacts_get (h_artifacts s) a = Some m \<longrightarrow> blob_stored env (am_digest m) (unat (am_size m)) s)"

text \<open>
  The directories of blobs and runs lie apart, the artifact limit is a length an allocation can
  have, and what a process does stays outside the blob store.
\<close>

definition confined :: "hub_env \<Rightarrow> run_io \<Rightarrow> bool" where
  "confined env io \<longleftrightarrow> \<not> prefix (he_workdir_path env) (he_blob_root env) \<and> \<not> prefix (he_blob_root env) (he_workdir_path env)
     \<and> (\<forall>name. chunks_ok (pf_reader (rio_put_file io name)))
     \<and> (\<forall>t d. rio_process io t (blob_path (he_blob_root env) d) = t (blob_path (he_blob_root env) d))"

section \<open>Facts\<close>

subsection \<open>Actions of the hub\<close>

lemma hub_action_iff [action_simps]:
  "put_run a h = (u, h') \<longleftrightarrow> u = Inr () \<and> h' = h\<lparr>h_runs := runs_put a (h_runs h)\<rparr>"
  "put_artifact b h = (u, h') \<longleftrightarrow> u = Inr () \<and> h' = h\<lparr>h_artifacts := artifacts_put b (h_artifacts h)\<rparr>"
  by (auto simp: put_run_def put_artifact_def)

lemma on_fs_iff [action_simps]:
  "on_fs f h = (q, h') \<longleftrightarrow> (\<exists>t. f (h_fs h) = (q, t) \<and> h' = h\<lparr>h_fs := t\<rparr>)"
  by (auto simp: on_fs_def split: prod.splits)

lemma fails_hub [fails_intros]:
  "fails_with E (put_run r)" "fails_with E (put_artifact a)"
  "(\<And>t e t'. f t = (Inl e, t') \<Longrightarrow> E e) \<Longrightarrow> fails_with E (on_fs f)"
  by (auto simp: fails_with_def action_simps)

lemma resolve_manifest_Inr:
  "resolve_manifest env s r = Inr (m, r') \<longleftrightarrow>
     components_get (h_components s) (rspec_component (run_spec_of r)) (run_component_version r) = Some m
     \<and> (\<exists>d. manifest_digest (he_sha env) (he_mser env) m = Inr d \<and> run_manifest_digest r \<in> {None, Some d}
          \<and> r' = r\<lparr>run_manifest_digest := Some d\<rparr>)
     \<and> (\<exists>c. find_capability m (rspec_capability (run_spec_of r)) = Some c \<and> contract_version c = run_contract_version r)"
  by (cases "run_manifest_digest r"; cases r) (auto simp: resolve_manifest_def Let_def rbind_Inr_iff ok_or_Inr_iff if_Inl_iff)

subsection \<open>Invariants of an execution\<close>

text \<open>
  What a predicate on the hub needs so that the execution of a run keeps it: one law per kind of
  write an execution makes. \<open>stored\<close> is what the predicate learns of a blob that was put.
\<close>

locale execution_invariant =
  fixes env :: hub_env and io :: run_io and i :: run_id and I :: "hub \<Rightarrow> bool" and stored :: "content_digest \<Rightarrow> nat \<Rightarrow> hub \<Rightarrow> bool"
  assumes stored_run: "I s \<Longrightarrow> runs_get (h_runs s) i = Some r \<Longrightarrow> run_id r = i \<and> run_wf r"
    and manifest: "I s \<Longrightarrow> components_get (h_components s) c v = Some m \<Longrightarrow> out \<in> set (declared_outputs (manifest_execution m)) \<Longrightarrow>
      \<not> starts_with ''/'' (out_path out)"
    and put_run: "I s \<Longrightarrow> run_id r = i \<Longrightarrow> run_wf r \<Longrightarrow> I (s\<lparr>h_runs := runs_put r (h_runs s)\<rparr>)"
    and put_artifact: "I s \<Longrightarrow> stored (am_digest meta) (unat (am_size meta)) s \<Longrightarrow> am_produced_by_run meta = Some i \<Longrightarrow>
      I (s\<lparr>h_artifacts := artifacts_put meta (h_artifacts s)\<rparr>)"
    and mkdirs: "I s \<Longrightarrow> prefix (he_workdir_path env) p \<Longrightarrow> I (s\<lparr>h_fs := mkdirs p (h_fs s)\<rparr>)"
    and write_file: "I s \<Longrightarrow> prefix (he_workdir_path env) p \<Longrightarrow> I (s\<lparr>h_fs := (h_fs s)(p \<mapsto> n)\<rparr>)"
    and remove: "I s \<Longrightarrow> prefix (he_workdir_path env) p \<Longrightarrow> I (s\<lparr>h_fs := remove_dir p (h_fs s)\<rparr>)"
    and process: "I s \<Longrightarrow> I (s\<lparr>h_fs := rio_process io (h_fs s)\<rparr>)"
    and blob_put: "I s \<Longrightarrow> domain \<in> {DOMAIN_ARTIFACT_BLOB, DOMAIN_CAPTURE} \<Longrightarrow>
      blob_put (he_sha env) (he_blob_root env) pio tmp a bs (max_artifact_bytes (he_limits env)) domain (h_fs s) = (q, t) \<Longrightarrow>
      I (s\<lparr>h_fs := t\<rparr>) \<and> (\<forall>d. q = Inr d \<longrightarrow> stored d (unat (of_nat (length bs) :: u64)) (s\<lparr>h_fs := t\<rparr>))"
    and blob_put_file: "I s \<Longrightarrow>
      blob_put_file (he_sha env) (he_blob_root env) (rio_put_file io name) tmp a p (max_artifact_bytes (he_limits env))
        DOMAIN_ARTIFACT_BLOB (h_fs s) = (q', t) \<Longrightarrow>
      I (s\<lparr>h_fs := t\<rparr>) \<and> (\<forall>d n. q' = Inr (d, n) \<longrightarrow> stored d (unat n) (s\<lparr>h_fs := t\<rparr>))"
begin

lemma keeps_put_run: "run_id r = i \<Longrightarrow> run_wf r \<Longrightarrow> keeps I (put_run r)"
  by (simp add: keeps_def put_run_def put_run)

lemma keeps_mkdirs: "prefix (he_workdir_path env) p \<Longrightarrow> keeps I (on_fs (\<lambda>t. (Inr u, mkdirs p t)))"
  by (simp add: keeps_def on_fs_def mkdirs)

lemma keeps_copy:
  "prefix (he_workdir_path env) p \<Longrightarrow> keeps I (on_fs (blob_copy_to_path root failed nf d p))"
  by (auto simp: keeps_def on_fs_def blob_copy_to_path_def write_file split: option.splits)

lemma keeps_materialize: "prefix (he_workdir_path env) workdir \<Longrightarrow> keeps I (materialize_inputs env io workdir inputs)"
  by (induction inputs) (auto intro!: keeps_intros keeps_copy)

lemma prefix_output_dir:
  assumes "\<not> starts_with ''/'' path"
  shows "prefix (he_workdir_path env) (butlast (fs_join (he_workdir_path env @ [dir]) path))"
  using assms by (simp add: fs_join_def butlast_append)

lemma keeps_output_dirs:
  "\<forall>out\<in>set outs. \<not> starts_with ''/'' (out_path out) \<Longrightarrow> keeps I (make_output_dirs io (he_workdir_path env @ [dir]) outs)"
  by (induction outs) (auto intro!: keeps_intros keeps_mkdirs prefix_output_dir)

lemma keeps_put_then_meta:
  assumes "domain \<in> {DOMAIN_ARTIFACT_BLOB, DOMAIN_CAPTURE}"
    and "\<And>d. am_digest (meta d) = d \<and> am_size (meta d) = of_nat (length bs) \<and> am_produced_by_run (meta d) = Some i"
    and "\<And>d. keeps I (f d)"
  shows "keeps I (sbind (on_fs (blob_put (he_sha env) (he_blob_root env) pio tmp a bs (max_artifact_bytes (he_limits env)) domain))
     (\<lambda>d. sbind (slift (v d)) (\<lambda>_. sbind (put_artifact (meta d)) (\<lambda>_. f d))))"
proof (rule keeps_sbind_on)
  show "keeps I (on_fs (blob_put (he_sha env) (he_blob_root env) pio tmp a bs (max_artifact_bytes (he_limits env)) domain))"
    unfolding keeps_def on_fs_def using blob_put[OF _ assms(1)] by (auto split: prod.splits)
next
  fix s d s1 assume "I s"
    and "on_fs (blob_put (he_sha env) (he_blob_root env) pio tmp a bs (max_artifact_bytes (he_limits env)) domain) s = (Inr d, s1)"
  then have "I s1" "stored d (unat (of_nat (length bs) :: u64)) s1" using blob_put[OF _ assms(1)] by (auto simp: action_simps)
  then have "I (s1\<lparr>h_artifacts := artifacts_put (meta d) (h_artifacts s1)\<rparr>)" using put_artifact assms(2) by metis
  then show "I (snd (sbind (slift (v d)) (\<lambda>_. sbind (put_artifact (meta d)) (\<lambda>_. f d)) s1))"
    using \<open>I s1\<close> assms(3)[of d] by (auto simp: sbind_def slift_def put_artifact_def keeps_def split: sum.splits)
qed

lemma keeps_streams: "run_id r = i \<Longrightarrow> keeps I (persist_streams env io r now streams)"
proof (induction streams)
  case (Cons st streams)
  obtain name bs truncated where st: "st = (name, bs, truncated)" by (cases st) auto
  show ?case unfolding st persist_streams.simps Let_def
    by (intro keeps_if Cons keeps_put_then_meta) (auto intro!: keeps_intros simp: Cons)
qed (simp add: keeps_intros)

lemma keeps_output_file:
  assumes "run_id r = i"
  shows "keeps I (ingest_output_file env io r out workdir now)"
  unfolding keeps_def
proof (intro allI impI)
  fix s assume s: "I s"
  let ?label = "''file:'' @ out_name out"
  let ?put = "on_fs (blob_put_file (he_sha env) (he_blob_root env) (rio_put_file io (out_name out)) (rio_tmp io ?label)
    (rio_artifact io ?label) (fs_join workdir (out_path out)) (max_artifact_bytes (he_limits env)) DOMAIN_ARTIFACT_BLOB)"
  obtain q s1 where q: "?put s = (q, s1)" by fastforce
  then have s1: "I s1" "\<And>d n. q = Inr (d, n) \<Longrightarrow> stored d (unat n) s1" using blob_put_file[OF s] by (auto simp: action_simps)
  show "I (snd (ingest_output_file env io r out workdir now s))"
    unfolding ingest_output_file_def Let_def
    using s s1 q assms
    by (auto split: option.splits fs_node.splits sum.splits
        simp: sbind_def slift_def put_artifact_def sret_def intro!: put_artifact)
qed

lemma keeps_outputs: "run_id r = i \<Longrightarrow> keeps I (ingest_outputs env io r workdir now outs)"
  by (induction outs) (auto intro!: keeps_intros keeps_output_file)

lemma keeps_finish:
  assumes "run_id r = i" and "run_wf r"
  shows "keeps I (finish_run env io r binding (he_workdir_path env @ [dir]) provenance report)"
proof -
  have wf: "run_id r'' = i \<and> run_wf r''" if "run_transition_to st now (r\<lparr>run_outcome_of := x\<rparr>) = Inr r''" for st now x r''
  proof -
    have "run_wf (r\<lparr>run_outcome_of := x\<rparr>)" using assms(2) by (simp add: run_wf_def)
    then show ?thesis using run_wf_transition[OF _ that] same_run_transition[OF that] assms(1) by (simp add: same_run_def)
  qed
  have removed: "keeps I (on_fs (\<lambda>t. (Inr u, if b then remove_dir (he_workdir_path env @ [dir]) t else t)))" for u b
    by (simp add: keeps_def on_fs_def remove)
  show ?thesis
    unfolding finish_run_def persist_stream_artifacts_def Let_def
    by (intro keeps_sbind keeps_basic keeps_prod keeps_if keeps_streams keeps_outputs assms(1) removed keeps_slift_on)
      (auto dest: wf intro!: keeps_put_run)
qed

lemma keeps_process:
  assumes "run_id r = i" and "run_wf r"
  shows "keeps I (run_process env io r binding workdir)"
proof -
  have "keeps I (on_fs (\<lambda>t. (Inr u, rio_process io t)))" for u by (simp add: keeps_def on_fs_def process)
  moreover have "run_id r' = i \<and> run_wf r'" if "run_transition_to st now r = Inr r'" for st now r'
    using run_wf_transition[OF assms(2) that] same_run_transition[OF that] assms(1) by (simp add: same_run_def)
  ultimately show ?thesis
    unfolding run_process_def
    by (auto split: sum.splits executor_failure.splits intro!: keeps_sbind keeps_basic keeps_slift_on keeps_put_run)
qed

lemma keeps_execution:
  assumes "run_id r = i" and "run_wf r"
    and outs: "\<forall>out\<in>set (declared_outputs binding). \<not> starts_with ''/'' (out_path out)"
  shows "keeps I
    (sbind (case rio_workdir io of Some e \<Rightarrow> sfail (f e) | None \<Rightarrow> on_fs (\<lambda>t. (Inr (), mkdirs ((he_workdir_path env @ [dir]) @ [''inputs'']) t))) (\<lambda>_.
     sbind (materialize_inputs env io (he_workdir_path env @ [dir]) inputs) (\<lambda>provenance.
     sbind (make_output_dirs io (he_workdir_path env @ [dir]) (declared_outputs binding)) (\<lambda>_.
     sbind (slift (run_transition_to Run_Running now r)) (\<lambda>r2.
     sbind (put_run r2) (\<lambda>_.
     sbind (run_process env io r2 binding w) (\<lambda>report.
       finish_run env io r2 binding (he_workdir_path env @ [dir]) provenance report)))))))"
proof -
  have "run_id r' = i \<and> run_wf r'" if "run_transition_to st now r = Inr r'" for st now r'
    using run_wf_transition[OF assms(2) that] same_run_transition[OF that] assms(1) by (simp add: same_run_def)
  then show ?thesis
    by (intro keeps_sbind keeps_option keeps_basic keeps_mkdirs keeps_materialize keeps_output_dirs outs keeps_slift_on keeps_put_run
        keeps_process keeps_finish) simp_all
qed

lemma keeps_inner: "keeps I (execute_run_inner env io i)"
  unfolding execute_run_inner_def
proof (rule keeps_sbind_on[OF keeps_basic(4)])
  fix s r0 s1 assume s: "I s" and "(ok_or (RunNotFound i) (runs_get (h_runs s) i), s) = (Inr r0, s1)"
  then have r0: "run_id r0 = i" "run_wf r0" and s1: "s1 = s" using stored_run[OF s] by (auto simp: ok_or_Inr_iff)
  show "I (snd ((if run_state_of r0 \<noteq> Run_Queued then sfail (RunNotExecutable i (run_state_of r0))
     else
       sbind (\<lambda>s. (resolve_manifest env s r0, s)) (\<lambda>(m, r1).
       let binding = manifest_execution m; dir = he_us env (as_uuid i); workdir = he_workdir_path env @ [dir] in
       sbind (case rio_workdir io of
           Some e \<Rightarrow> sfail (Storage (Fmt ''creating run workdir: {e}'' [FMsg e]))
         | None \<Rightarrow> on_fs (\<lambda>t. (Inr (), mkdirs (workdir @ [''inputs'']) t))) (\<lambda>_.
       sbind (materialize_inputs env io workdir (rspec_inputs (run_spec_of r1))) (\<lambda>provenance.
       sbind (make_output_dirs io workdir (declared_outputs binding)) (\<lambda>_.
       sbind (slift (run_transition_to Run_Running (rio_started io) r1)) (\<lambda>r2.
       sbind (put_run r2) (\<lambda>_.
       sbind (run_process env io r2 binding (path_join (he_workdir_root env) dir)) (\<lambda>report.
         finish_run env io r2 binding workdir provenance report)))))))) s1))"
  proof (cases "resolve_manifest env s r0")
    case (Inr mr)
    obtain m r1 where mr: "mr = (m, r1)" by fastforce
    then have "run_id r1 = i" "run_wf r1" "components_get (h_components s) (rspec_component (run_spec_of r0)) (run_component_version r0) = Some m"
      using Inr r0 by (auto simp: resolve_manifest_Inr run_wf_def)
    then show ?thesis
      using keeps_execution[of r1 "manifest_execution m"] manifest[OF s] s s1 Inr mr
      by (auto simp: sbind_def[of "\<lambda>s. (resolve_manifest env s r0, s)"] sfail_def Let_def keeps_def)
  qed (simp add: sbind_def sfail_def s s1)
qed

end

lemma valid_output:
  assumes "validate_manifest m = Inr ()" and "out \<in> set (declared_outputs (manifest_execution m))"
  shows "output_wf out" and "\<not> starts_with ''/'' (out_path out)"
proof -
  obtain p where p: "manifest_execution m = Some (Process p)" "out \<in> set (proc_outputs p)"
    using assms(2) by (cases "manifest_execution m"; cases "the (manifest_execution m)") (auto simp: declared_outputs_def)
  show "output_wf out" using assms(1) p by (auto simp: manifest_valid_iff manifest_wf_def binding_wf_def)
  then show "\<not> starts_with ''/'' (out_path out)"
    by (auto simp: output_wf_def validate_relative_workdir_path_def if_Inl_iff)
qed

lemma hub_wf_put_run: "hub_wf s \<Longrightarrow> run_wf r \<Longrightarrow> hub_wf (s\<lparr>h_runs := runs_put r (h_runs s)\<rparr>)"
  by (auto simp: hub_wf_def memory_runs.put_inv memory_runs.get_put)

lemma hub_wf_put_artifact: "hub_wf s \<Longrightarrow> hub_wf (s\<lparr>h_artifacts := artifacts_put m (h_artifacts s)\<rparr>)"
  by (auto simp: hub_wf_def memory_artifacts.put_inv)

lemma hub_wf_fs [simp]: "hub_wf (s\<lparr>h_fs := t\<rparr>) = hub_wf s"
  by (simp add: hub_wf_def)

lemma hub_wf_run: "hub_wf s \<Longrightarrow> runs_get (h_runs s) i = Some r \<Longrightarrow> run_id r = i \<and> run_wf r"
  using memory_runs.get_key by (auto simp: hub_wf_def)

lemma hub_wf_output:
  "hub_wf s \<Longrightarrow> components_get (h_components s) c v = Some m \<Longrightarrow> out \<in> set (declared_outputs (manifest_execution m)) \<Longrightarrow>
     \<not> starts_with ''/'' (out_path out)"
  unfolding hub_wf_def using valid_output(2) by blast

lemma hub_wf_runs: "hub_wf s \<Longrightarrow> runs_get (runs_put r (h_runs s)) j = (if j = run_id r then Some r else runs_get (h_runs s) j)"
  by (simp add: hub_wf_def memory_runs.get_put)

lemma hub_wf_artifacts:
  "hub_wf s \<Longrightarrow> artifacts_get (artifacts_put m (h_artifacts s)) a = (if a = am_id m then Some m else artifacts_get (h_artifacts s) a)"
  by (simp add: hub_wf_def memory_artifacts.get_put)

interpretation run_frame: execution_invariant env io i "\<lambda>s'. hub_wf s' \<and> only_run i s s'" "\<lambda>_ _ _. True" for env io i s
proof
  fix s' r assume "hub_wf s' \<and> only_run i s s'" "run_id r = i" "run_wf r"
  then show "hub_wf (s'\<lparr>h_runs := runs_put r (h_runs s')\<rparr>) \<and> only_run i s (s'\<lparr>h_runs := runs_put r (h_runs s')\<rparr>)"
    by (simp add: only_run_def hub_wf_put_run hub_wf_runs)
next
  fix s' and meta :: artifact_meta assume "hub_wf s' \<and> only_run i s s'" "am_produced_by_run meta = Some i"
  then show "hub_wf (s'\<lparr>h_artifacts := artifacts_put meta (h_artifacts s')\<rparr>) \<and> only_run i s (s'\<lparr>h_artifacts := artifacts_put meta (h_artifacts s')\<rparr>)"
    by (auto simp: only_run_def hub_wf_put_artifact hub_wf_artifacts)
next
  fix s' r assume "hub_wf s' \<and> only_run i s s'" "runs_get (h_runs s') i = Some r"
  then show "run_id r = i \<and> run_wf r" using hub_wf_run by blast
next
  fix s' c v m out assume "hub_wf s' \<and> only_run i s s'" "components_get (h_components s') c v = Some m"
    "out \<in> set (declared_outputs (manifest_execution m))"
  then show "\<not> starts_with ''/'' (out_path out)" using hub_wf_output by blast
qed (auto simp: only_run_def)

lemma blob_stored_fs:
  assumes "blob_stored env d n s" and "\<And>b. h_fs s (blob_path (he_blob_root env) d) = Some (Regular b) \<Longrightarrow> t (blob_path (he_blob_root env) d) = Some (Regular b)"
  shows "blob_stored env d n (s\<lparr>h_fs := t\<rparr>)"
  using assms by (auto simp: blob_stored_def)

lemma artifacts_stored_outside:
  assumes "artifacts_stored env s" and "\<And>d. t (blob_path (he_blob_root env) d) = h_fs s (blob_path (he_blob_root env) d)"
  shows "artifacts_stored env (s\<lparr>h_fs := t\<rparr>)"
  using assms blobs_ok_cong[of t "he_blob_root env" "h_fs s"] by (simp add: artifacts_stored_def blob_stored_def)

lemma artifacts_stored_publish:
  assumes "artifacts_stored env s" and "blobs_ok (he_sha env) (he_blob_root env) t"
    and "\<And>d b. h_fs s (blob_path (he_blob_root env) d) = Some (Regular b) \<Longrightarrow> t (blob_path (he_blob_root env) d) = Some (Regular b)"
  shows "artifacts_stored env (s\<lparr>h_fs := t\<rparr>)"
  using assms blob_stored_fs[of env _ _ s t] by (simp add: artifacts_stored_def)

lemma outside_blobs:
  assumes "\<not> prefix w root" and "\<not> prefix root w" and "prefix w p"
  shows "\<not> prefix p (blob_path root d)" and "\<not> prefix (blob_path root d) p" and "p \<noteq> blob_path root d"
proof -
  have root: "prefix root (blob_path root d)" by (simp add: blob_path_def)
  show n: "\<not> prefix p (blob_path root d)"
  proof
    assume "prefix p (blob_path root d)"
    then have "prefix w (blob_path root d)" using assms(3) by (rule prefix_order.trans[rotated])
    then show False using prefix_same_cases[OF root] assms(1,2) by blast
  qed
  show "\<not> prefix (blob_path root d) p"
  proof
    assume "prefix (blob_path root d) p"
    then have "prefix root p" using root by (rule prefix_order.trans[rotated])
    then show False using prefix_same_cases[OF _ assms(3)] assms(1,2) by blast
  qed
  show "p \<noteq> blob_path root d" using n by auto
qed

lemma mkdirs_outside: "\<not> prefix q p \<Longrightarrow> mkdirs p t q = t q"
  by (auto simp: mkdirs_def prefix_def) (metis append_take_drop_id)

lemma remove_dir_outside: "\<not> prefix p q \<Longrightarrow> remove_dir p t q = t q"
  by (auto simp: remove_dir_def prefix_def) (metis append_take_drop_id)

lemma put_stored:
  assumes "artifacts_stored env s" and "domain \<in> {DOMAIN_ARTIFACT_BLOB, DOMAIN_CAPTURE}"
    and "blob_put (he_sha env) (he_blob_root env) pio tmp a bs limit domain (h_fs s) = (q, t)"
  shows "artifacts_stored env (s\<lparr>h_fs := t\<rparr>)"
    and "q = Inr d \<Longrightarrow> blob_stored env d (unat (of_nat (length bs) :: u64)) (s\<lparr>h_fs := t\<rparr>)"
proof -
  have ok: "blobs_ok (he_sha env) (he_blob_root env) (h_fs s)" using assms(1) by (simp add: artifacts_stored_def)
  note spec = blob_put_spec[OF ok assms(2,3)]
  show "artifacts_stored env (s\<lparr>h_fs := t\<rparr>)"
    using artifacts_stored_publish[OF assms(1) spec(1)] blob_put_persists[OF assms(3)] by blast
  assume "q = Inr d"
  from spec(2)[OF this] obtain b where d: "d = hash_bytes (he_sha env) domain bs" "length bs \<le> unat limit"
    and b: "t (blob_path (he_blob_root env) d) = Some (Regular b)" "blob_valid (he_sha env) d b" by blast
  have "unat limit < 2 ^ 64" using unsigned_less[of limit] by simp
  then have "length bs < 2 ^ 64" using d(2) by simp
  then have "unat (of_nat (length bs) :: u64) = length bs" by (simp add: unsigned_of_nat take_bit_nat_eq_self)
  then show "blob_stored env d (unat (of_nat (length bs) :: u64)) (s\<lparr>h_fs := t\<rparr>)"
    using b blob_valid_unique[OF b(2) d(1) assms(2)] by (auto simp: blob_stored_def)
qed

lemma put_file_stored:
  assumes "artifacts_stored env s" and "chunks_ok (pf_reader pio)"
    and "blob_put_file (he_sha env) (he_blob_root env) pio tmp a p limit DOMAIN_ARTIFACT_BLOB (h_fs s) = (q, t)"
  shows "artifacts_stored env (s\<lparr>h_fs := t\<rparr>)"
    and "q = Inr (d, n) \<Longrightarrow> blob_stored env d (unat n) (s\<lparr>h_fs := t\<rparr>)"
proof -
  have ok: "blobs_ok (he_sha env) (he_blob_root env) (h_fs s)" using assms(1) by (simp add: artifacts_stored_def)
  have dom: "DOMAIN_ARTIFACT_BLOB \<in> {DOMAIN_ARTIFACT_BLOB, DOMAIN_CAPTURE}" by simp
  note spec = blob_put_file_spec[OF ok dom assms(2,3)]
  show "artifacts_stored env (s\<lparr>h_fs := t\<rparr>)"
    using artifacts_stored_publish[OF assms(1) spec(1)] blob_put_file_persists[OF assms(3)] by blast
  assume "q = Inr (d, n)"
  from spec(2)[OF this] obtain b where "d = hash_bytes (he_sha env) DOMAIN_ARTIFACT_BLOB (delivered (pf_reader pio))"
    "unat n = length (delivered (pf_reader pio))"
    "t (blob_path (he_blob_root env) d) = Some (Regular b)" "blob_valid (he_sha env) d b" by blast
  then show "blob_stored env d (unat n) (s\<lparr>h_fs := t\<rparr>)"
    using blob_valid_unique[OF _ _ dom, of "he_sha env" d b] by (auto simp: blob_stored_def)
qed

lemma put_artifact_stored:
  assumes "hub_wf s" and "artifacts_stored env s" and "blob_stored env (am_digest m) (unat (am_size m)) s"
  shows "artifacts_stored env (s\<lparr>h_artifacts := artifacts_put m (h_artifacts s)\<rparr>)"
  using assms by (auto simp: artifacts_stored_def blob_stored_def hub_wf_artifacts)

interpretation stored_artifacts: execution_invariant env io i "\<lambda>s. confined env io \<and> hub_wf s \<and> artifacts_stored env s" "blob_stored env"
  for env io i
proof
  fix s p assume I: "confined env io \<and> hub_wf s \<and> artifacts_stored env s" and p: "prefix (he_workdir_path env) p"
  note out = outside_blobs[OF _ _ p, of "he_blob_root env"]
  show "confined env io \<and> hub_wf (s\<lparr>h_fs := mkdirs p (h_fs s)\<rparr>) \<and> artifacts_stored env (s\<lparr>h_fs := mkdirs p (h_fs s)\<rparr>)"
    using I out mkdirs_outside by (auto simp: confined_def intro!: artifacts_stored_outside)
  show "confined env io \<and> hub_wf (s\<lparr>h_fs := remove_dir p (h_fs s)\<rparr>) \<and> artifacts_stored env (s\<lparr>h_fs := remove_dir p (h_fs s)\<rparr>)"
    using I out remove_dir_outside by (auto simp: confined_def intro!: artifacts_stored_outside)
  show "confined env io \<and> hub_wf (s\<lparr>h_fs := (h_fs s)(p \<mapsto> n)\<rparr>) \<and> artifacts_stored env (s\<lparr>h_fs := (h_fs s)(p \<mapsto> n)\<rparr>)" for n
    using I out(3)[THEN not_sym] by (auto simp: confined_def intro!: artifacts_stored_outside)
next
  fix s assume "confined env io \<and> hub_wf s \<and> artifacts_stored env s"
  then show "confined env io \<and> hub_wf (s\<lparr>h_fs := rio_process io (h_fs s)\<rparr>) \<and> artifacts_stored env (s\<lparr>h_fs := rio_process io (h_fs s)\<rparr>)"
    by (auto simp: confined_def intro!: artifacts_stored_outside)
next
  fix s name tmp a p q t assume I: "confined env io \<and> hub_wf s \<and> artifacts_stored env s"
    and put: "blob_put_file (he_sha env) (he_blob_root env) (rio_put_file io name) tmp a p (max_artifact_bytes (he_limits env))
      DOMAIN_ARTIFACT_BLOB (h_fs s) = (q, t)"
  then have "chunks_ok (pf_reader (rio_put_file io name))" by (simp add: confined_def)
  then show "(confined env io \<and> hub_wf (s\<lparr>h_fs := t\<rparr>) \<and> artifacts_stored env (s\<lparr>h_fs := t\<rparr>))
      \<and> (\<forall>d n. q = Inr (d, n) \<longrightarrow> blob_stored env d (unat n) (s\<lparr>h_fs := t\<rparr>))"
    using put_file_stored[OF _ _ put] I by auto
qed (auto simp: hub_wf_put_run hub_wf_put_artifact put_stored put_artifact_stored dest: hub_wf_run hub_wf_output,
     auto simp: artifacts_stored_def blob_stored_def)

end
