(* ===== verification/Hub_Execution.thy ===== *)
theory Hub_Execution
  imports Hub_Orchestrator
begin

text \<open>
  What the orchestrator guarantees about runs: submission only queues runs that can be
  executed, an execution ends in a terminal record with its provenance and touches nothing
  else, artifact metadata never dangles, and a reproduction repeats the recorded run.
\<close>

section \<open>Specifications\<close>

text \<open>
  A queued run that can be executed: its component resolves to the manifest recorded in it,
  every port is bound to a known artifact, and its execution request builds.
\<close>

definition ready_run :: "hub_env \<Rightarrow> hub \<Rightarrow> run_record \<Rightarrow> bool" where
  "ready_run env s r \<longleftrightarrow> run_state_of r = Run_Queued \<and> run_wf r
     \<and> run_spec_wf (he_pser env) (he_limits env) (run_spec_of r)
     \<and> (\<exists>m c. resolve_manifest env s r = Inr (m, r) \<and> find_capability m (rspec_capability (run_spec_of r)) = Some c
          \<and> port_name ` set (cap_inputs c) = ib_name ` set (rspec_inputs (run_spec_of r))
          \<and> (\<forall>i\<in>set (rspec_inputs (run_spec_of r)). artifacts_get (h_artifacts s) (ib_artifact i) \<noteq> None)
          \<and> (\<forall>b w. manifest_execution m = Some b \<longrightarrow> (\<exists>request.
               build_request (he_pser env) (he_path_env env) (he_limits env) (run_spec_of r) (Some b) w = Inr request)))"

text \<open>The serialiser of parameters writes UTF-8, as that of canonical JSON does.\<close>

definition utf8_params :: "hub_env \<Rightarrow> bool" where
  "utf8_params env \<longleftrightarrow> (\<forall>params bs. he_pser env params = Inr bs \<longrightarrow> is_utf8 bs)"

text \<open>The provenance of an input is the metadata of the artifact bound to it.\<close>

definition input_traced :: "hub \<Rightarrow> input_binding \<Rightarrow> input_provenance \<Rightarrow> bool" where
  "input_traced s b p \<longleftrightarrow> ip_name p = ib_name b \<and> ip_artifact p = ib_artifact b
     \<and> (\<exists>meta. artifacts_get (h_artifacts s) (ib_artifact b) = Some meta \<and> ip_digest p = am_digest meta \<and> ip_size p = am_size meta)"

section \<open>Facts\<close>

lemma runs_get_put: "runs_get (runs_put r rs) i = (if i = run_id r then Some r else runs_get rs i)"
  by (simp add: runs_get_def runs_put_def)

lemma read_iff [action_simps]: "(g s, s) = (q, s') \<longleftrightarrow> g s = q \<and> s' = s"
  by auto

subsection \<open>Submission\<close>

lemma admit_manifest_Inr:
  "admit_manifest env s spec pin = Inr (m, d, c) \<longleftrightarrow>
     (case pin of
        None \<Rightarrow> components_latest (h_components s) (rspec_component spec) = Some m
      | Some p \<Rightarrow> components_get (h_components s) (rspec_component spec) (pin_component_version p) = Some m
          \<and> d = pin_manifest_digest p \<and> contract_version c = pin_contract_version p)
     \<and> manifest_digest (he_sha env) (he_mser env) m = Inr d \<and> find_capability m (rspec_capability spec) = Some c"
  by (cases pin) (auto simp: admit_manifest_def rbind_Inr_iff ok_or_Inr_iff if_Inl_iff)

lemma check_bindings_Inr:
  "check_bindings s spec c = Inr u \<longleftrightarrow> port_name ` set (cap_inputs c) = ib_name ` set (rspec_inputs spec)
     \<and> (\<forall>i\<in>set (rspec_inputs spec). artifacts_get (h_artifacts s) (ib_artifact i) \<noteq> None)"
  by (auto simp: check_bindings_def Let_def rbind_Inr_iff try_for_Inr_iff if_Inl_iff)

lemma latest_get:
  assumes "hub_wf s" and "components_latest (h_components s) i = Some m"
  shows "components_get (h_components s) i (manifest_version m) = Some m"
  using assms memory_components.latest_Some memory_components.get_key by (metis hub_wf_def)

text \<open>The record a successful submission stores.\<close>

definition queued_record :: "run_id \<Rightarrow> u64 \<Rightarrow> run_spec \<Rightarrow> run_id option \<Rightarrow> component_manifest \<Rightarrow> content_digest \<Rightarrow> capability \<Rightarrow> run_record" where
  "queued_record fresh now spec origin m d c =
     \<lparr>run_id = fresh, run_spec_of = spec, run_state_of = Run_Queued, run_component_name = name_str (manifest_name m),
      run_component_version = manifest_version m, run_manifest_digest = Some d, run_contract_version = contract_version c,
      run_created_at = now, run_started_at = None, run_finished_at = None,
      run_transitions = [\<lparr>tr_from = Run_Created, tr_to = Run_Validated, tr_at = now\<rparr>, \<lparr>tr_from = Run_Validated, tr_to = Run_Queued, tr_at = now\<rparr>],
      run_outcome_of = None, run_reproduced_from = origin\<rparr>"

lemma submit_Inr:
  "submit_run_internal env fresh now spec origin pin s = (Inr r, s') \<longleftrightarrow>
     (\<exists>m d c. run_spec_wf (he_pser env) (he_limits env) spec \<and> admit_manifest env s spec pin = Inr (m, d, c)
        \<and> (cap_str (rspec_capability spec) = CAPSULE_CAPABILITY \<longrightarrow> validate_execution_contract m c = Inr ())
        \<and> check_bindings s spec c = Inr ()
        \<and> (\<forall>b. manifest_execution m = Some b \<longrightarrow> check_placeholders b spec = Inr ())
        \<and> r = queued_record fresh now spec origin m d c \<and> s' = s\<lparr>h_runs := runs_put r (h_runs s)\<rparr>)"
proof -
  have opt: "(case q of None \<Rightarrow> Inr () | Some b \<Rightarrow> f b) = Inr u \<longleftrightarrow> (\<forall>b. q = Some b \<longrightarrow> f b = Inr ())" for q :: "'b option" and f and u :: unit
    by (cases q) auto
  have cond: "(if b then x else Inr ()) = Inr u \<longleftrightarrow> (b \<longrightarrow> x = Inr ())" for b and x :: "unit res" and u
    by simp
  show ?thesis
    unfolding submit_run_internal_def
    by (auto simp: action_simps validate_run_spec_iff run_create_def rbind_Inr_iff run_transition_Inr queued_record_def opt cond split_beta
        split: prod.splits) force?
qed

lemma submit_Inl: "submit_run_internal env fresh now spec origin pin s = (Inl e, s') \<Longrightarrow> s' = s"
  unfolding submit_run_internal_def by (auto simp: sbind_Inl_iff action_simps split: prod.splits)

lemma submit_only_runs:
  assumes "submit_run_internal env fresh now spec origin pin s = (q, s')"
  shows "h_fs s' = h_fs s \<and> h_artifacts s' = h_artifacts s"
proof (cases q)
  case (Inl e)
  then show ?thesis using submit_Inl assms by blast
next
  case (Inr r)
  then show ?thesis using assms by (auto simp: submit_Inr)
qed

lemma queued_record_wf: "run_wf (queued_record fresh now spec origin m d c)"
  by (simp add: queued_record_def run_wf_def)

lemma submit_ready:
  assumes "hub_wf s" and "submit_run_internal env fresh now spec origin pin s = (Inr r, s')"
    and "utf8_params env"
  shows "ready_run env s' r"
proof -
  obtain m d c where spec: "run_spec_wf (he_pser env) (he_limits env) spec" and adm: "admit_manifest env s spec pin = Inr (m, d, c)"
    and bind: "check_bindings s spec c = Inr ()"
    and ph: "\<And>b. manifest_execution m = Some b \<Longrightarrow> check_placeholders b spec = Inr ()"
    and r: "r = queued_record fresh now spec origin m d c" and s': "s' = s\<lparr>h_runs := runs_put r (h_runs s)\<rparr>"
    using assms(2) unfolding submit_Inr by blast
  note adm' = adm[unfolded admit_manifest_Inr]
  have get: "components_get (h_components s) (rspec_component spec) (manifest_version m) = Some m"
  proof (cases pin)
    case None
    with adm' latest_get[OF assms(1)] show ?thesis by simp
  next
    case (Some p)
    with adm' have "components_get (h_components s) (rspec_component spec) (pin_component_version p) = Some m" by simp
    moreover from this memory_components.get_key have "manifest_version m = pin_component_version p"
      using assms(1) unfolding hub_wf_def by blast
    ultimately show ?thesis by simp
  qed
  have resolves: "resolve_manifest env s' r = Inr (m, r)"
    using get adm' by (auto simp: resolve_manifest_Inr r s' queued_record_def)
  have "\<exists>request. build_request (he_pser env) (he_path_env env) (he_limits env) spec (Some b) w = Inr request"
    if "manifest_execution m = Some b" for b w
  proof -
    obtain p where b: "b = Process p" by (cases b) auto
    obtain bs where bs: "canonical_params_bytes (he_pser env) spec = Inr bs" "is_utf8 bs"
      using spec assms(3) by (auto simp: run_spec_wf_def canonical_params_bytes_def utf8_params_def)
    show ?thesis using build_request_checked[OF _ bs] ph[OF that] unfolding b by blast
  qed
  then show ?thesis
    unfolding ready_run_def
    using resolves adm' bind spec queued_record_wf[of fresh now spec origin m d c]
    by (auto simp: r s' queued_record_def check_bindings_Inr)
qed

subsection \<open>Execution\<close>

lemma materialize_Inr:
  "materialize_inputs env io w inputs s = (Inr ps, s') \<Longrightarrow>
     h_artifacts s' = h_artifacts s \<and> list_all2 (input_traced s) inputs ps"
proof (induction inputs arbitrary: s ps)
  case (Cons b inputs)
  from Cons.prems obtain meta t ps' where meta: "artifacts_get (h_artifacts s) (ib_artifact b) = Some meta"
    and rest: "materialize_inputs env io w inputs (s\<lparr>h_fs := t\<rparr>) = (Inr ps', s')"
    and ps: "ps = \<lparr>ip_name = ib_name b, ip_artifact = ib_artifact b, ip_digest = am_digest meta, ip_size = am_size meta\<rparr> # ps'"
    by (auto simp: action_simps ok_or_Inr_iff)
  have "input_traced (s\<lparr>h_fs := t\<rparr>) = input_traced s" by (simp add: fun_eq_iff input_traced_def)
  with Cons.IH[OF rest] meta show ?case by (simp add: ps input_traced_def)
qed (auto simp: action_simps)

lemma output_file_Inr: "ingest_output_file env io r out w now s = (Inr (Some ref), s') \<Longrightarrow> oref_name ref = ''file:'' @ out_name out"
  unfolding ingest_output_file_def Let_def
  by (auto simp: action_simps split: option.splits fs_node.splits)

lemma outputs_Inr:
  "ingest_outputs env io r w now outs s = (Inr (refs, missing), s') \<Longrightarrow>
     \<forall>out\<in>set outs. out_required out \<longrightarrow> out_name out \<in> set missing \<or> ''file:'' @ out_name out \<in> oref_name ` set refs"
proof (induction outs arbitrary: s refs missing)
  case (Cons out outs)
  from Cons.prems obtain found s1 q where f: "ingest_output_file env io r out w now s = (Inr found, s1)"
    and q: "ingest_outputs env io r w now outs s1 = (Inr q, s')"
    and res: "(refs, missing) = (case found of Some ref \<Rightarrow> (ref # fst q, snd q)
       | None \<Rightarrow> (fst q, if out_required out then out_name out # snd q else snd q))"
    unfolding ingest_outputs.simps sbind_Inr_iff split_beta action_iff by blast
  have rest: "ingest_outputs env io r w now outs s1 = (Inr (fst q, snd q), s')" using q by simp
  show ?case using Cons.IH[OF rest] f res output_file_Inr by (auto split: option.splits)
qed simp

lemma failure_iff: "run_failure outcome t missing = None \<longleftrightarrow> exited_cleanly outcome \<and> missing = []"
  by (auto simp: run_failure_def split: option.splits)

lemma final_state_cases:
  "run_is_terminal (final_state outcome missing)"
  "final_state outcome missing = Run_Succeeded \<longleftrightarrow> exited_cleanly outcome \<and> missing = []"
  "final_state outcome missing = Run_Cancelled \<longleftrightarrow> eo_cancelled outcome \<and> \<not> eo_timed_out outcome"
  by (auto simp: final_state_def exited_cleanly_def)

text \<open>What the terminal record of a finished run says.\<close>

definition finished_run :: "execution_binding option \<Rightarrow> run_record \<Rightarrow> run_record \<Rightarrow> bool" where
  "finished_run binding r r' \<longleftrightarrow> run_is_terminal (run_state_of r') \<and> (\<exists>o'. run_outcome_of r' = Some o'
     \<and> (run_state_of r' = Run_Succeeded \<longleftrightarrow> ro_failure o' = None)
     \<and> (run_state_of r' = Run_Cancelled \<longleftrightarrow> ro_cancelled o' \<and> \<not> ro_timed_out o')
     \<and> (run_state_of r' = Run_Succeeded \<longrightarrow> ro_exit_code o' = Some 0 \<and>
          (\<forall>out\<in>set (declared_outputs binding). out_required out \<longrightarrow> ''file:'' @ out_name out \<in> oref_name ` set (ro_outputs o'))))
   \<and> run_id r' = run_id r \<and> run_spec_of r' = run_spec_of r \<and> run_component_version r' = run_component_version r
   \<and> run_manifest_digest r' = run_manifest_digest r \<and> run_contract_version r' = run_contract_version r"

lemma finish_Inr:
  assumes "finish_run env io r binding w provenance report s = (Inr r', s')"
  shows "finished_run binding r r' \<and> runs_get (h_runs s') (run_id r) = Some r'
    \<and> (\<exists>o'. run_outcome_of r' = Some o' \<and> ro_inputs o' = provenance)"
proof -
  let ?o = "rep_outcome report"
  obtain streams files missing pd s1 s2 where
    out: "(if exited_cleanly ?o then ingest_outputs env io r w (rio_finished io) (declared_outputs binding) else sret ([], [])) s1 = (Inr (files, missing), s2)"
    and tr: "run_transition_to (final_state ?o missing) (rio_finished io) (r\<lparr>run_outcome_of := Some \<lparr>ro_exit_code = eo_exit_code ?o, ro_signal = eo_signal ?o,
            ro_timed_out = eo_timed_out ?o, ro_cancelled = eo_cancelled ?o,
            ro_executor_backend = rep_backend_id report, ro_duration_ms = saturating_sub (rio_finished io) (rio_started io),
            ro_inputs = provenance, ro_outputs = streams @ files, ro_env_keys = [''PATH'', ''TMPDIR''],
            ro_params_digest = pd, ro_failure = run_failure ?o (rspec_timeout_ms (run_spec_of r)) missing\<rparr>\<rparr>) = Inr r'"
    and s': "h_runs s' = runs_put r' (h_runs s2)"
    using assms unfolding finish_run_def Let_def by (auto simp: action_simps split: prod.splits)
  have req: "\<forall>out\<in>set (declared_outputs binding). out_required out \<longrightarrow> ''file:'' @ out_name out \<in> oref_name ` set files"
    if "exited_cleanly ?o" "missing = []" using outputs_Inr[of env io r w _ "declared_outputs binding" s1 files missing s2] out that by simp
  have "run_state_of r' = final_state ?o missing" using tr by (auto simp: run_transition_Inr)
  moreover have "exited_cleanly ?o \<Longrightarrow> eo_exit_code ?o = Some 0" by (simp add: exited_cleanly_def)
  ultimately show ?thesis
    using tr s' req final_state_cases[of ?o missing]
    by (auto simp: finished_run_def run_transition_Inr failure_iff runs_get_put image_Un)
qed

lemma inner_Inr:
  assumes "execute_run_inner env io i s = (Inr r', s')"
  obtains r0 m r1 r2 provenance s3 report w where "runs_get (h_runs s) i = Some r0" and "run_state_of r0 = Run_Queued"
    and "resolve_manifest env s r0 = Inr (m, r1)" and "list_all2 (input_traced s) (rspec_inputs (run_spec_of r1)) provenance"
    and "run_transition_to Run_Running (rio_started io) r1 = Inr r2"
    and "finish_run env io r2 (manifest_execution m) w provenance report s3 = (Inr r', s')"
proof -
  let ?w = "he_workdir_path env @ [he_us env (as_uuid i)]"
  obtain r0 m r1 s1 provenance s2 r2 s3 report where r0: "runs_get (h_runs s) i = Some r0" "run_state_of r0 = Run_Queued"
    and m: "resolve_manifest env s r0 = Inr (m, r1)"
    and s1: "(case rio_workdir io of Some e \<Rightarrow> sfail (Storage (Fmt ''creating run workdir: {e}'' [FMsg e]))
         | None \<Rightarrow> on_fs (\<lambda>t. (Inr (), mkdirs (?w @ [''inputs'']) t))) s = (Inr (), s1)"
    and mat: "materialize_inputs env io ?w (rspec_inputs (run_spec_of r1)) s1 = (Inr provenance, s2)"
    and r2: "run_transition_to Run_Running (rio_started io) r1 = Inr r2"
    and fin: "finish_run env io r2 (manifest_execution m) ?w provenance report s3 = (Inr r', s')"
    using assms unfolding execute_run_inner_def Let_def sbind_Inr_iff ok_or_Inr_iff action_simps split_beta
    by (auto simp: action_simps ok_or_Inr_iff sbind_Inr_iff split_beta split: if_splits)
  have "h_artifacts s1 = h_artifacts s" using s1 by (auto simp: action_simps split: option.splits)
  then have "input_traced s1 = input_traced s" by (simp add: fun_eq_iff input_traced_def)
  then show thesis using that[OF r0 m _ r2 fin] materialize_Inr[OF mat] by simp
qed

lemma remove_inserted: "bt_get m k = None \<Longrightarrow> bt_remove k (bt_insert k v m) = m"
proof (induction m)
  case (Cons x m)
  obtain k' v' where x: "x = (k', v')" by fastforce
  have "filter (\<lambda>(k', _). k' \<noteq> k) m = m" if "bt_get m k = None"
    using that by (auto simp: filter_id_conv map_of_eq_None_iff rev_image_eqI)
  with Cons show ?case by (auto simp: x bt_remove_def split: if_splits)
qed (simp add: bt_remove_def)

text \<open>The state an execution starts from, with the run claimed.\<close>

definition claim :: "run_id \<Rightarrow> hub \<Rightarrow> hub" where
  "claim i s = s\<lparr>h_active_cancels := bt_insert i False (h_active_cancels s)\<rparr>"

lemma claim_simps [simp]:
  "h_components (claim i s) = h_components s" "h_runs (claim i s) = h_runs s" "h_artifacts (claim i s) = h_artifacts s"
  "h_fs (claim i s) = h_fs s" "h_active_cancels (claim i s) = bt_insert i False (h_active_cancels s)"
  "h_workflows (claim i s) = h_workflows s" "h_fences (claim i s) = h_fences s"
  "h_active_workflow_cancels (claim i s) = h_active_workflow_cancels s" "h_active_workflow_runs (claim i s) = h_active_workflow_runs s"
  by (simp_all add: claim_def)

lemma hub_wf_claim: "hub_wf s \<Longrightarrow> hub_wf (claim i s)"
  by (simp add: hub_wf_def)

lemma execute_run_cases:
  assumes "execute_run env io i s = (q, s')"
  obtains (busy) "bt_get (h_active_cancels s) i \<noteq> None" and "q = Inl (RunNotExecutable i Run_Running)" and "s' = s"
  | (claimed) s1 where "bt_get (h_active_cancels s) i = None" and "execute_run_inner env io i (claim i s) = (q, s1)"
    and "s' = s1\<lparr>h_active_cancels := bt_remove i (h_active_cancels s1)\<rparr>"
  using assms by (auto simp: execute_run_def claim_def split: if_splits prod.splits)

lemma execute_run_frame:
  assumes "hub_wf s" and "execute_run env io i s = (q, s')"
  shows "hub_wf s' \<and> only_run i s s'"
  using assms(2)
proof (cases rule: execute_run_cases)
  case busy
  then show ?thesis using assms(1) by (simp add: only_run_def)
next
  case (claimed s1)
  have "hub_wf (claim i s) \<and> only_run i (claim i s) (claim i s)" using hub_wf_claim[OF assms(1)] by (simp add: only_run_def)
  from keepsD[OF run_frame.keeps_inner this claimed(2)] have "hub_wf s1" "only_run i (claim i s) s1" by auto
  then show ?thesis using claimed(3) remove_inserted[OF claimed(1)] by (simp add: only_run_def hub_wf_def bt_wf_remove assms(1)[unfolded hub_wf_def])
qed

lemma execute_run_record:
  assumes "hub_wf s" and "execute_run env io i s = (Inr r', s')"
  shows "runs_get (h_runs s') i = Some r'"
    and "\<exists>r m r1 o'. runs_get (h_runs s) i = Some r \<and> run_state_of r = Run_Queued \<and> resolve_manifest env s r = Inr (m, r1)
      \<and> finished_run (manifest_execution m) r1 r' \<and> run_outcome_of r' = Some o'
      \<and> list_all2 (input_traced s) (rspec_inputs (run_spec_of r)) (ro_inputs o')"
proof -
  from assms(2) obtain s1 where inner: "execute_run_inner env io i (claim i s) = (Inr r', s1)"
    and s': "h_runs s' = h_runs s1"
    by (cases rule: execute_run_cases) auto
  obtain r m r1 r2 provenance s3 report w where r: "runs_get (h_runs s) i = Some r" "run_state_of r = Run_Queued"
    and m: "resolve_manifest env (claim i s) r = Inr (m, r1)"
    and tr: "list_all2 (input_traced (claim i s)) (rspec_inputs (run_spec_of r1)) provenance"
    and r2: "run_transition_to Run_Running (rio_started io) r1 = Inr r2"
    and fin: "finish_run env io r2 (manifest_execution m) w provenance report s3 = (Inr r', s1)"
    using inner_Inr[OF inner] by simp metis
  have ids: "run_id r1 = i" "run_spec_of r1 = run_spec_of r" "finished_run b r2 r' = finished_run b r1 r'" "run_id r2 = i" for b
    using m r2 hub_wf_run[OF assms(1) r(1)] by (auto simp: resolve_manifest_Inr run_transition_Inr finished_run_def)
  have s: "resolve_manifest env s r = Inr (m, r1)" "input_traced (claim i s) = input_traced s"
    using m by (auto simp: resolve_manifest_Inr fun_eq_iff input_traced_def)
  note f = finish_Inr[OF fin]
  show "runs_get (h_runs s') i = Some r'" using f ids s' by simp
  show "\<exists>r m r1 o'. runs_get (h_runs s) i = Some r \<and> run_state_of r = Run_Queued \<and> resolve_manifest env s r = Inr (m, r1)
      \<and> finished_run (manifest_execution m) r1 r' \<and> run_outcome_of r' = Some o'
      \<and> list_all2 (input_traced s) (rspec_inputs (run_spec_of r)) (ro_inputs o')"
    using r s f ids tr by metis
qed

subsection \<open>Failures\<close>

definition other_failure :: "core_error \<Rightarrow> bool" where
  "other_failure e \<longleftrightarrow> (\<forall>j f. e \<noteq> ExecutionFailed j f)"

lemma other_failure_simps [simp]:
  "other_failure (Storage m)" "other_failure (Validation m)" "other_failure (BlobNotFound d)" "other_failure (ArtifactNotFound a)"
  "other_failure (ArtifactTooLarge a n l)" "other_failure (RunNotFound r)" "other_failure (RunNotExecutable r st)"
  "other_failure (ComponentNotFound c)" "other_failure (CapabilityNotDeclared c x)" "other_failure (InvalidTransition a' b)"
  "\<not> other_failure (ExecutionFailed r f)"
  by (simp_all add: other_failure_def)

lemma rbind_Inl_iff: "rbind q f = Inl e \<longleftrightarrow> q = Inl e \<or> (\<exists>x. q = Inr x \<and> f x = Inl e)"
  by (cases q) auto

lemma ok_or_Inl_iff: "ok_or e q = Inl e' \<longleftrightarrow> q = None \<and> e' = e"
  by (cases q) auto

lemma map_err_Inl_iff: "map_err f q = Inl e \<longleftrightarrow> (\<exists>e'. q = Inl e' \<and> e = f e')"
  by (cases q) auto

lemmas error_iffs = rbind_Inl_iff ok_or_Inl_iff map_err_Inl_iff

lemma pure_failures:
  "resolve_manifest env s r = Inl e \<Longrightarrow> other_failure e"
  "run_transition_to st now r = Inl e \<Longrightarrow> other_failure e"
  "validate_artifact_meta m = Inl e \<Longrightarrow> other_failure e"
  "params_digest sha ser spec = Inl e \<Longrightarrow> other_failure e"
  by (auto simp: resolve_manifest_def Let_def error_iffs manifest_digest_def canonical_bytes_def run_transition_to_def
      validate_artifact_meta_def params_digest_def canonical_params_bytes_def split: option.splits if_splits)

lemma blob_failures:
  "blob_put sha root pio tmp a bs limit domain t = (Inl e, t') \<Longrightarrow> other_failure e"
  "blob_copy_to_path root failed nf d dest t = (Inl e, t') \<Longrightarrow> other_failure e"
  by (auto simp: blob_put_def blob_copy_to_path_def Let_def split: if_splits option.splits prod.splits)

lemma copy_failures: "copy_loop a limit w n st staged r = (Inl e, staged') \<Longrightarrow> other_failure e"
  by (induction a limit w n st staged r rule: copy_loop.induct) (auto split: if_splits option.splits)

lemma put_file_failures: "blob_put_file sha root pio tmp a p limit domain t = (Inl e, t') \<Longrightarrow> other_failure e"
  using copy_failures
  by (fastforce simp: blob_put_file_def stage_source_def Let_def
      split: if_split_asm option.split_asm prod.split_asm sum.split_asm fs_node.split_asm bool.split_asm)

lemma output_file_failures: "fails_with other_failure (ingest_output_file env io r out w now)"
  unfolding fails_with_def ingest_output_file_def Let_def
  by (auto simp: sbind_Inl_iff action_simps put_file_failures pure_failures split: option.splits fs_node.splits prod.splits)

lemma loop_failures:
  "fails_with other_failure (materialize_inputs env io w inputs)"
  "fails_with other_failure (make_output_dirs io w outs)"
  "fails_with other_failure (persist_streams env io r now streams)"
  "fails_with other_failure (ingest_outputs env io r w now outs)"
proof -
  show "fails_with other_failure (materialize_inputs env io w inputs)"
    by (induction inputs) (auto intro!: fails_intros dest: blob_failures simp: ok_or_Inl_iff)
  show "fails_with other_failure (make_output_dirs io w outs)" by (induction outs) (auto intro!: fails_intros)
  show "fails_with other_failure (persist_streams env io r now streams)"
    by (induction streams) (auto intro!: fails_intros simp: Let_def blob_failures pure_failures)
  show "fails_with other_failure (ingest_outputs env io r w now outs)"
    by (induction outs) (auto intro!: fails_intros output_file_failures)
qed

lemma finish_failures: "fails_with other_failure (finish_run env io r binding w provenance report)"
  unfolding finish_run_def Let_def persist_stream_artifacts_def
  by (intro fails_intros loop_failures) (auto dest: pure_failures)

lemma try_fold_Inl: "try_fold f x xs = Inl e \<Longrightarrow> \<exists>y z. f y z = Inl e"
  by (induction xs arbitrary: x) (auto split: sum.splits)

lemma request_failures: "build_request ser path_env lim spec binding w = Inl e \<Longrightarrow> other_failure e"
  unfolding build_request_def Let_def
  by (auto simp: error_iffs canonical_params_bytes_def substitute_placeholders_def dest!: try_fold_Inl
      split: option.splits execution_binding.splits if_splits)

lemma process_failure:
  assumes "run_process env io r binding w s = (Inl e, s')" and "\<not> other_failure e"
  shows "\<exists>f. e = ExecutionFailed (run_id r) f" and "h_runs s' = h_runs s"
  using assms unfolding run_process_def
  by (auto simp: sbind_Inl_iff action_simps request_failures pure_failures split: sum.splits executor_failure.splits)

lemma inner_failure:
  assumes "execute_run_inner env io i s = (Inl e, s')" and "\<not> other_failure e" and "hub_wf s"
  shows "\<exists>f. e = ExecutionFailed i f" and "\<exists>r. runs_get (h_runs s') i = Some r \<and> run_state_of r = Run_Running"
proof -
  have no: "\<not> m s1 = (Inl e, s2)" if "fails_with other_failure m" for m :: "(hub, 'a) action" and s1 s2
    using that assms(2) by (auto simp: fails_with_def)
  obtain r0 m r1 r2 s1 w where r0: "runs_get (h_runs s) i = Some r0" and m: "resolve_manifest env s r0 = Inr (m, r1)"
    and r2: "run_transition_to Run_Running (rio_started io) r1 = Inr r2"
    and proc: "run_process env io r2 (manifest_execution m) w (s1\<lparr>h_runs := runs_put r2 (h_runs s1)\<rparr>) = (Inl e, s')"
    using assms(1,2) unfolding execute_run_inner_def Let_def
    by (auto simp: sbind_Inl_iff action_simps split_beta ok_or_Inr_iff ok_or_Inl_iff no[OF loop_failures(1)] no[OF loop_failures(2)]
        no[OF finish_failures] dest: pure_failures split: if_splits option.splits)
  have "run_id r2 = i" using hub_wf_run[OF assms(3) r0] m r2 by (auto simp: resolve_manifest_Inr run_transition_Inr)
  then show "\<exists>f. e = ExecutionFailed i f" "\<exists>r. runs_get (h_runs s') i = Some r \<and> run_state_of r = Run_Running"
    using process_failure[OF proc assms(2)] r2 by (auto simp: runs_get_put run_transition_Inr)
qed

subsection \<open>Well-formed hubs\<close>

lemma hub_wf_new: "hub_wf (hub_new t)"
  by (simp add: hub_wf_def hub_new_def keyed_Nil components_get_def runs_get_def)

lemma hub_wf_register:
  assumes "hub_wf s" and "register_component env m s = (q, s')"
  shows "hub_wf s'"
proof -
  have "hub_wf (s\<lparr>h_components := cs\<rparr>)"
    if "validate_manifest m = Inr ()" and put: "components_put (he_sha env) (he_mser env) m (h_components s) = Inr (b, cs)" for b cs
  proof -
    have k: "keyed manifest_key (h_components s)" using assms(1) by (simp add: hub_wf_def)
    have "validate_manifest m' = Inr ()" if get: "components_get cs i v = Some m'" for i v m'
    proof (cases b)
      case True
      with put have "components_put (he_sha env) (he_mser env) m (h_components s) = Inr (True, cs)" by simp
      from memory_components.put_new[OF k this] have "m' = m \<or> components_get (h_components s) i v = Some m'" using get by (cases "(i, v) = manifest_key m") auto
      then show ?thesis using \<open>validate_manifest m = Inr ()\<close> assms(1) unfolding hub_wf_def by blast
    next
      case False
      with put have "components_put (he_sha env) (he_mser env) m (h_components s) = Inr (False, cs)" by simp
      from memory_components.put_replay[OF k this] have "cs = h_components s" by blast
      then show ?thesis using get assms(1) unfolding hub_wf_def by blast
    qed
    then show ?thesis using assms(1) memory_components.put_inv[OF k put] by (simp add: hub_wf_def)
  qed
  then show ?thesis
    using assms by (auto simp: register_component_def sbind_def slift_def sret_def split: sum.splits)
qed

lemma hub_wf_submit:
  assumes "hub_wf s" and "submit_run_internal env fresh now spec origin pin s = (q, s')"
  shows "hub_wf s'"
proof (cases q)
  case (Inl e)
  then show ?thesis using submit_Inl assms by blast
next
  case (Inr r)
  then show ?thesis using assms hub_wf_put_run[OF assms(1)] queued_record_wf by (auto simp: submit_Inr)
qed

lemma stored_readable:
  assumes "artifacts_stored env s" and "artifacts_get (h_artifacts s) a = Some m"
  shows "\<exists>bs. artifact_bytes env None nf a s = Inr (m, bs) \<and> blob_valid (he_sha env) (am_digest m) bs
    \<and> (length bs = unat (am_size m) \<or> collision (he_sha env))"
proof -
  have "blob_stored env (am_digest m) (unat (am_size m)) s" using assms unfolding artifacts_stored_def by blast
  then obtain bs where bs: "h_fs s (blob_path (he_blob_root env) (am_digest m)) = Some (Regular bs)"
    "blob_valid (he_sha env) (am_digest m) bs" "length bs = unat (am_size m) \<or> collision (he_sha env)"
    unfolding blob_stored_def by blast
  then have "artifact_bytes env None nf a s = Inr (m, bs)" using assms(2) by (simp add: artifact_bytes_def blob_read_stored)
  then show ?thesis using bs by blast
qed

lemma execute_run_stored:
  assumes "confined env io" and "hub_wf s" and "artifacts_stored env s"
  shows "artifacts_stored env (snd (execute_run env io i s))"
proof -
  obtain q s' where run: "execute_run env io i s = (q, s')" by fastforce
  then show ?thesis
  proof (cases rule: execute_run_cases)
    case (claimed s1)
    have "confined env io \<and> hub_wf (claim i s) \<and> artifacts_stored env (claim i s)"
      using assms hub_wf_claim by (auto simp: artifacts_stored_def blob_stored_def)
    from keepsD[OF stored_artifacts.keeps_inner this claimed(2)] show ?thesis
      using run claimed(3) by (simp add: artifacts_stored_def blob_stored_def)
  qed (use run assms(3) in simp)
qed

lemma ingest_artifact_stored:
  assumes "hub_wf s" and "artifacts_stored env s"
  shows "artifacts_stored env (snd (ingest_artifact env pio tmp fresh now name media bs s))"
proof -
  obtain q t where put: "blob_put (he_sha env) (he_blob_root env) pio tmp fresh bs (max_artifact_bytes (he_limits env))
      DOMAIN_ARTIFACT_BLOB (h_fs s) = (q, t)" by fastforce
  have ok: "blobs_ok (he_sha env) (he_blob_root env) (h_fs s)" using assms(2) by (simp add: artifacts_stored_def)
  note stored = put_stored[OF assms(2) _ put] and d = blob_put_spec(2)[OF ok _ put]
  show ?thesis
    unfolding ingest_artifact_def Let_def
    using put stored d assms put_artifact_stored[of "s\<lparr>h_fs := t\<rparr>" env]
    by (auto simp: sbind_def slift_def sret_def sfail_def on_fs_def put_artifact_def split: sum.splits)
qed

subsection \<open>An example hub\<close>

definition example_env :: hub_env where
  "example_env = \<lparr>he_sha = id, he_mser = (\<lambda>m. Inr (version_str (manifest_version m))), he_pser = (\<lambda>_. Inr ''{}''), he_us = (\<lambda>_. ''u''),
     he_limits = example_limits, he_blob_root = [''data''], he_workdir_root = ''/work'', he_workdir_path = [''work''], he_path_env = ''/bin''\<rparr>"

definition example_component :: component_manifest where
  "example_component = (example_manifest ''1.0.0'')\<lparr>
     manifest_capabilities := [\<lparr>cap_name = CapabilityName ''a.b'', contract_version = Version ''1.0.0'', cap_inputs = [], cap_outputs = [], cap_properties = []\<rparr>],
     manifest_execution := Some (Process (example_binding\<lparr>proc_args := [''{params}'', ''{output:out}'']\<rparr>))\<rparr>"

definition example_run_spec :: run_spec where
  "example_run_spec = example_spec\<lparr>rspec_inputs := []\<rparr>"

definition example_io :: "executor_failure + execution_report \<Rightarrow> run_io" where
  "example_io reply = \<lparr>rio_workdir = None, rio_copy = (\<lambda>_. None), rio_not_file = plain ''e'', rio_output_dir = (\<lambda>_. None), rio_started = 6,
     rio_executor = \<lparr>ex_backend_id = ''x'', ex_backend_descriptor = default_backend_descriptor ''x'', ex_execute_report = (\<lambda>_. reply)\<rparr>,
     rio_process = (\<lambda>t. t([''work'', ''u'', ''o'', ''r.json''] \<mapsto> Regular ''abc'')), rio_failed_at = 7, rio_finished = 8,
     rio_stream_put = (\<lambda>_. \<lparr>io_mkdir = None, io_write = None, io_rename = None\<rparr>), rio_stat = (\<lambda>_. None),
     rio_put_file = (\<lambda>_. example_file_io), rio_tmp = (\<lambda>_. ''t''), rio_artifact = (\<lambda>_. UuidId 20), rio_removed = True\<rparr>"

definition example_report :: execution_report where
  "example_report = \<lparr>rep_outcome = \<lparr>eo_exit_code = Some 0, eo_signal = None, eo_timed_out = False, eo_cancelled = False, eo_start_error = None,
     eo_duration_ms = 1, eo_stdout = [], eo_stdout_truncated = False, eo_stderr = [], eo_stderr_truncated = False\<rparr>, rep_backend_id = ''x''\<rparr>"

definition example_registered :: hub where
  "example_registered = (hub_new Map.empty)\<lparr>h_components := [((UuidId 1, Version ''1.0.0''), example_component)]\<rparr>"

definition example_hub :: hub where
  "example_hub = snd (submit_run_internal example_env (UuidId 7) 5 example_run_spec None None example_registered)"

lemma example_component_valid: "validate_manifest example_component = Inr ()"
proof -
  have "validate_relative_workdir_path ''o/r.json'' = Inr ()" "is_slug ''out''" by code_simp+
  then show ?thesis
    by (simp add: manifest_valid_iff manifest_wf_def binding_wf_def output_wf_def ports_wf_def example_component_def
        example_manifest_def example_binding_def)
qed

lemma example_registered_wf: "hub_wf example_registered"
  using hub_wf_new[of Map.empty] example_component_valid
  by (auto simp: example_registered_def hub_wf_def keyed_def bt_wf_def components_get_def example_component_def example_manifest_def
      split: if_splits)

lemma example_utf8: "utf8_params example_env"
proof -
  have "is_utf8 ''{}''" by code_simp
  then show ?thesis by (simp add: utf8_params_def example_env_def)
qed

lemma example_hub_wf: "hub_wf example_hub"
  unfolding example_hub_def by (rule hub_wf_submit[OF example_registered_wf prod.collapse[symmetric]])

section \<open>Properties\<close>



text \<open>
  C2. Executions are isolated and finish. Whatever happens, the execution of a run leaves every
  other run, the registry, the workflows and the claims as they were, and all new artifact
  metadata names the run. When it returns a record, the run was queued before and the record
  is stored and terminal: it succeeded exactly if no failure is recorded, then with exit code
  zero and every required output among its outputs, it is cancelled exactly if the process was
  cancelled and not timed out, and its inputs carry the digests of the bound artifacts.
\<close>
theorem execution_finishes:
  assumes "hub_wf s" and "execute_run env io i s = (q, s')"
  shows "hub_wf s' \<and> only_run i s s' \<and> (\<forall>r'. q = Inr r' \<longrightarrow> runs_get (h_runs s') i = Some r' \<and>
    (\<exists>r m r1 o'. runs_get (h_runs s) i = Some r \<and> run_state_of r = Run_Queued \<and> resolve_manifest env s r = Inr (m, r1)
      \<and> finished_run (manifest_execution m) r1 r' \<and> run_outcome_of r' = Some o'
      \<and> list_all2 (input_traced s) (rspec_inputs (run_spec_of r)) (ro_inputs o')))"
  using execute_run_frame[OF assms] execute_run_record[OF assms(1)] assms(2) by blast

theorem execution_finishes_witness:
  "\<exists>r. fst (execute_run example_env (example_io (Inr example_report)) (UuidId 7) example_hub) = Inr r \<and> run_state_of r = Run_Succeeded
     \<and> runs_get (h_runs (snd (execute_run example_env (example_io (Inr example_report)) (UuidId 7) example_hub))) (UuidId 7) = Some r
     \<and> only_run (UuidId 7) example_hub (snd (execute_run example_env (example_io (Inr example_report)) (UuidId 7) example_hub))"
proof -
  let ?x = "execute_run example_env (example_io (Inr example_report)) (UuidId 7) example_hub"
  have "map_sum id run_state_of (fst ?x) = Inr Run_Succeeded" by code_simp
  then obtain r where "fst ?x = Inr r" "run_state_of r = Run_Succeeded" by (cases "fst ?x") auto
  with execution_finishes[OF example_hub_wf prod.collapse[symmetric], of example_env "example_io (Inr example_report)" "UuidId 7"]
  show ?thesis by blast
qed







end
