(* ===== verification/Hub_Flow.thy ===== *)
theory Hub_Flow
  imports Hub_Execution
begin

text \<open>
  The workflow half of the orchestrator (\<open>src/crates/hub-core/src/orchestrator.rs\<close>, lines 1024 to 1870):
  submission, the attempts of one step, the ends of a workflow, cancellation and recovery. A
  worker shares the workflow record and the cancellation token with other threads; what they do
  between two of its accesses is an argument. The scheduling loop is in \<open>Hub_Scheduler\<close>.
\<close>

section \<open>Model\<close>

subsection \<open>Submission\<close>

definition put_workflow :: "workflow_record \<Rightarrow> (hub, unit) action" where
  "put_workflow r = (\<lambda>s. (Inr (), s\<lparr>h_workflows := workflows_put r (h_workflows s)\<rparr>))"

definition validate_workflow_step_admission :: "hub_env \<Rightarrow> hub \<Rightarrow> step \<Rightarrow> component_admission_pin \<Rightarrow> unit res" where
  "validate_workflow_step_admission env s st pin =
     rbind (ok_or (ComponentNotFound (step_component st))
       (components_get (h_components s) (step_component st) (pin_component_version pin))) (\<lambda>m.
     rbind (manifest_digest (he_sha env) (he_mser env) m) (\<lambda>d.
     if d \<noteq> pin_manifest_digest pin then
       Inl (Validation (Fmt ''workflow step {:?} component {} version {} manifest digest {} does not match required {}''
         [FDebug (step_key st), id_arg (manifest_id m), FStr (version_str (manifest_version m)), FStr (to_hex d), FStr (to_hex (pin_manifest_digest pin))]))
     else
       rbind (ok_or (CapabilityNotDeclared (step_component st) (cap_str (step_capability st)))
         (find_capability m (step_capability st))) (\<lambda>c.
       if contract_version c \<noteq> pin_contract_version pin then
         Inl (Validation (Fmt ''workflow step {:?} capability {} contract version {} does not match required {}''
           [FDebug (step_key st), FStr (cap_str (cap_name c)), FStr (version_str (contract_version c)), FStr (version_str (pin_contract_version pin))]))
       else Inr ())))"

definition check_workflow_admission :: "hub_env \<Rightarrow> hub \<Rightarrow> workflow_spec \<Rightarrow> workflow_admission_pins option \<Rightarrow> unit res" where
  "check_workflow_admission env s spec admission =
     (case admission of
        Some pins \<Rightarrow>
          rbind (validate_pins pins spec) (\<lambda>_.
            try_for (\<lambda>st. rbind (ok_or (InvalidRunSpec (Fmt ''workflow step {:?} has no exact admission pin'' [FDebug (step_key st)]))
                (bt_get (wap_steps pins) (step_key st))) (validate_workflow_step_admission env s st)) (ws_steps spec))
      | None \<Rightarrow>
          try_for (\<lambda>st. if components_latest (h_components s) (step_component st) = None
            then Inl (ComponentNotFound (step_component st)) else Inr ()) (ws_steps spec))"

text \<open>\<open>None\<close> is a panic of the topological sort.\<close>

definition submit_workflow_internal :: "hub_env \<Rightarrow> workflow_id \<Rightarrow> u64 \<Rightarrow> workflow_spec \<Rightarrow> workflow_admission_pins option
    \<Rightarrow> hub \<Rightarrow> (workflow_record res \<times> hub) option" where
  "submit_workflow_internal env fresh now spec admission s =
     (case validate_workflow spec of
        None \<Rightarrow> None
      | Some (Inl e) \<Rightarrow> Some (Inl e, s)
      | Some (Inr _) \<Rightarrow>
          (case rbind (check_workflow_admission env s spec admission) (\<lambda>_. parse_version WORKFLOW_MODEL_VERSION) of
             Inl e \<Rightarrow> Some (Inl e, s)
           | Inr model_version \<Rightarrow>
               (case create_with_admission fresh spec model_version now admission of
                  None \<Rightarrow> None
                | Some (Inl e) \<Rightarrow> Some (Inl e, s)
                | Some (Inr r) \<Rightarrow> Some (sbind (put_workflow r) (\<lambda>_. sret r) s))))"

definition submit_workflow :: "hub_env \<Rightarrow> workflow_id \<Rightarrow> u64 \<Rightarrow> workflow_spec \<Rightarrow> hub \<Rightarrow> (workflow_record res \<times> hub) option" where
  "submit_workflow env fresh now spec = submit_workflow_internal env fresh now spec None"

definition submit_workflow_pinned :: "hub_env \<Rightarrow> workflow_id \<Rightarrow> u64 \<Rightarrow> workflow_spec \<Rightarrow> workflow_admission_pins
    \<Rightarrow> hub \<Rightarrow> (workflow_record res \<times> hub) option" where
  "submit_workflow_pinned env fresh now spec admission = submit_workflow_internal env fresh now spec (Some admission)"

subsection \<open>Records of attempts\<close>

text \<open>\<open>iter_mut().find(...)\<close>: the first element with the property is changed.\<close>

fun update_first :: "('a \<Rightarrow> bool) \<Rightarrow> ('a \<Rightarrow> 'a) \<Rightarrow> 'a list \<Rightarrow> 'a list" where
  "update_first P f [] = []"
| "update_first P f (x # xs) = (if P x then f x # xs else x # update_first P f xs)"

definition record_attempt :: "string \<Rightarrow> step_attempt \<Rightarrow> workflow_record \<Rightarrow> workflow_record" where
  "record_attempt key a r =
     (if find (\<lambda>sr. sr_key sr = key) (wr_steps r) \<noteq> None then
        r\<lparr>wr_steps := update_first (\<lambda>sr. sr_key sr = key)
          (\<lambda>sr. sr\<lparr>sr_run := sa_run a, sr_state := sa_state a, sr_failure := sa_failure a, sr_attempts := sr_attempts sr @ [a]\<rparr>) (wr_steps r)\<rparr>
      else
        r\<lparr>wr_steps := sort_key sr_key (wr_steps r @
          [\<lparr>sr_key = key, sr_run = sa_run a, sr_state = sa_state a, sr_failure = sa_failure a, sr_attempts = [a]\<rparr>])\<rparr>)"

definition finish_recorded_attempt :: "string \<Rightarrow> run_id \<Rightarrow> run_record option \<Rightarrow> attempt_failure_category option \<Rightarrow> message option
    \<Rightarrow> workflow_record \<Rightarrow> workflow_record" where
  "finish_recorded_attempt key i run category failure r =
     (let state = (case run of Some x \<Rightarrow> run_state_of x | None \<Rightarrow> Run_Failed) in
      r\<lparr>wr_steps := update_first (\<lambda>sr. sr_key sr = key)
        (\<lambda>sr. sr\<lparr>sr_run := i, sr_state := state, sr_failure := failure,
           sr_attempts := update_first (\<lambda>a. sa_run a = i)
             (\<lambda>a. a\<lparr>sa_state := state, sa_started_at := Option.bind run run_started_at, sa_finished_at := Option.bind run run_finished_at,
                sa_failure_category := category, sa_failure := failure\<rparr>) (sr_attempts sr)\<rparr>) (wr_steps r)\<rparr>)"

definition classify_attempt_failure :: "run_record \<Rightarrow> attempt_failure_category option" where
  "classify_attempt_failure run =
     (if run_state_of run = Run_Succeeded then None
      else case run_outcome_of run of
        None \<Rightarrow> Some Cat_ExecutionError
      | Some o' \<Rightarrow>
          if run_state_of run = Run_Cancelled \<or> ro_cancelled o' then Some Cat_Cancelled
          else if ro_timed_out o' then Some Cat_TimedOut
          else if (\<exists>x\<in>set_option (ro_failure o'). starts_with ''failed to start:'' x) then Some Cat_StartFailure
          else if (\<exists>x\<in>set_option (ro_failure o'). starts_with ''required output(s) not produced:'' x) then Some Cat_MissingRequiredOutput
          else if (\<exists>code\<in>set_option (ro_exit_code o'). code \<noteq> 0) then Some Cat_NonZeroExit
          else if ro_signal o' \<noteq> None then Some Cat_Signaled
          else Some Cat_ExecutionError)"

subsection \<open>Cancellation tokens and intent\<close>

definition workflow_cancel_requested :: "workflow_id \<Rightarrow> hub \<Rightarrow> bool" where
  "workflow_cancel_requested w s = (case workflows_get (h_workflows s) w of
     Some r \<Rightarrow> wr_cancel_requested_at r \<noteq> None | None \<Rightarrow> False)"

definition register_active_workflow_run :: "workflow_id \<Rightarrow> run_id \<Rightarrow> hub \<Rightarrow> hub" where
  "register_active_workflow_run w i s =
     s\<lparr>h_active_workflow_runs := bt_insert w (bs_insert i (unwrap_or [] (bt_get (h_active_workflow_runs s) w))) (h_active_workflow_runs s)\<rparr>"

definition unregister_active_workflow_run :: "workflow_id \<Rightarrow> run_id \<Rightarrow> hub \<Rightarrow> hub" where
  "unregister_active_workflow_run w i s =
     (case bt_get (h_active_workflow_runs s) w of
        None \<Rightarrow> s
      | Some runs \<Rightarrow>
          let runs' = bs_remove i runs; active = bt_insert w runs' (h_active_workflow_runs s) in
          s\<lparr>h_active_workflow_runs := (if runs' = [] then bt_remove w active else active)\<rparr>)"

text \<open>The loops over runs to cancel; the result counts the signalled executions.\<close>

fun cancel_runs :: "(run_id \<Rightarrow> u64) \<Rightarrow> run_id list \<Rightarrow> (hub, nat) action" where
  "cancel_runs clock [] = sret 0"
| "cancel_runs clock (i # rest) =
     sbind (cancel_run (clock i) i) (\<lambda>signalled.
     sbind (cancel_runs clock rest) (\<lambda>n. sret (if signalled then Suc n else n)))"

definition cancel_active_workflow_runs :: "(run_id \<Rightarrow> u64) \<Rightarrow> workflow_id \<Rightarrow> (hub, nat) action" where
  "cancel_active_workflow_runs clock w s = cancel_runs clock (unwrap_or [] (bt_get (h_active_workflow_runs s) w)) s"

definition refresh_cancel_intent :: "hub \<Rightarrow> workflow_record \<Rightarrow> workflow_record" where
  "refresh_cancel_intent s r =
     (case workflows_get (h_workflows s) (wr_id r) of
        Some persisted \<Rightarrow> if wr_cancel_requested_at r = None
          then r\<lparr>wr_cancel_requested_at := wr_cancel_requested_at persisted\<rparr> else r
      | None \<Rightarrow> r)"

subsection \<open>Inputs of a step\<close>

text \<open>The outer error is one of the repository, the inner one a message that fails the workflow.\<close>

fun resolve_inputs :: "hub \<Rightarrow> workflow_id \<Rightarrow> step \<Rightarrow> (string, artifact_id) btree \<Rightarrow> (string \<times> input_source) list
    \<Rightarrow> (message + (string, artifact_id) btree) res" where
  "resolve_inputs s w st resolved [] = Inr (Inr resolved)"
| "resolve_inputs s w st resolved ((name, ArtifactSource a) # rest) =
     (if artifacts_get (h_artifacts s) a \<noteq> None then resolve_inputs s w st (bt_insert name a resolved) rest
      else Inr (Inl (Fmt ''step {:?} input {input_name:?}: artifact {} not found'' [FDebug (step_key st), FDebug name, id_arg a])))"
| "resolve_inputs s w st resolved ((name, FromStep dep output) # rest) =
     rbind (authoritative_publication (h_fences s) w dep) (\<lambda>publication.
       case publication of
         None \<Rightarrow> Inr (Inl (Fmt ''step {:?} input {input_name:?}: dependency {dep:?} has no authoritative publication''
           [FDebug (step_key st), FDebug name, FDebug dep]))
       | Some p \<Rightarrow>
           (case bt_get (sp_outputs p) output of
              Some a \<Rightarrow> resolve_inputs s w st (bt_insert name a resolved) rest
            | None \<Rightarrow> Inr (Inl (Fmt ''step {:?} input {input_name:?}: authoritative publication for step {dep:?} has no output named {output:?}''
                [FDebug (step_key st), FDebug name, FDebug dep, FDebug output]))))"

definition resolve_workflow_inputs :: "hub \<Rightarrow> workflow_record \<Rightarrow> step \<Rightarrow> (message + (string, artifact_id) btree) res" where
  "resolve_workflow_inputs s r st = resolve_inputs s (wr_id r) st [] (step_inputs st)"

subsection \<open>The attempts of a step\<close>

text \<open>What a worker sees: the hub, the shared workflow record and the cancellation token.\<close>

record flow =
  fl_hub :: hub
  fl_record :: workflow_record
  fl_token :: bool

definition on_hub :: "(hub, 'a) action \<Rightarrow> (flow, 'a) action" where
  "on_hub m = (\<lambda>f. case m (fl_hub f) of (q, h) \<Rightarrow> (q, f\<lparr>fl_hub := h\<rparr>))"

text \<open>Under the lock: the shared record is changed and stored.\<close>

definition update_shared :: "(workflow_record \<Rightarrow> workflow_record) \<Rightarrow> (flow, unit) action" where
  "update_shared g = (\<lambda>f. on_hub (put_workflow (g (fl_record f))) (f\<lparr>fl_record := g (fl_record f)\<rparr>))"

definition interfere :: "(flow \<Rightarrow> flow) \<Rightarrow> (flow, unit) action" where
  "interfere p = (\<lambda>f. (Inr (), p f))"

definition advance_fence :: "workflow_id \<Rightarrow> string \<Rightarrow> attempt_id \<Rightarrow> (hub, publication_fence) action" where
  "advance_fence w key a = (\<lambda>s. case advance_publication_fence (h_fences s) w key a of
     Inl e \<Rightarrow> (Inl e, s) | Inr (fence, entries) \<Rightarrow> (Inr fence, s\<lparr>h_fences := entries\<rparr>))"

definition publish_outputs :: "step_publication \<Rightarrow> (hub, unit) action" where
  "publish_outputs p = (\<lambda>s. case publish_authoritative_outputs (h_fences s) p of
     Inl e \<Rightarrow> (Inl e, s) | Inr (_, entries) \<Rightarrow> (Inr (), s\<lparr>h_fences := entries\<rparr>))"

definition stop_requested :: "workflow_id \<Rightarrow> flow \<Rightarrow> bool" where
  "stop_requested w f \<longleftrightarrow> fl_token f \<or> workflow_cancel_requested w (fl_hub f)"

text \<open>
  The ids, clock readings and executor of one attempt; what other threads do before it, before
  and during its run, and before each poll of the backoff. The polls are those made until the
  backoff has elapsed.
\<close>

record attempt_io =
  ai_before :: "flow \<Rightarrow> flow"
  ai_run_id :: run_id
  ai_submitted_at :: u64
  ai_attempt :: attempt_id
  ai_registered :: "flow \<Rightarrow> flow"
  ai_cancel_at :: u64
  ai_run :: run_io
  ai_during :: "flow \<Rightarrow> flow"
  ai_polls :: "(flow \<Rightarrow> flow) list"

datatype step_terminal = StepSucceeded | StepFailed message | StepCancelled message

fun poll_backoff :: "workflow_id \<Rightarrow> (flow \<Rightarrow> flow) list \<Rightarrow> flow \<Rightarrow> bool \<times> flow" where
  "poll_backoff w [] f = (\<not> stop_requested w f, f)"
| "poll_backoff w (p # ps) f =
     (let f' = p f in
      if stop_requested w f' then (False, f') else if ps = [] then (True, f') else poll_backoff w ps f')"

definition wait_retry_backoff :: "workflow_id \<Rightarrow> (flow \<Rightarrow> flow) list \<Rightarrow> u64 \<Rightarrow> flow \<Rightarrow> bool \<times> flow" where
  "wait_retry_backoff w polls backoff_ms f =
     (if backoff_ms = 0 then
        (\<not> fl_token f \<and> (case workflows_get (h_workflows (fl_hub f)) w of
           Some r \<Rightarrow> wr_cancel_requested_at r = None | None \<Rightarrow> False), f)
      else poll_backoff w polls f)"

text \<open>The outputs by label; a label that occurs twice is an error.\<close>

fun collect_outputs :: "string \<Rightarrow> (string, artifact_id) btree \<Rightarrow> output_ref list \<Rightarrow> (string, artifact_id) btree res" where
  "collect_outputs key outputs [] = Inr outputs"
| "collect_outputs key outputs (out # rest) =
     (if bt_get outputs (oref_name out) \<noteq> None then
        Inl (Validation (Fmt ''step {:?} produced duplicate output label {:?}; authoritative publication is ambiguous''
          [FDebug key, FDebug (oref_name out)]))
      else collect_outputs key (bt_insert (oref_name out) (oref_artifact out) outputs) rest)"

definition publish_run :: "string \<Rightarrow> publication_fence \<Rightarrow> run_record \<Rightarrow> (hub, unit) action" where
  "publish_run key fence finished =
     sbind (slift (ok_or (Storage (Fmt ''succeeded run {} has no recorded outcome for authoritative publication'' [id_arg (run_id finished)]))
       (run_outcome_of finished))) (\<lambda>outcome.
     sbind (slift (collect_outputs key [] (ro_outputs outcome))) (\<lambda>outputs.
       publish_outputs \<lparr>sp_fence = fence, sp_outputs = outputs\<rparr>))"

definition run_failure_text :: "run_record \<Rightarrow> message option" where
  "run_failure_text run = map_option run_text (Option.bind (run_outcome_of run) ro_failure)"

definition retry_again :: "step \<Rightarrow> u32 \<Rightarrow> attempt_failure_category \<Rightarrow> bool" where
  "retry_again st n observed = (case step_retry st of
     Some policy \<Rightarrow> n < rp_max_attempts policy \<and> retry_allows policy observed | None \<Rightarrow> False)"

text \<open>What follows a finished run: the end of the step, or \<open>None\<close> to try again.\<close>

definition after_run :: "workflow_id \<Rightarrow> step \<Rightarrow> attempt_io \<Rightarrow> u32 \<Rightarrow> run_id \<Rightarrow> publication_fence \<Rightarrow> run_record
    \<Rightarrow> (flow, step_terminal option) action" where
  "after_run w st aio n i fence finished =
     (let category = classify_attempt_failure finished; failure = run_failure_text finished in
      sbind (update_shared (finish_recorded_attempt (step_key st) i (Some finished) category failure)) (\<lambda>_ f.
      if workflow_cancel_requested w (fl_hub f) \<or> run_state_of finished = Run_Cancelled then
        (Inr (Some (StepCancelled (unwrap_or (plain ''workflow cancellation requested'') failure))), f)
      else if run_state_of finished = Run_Succeeded then
        sbind (on_hub (publish_run (step_key st) fence finished)) (\<lambda>_. sret (Some StepSucceeded)) f
      else if \<not> retry_again st n (unwrap_or Cat_ExecutionError category) then
        (Inr (Some (StepFailed (Fmt ''step {:?} attempt {attempt_number} ended in state {}{}''
          ([FDebug (step_key st), FNat (unat n), FStr (run_state_str (run_state_of finished))]
           @ (case failure of Some x \<Rightarrow> [FMsg (Fmt '': {value}'' [FMsg x])] | None \<Rightarrow> []))))), f)
      else
        (case wait_retry_backoff w (ai_polls aio) (unwrap_or 0 (Option.bind (step_retry st) rp_backoff_ms)) f of
           (True, f') \<Rightarrow> (Inr None, f')
         | (False, f') \<Rightarrow> (Inr (Some (StepCancelled (plain ''workflow cancellation requested during retry backoff''))), f'))))"

definition new_attempt :: "attempt_io \<Rightarrow> u32 \<Rightarrow> run_record \<Rightarrow> step_attempt" where
  "new_attempt aio n submitted =
     \<lparr>sa_id = ai_attempt aio, sa_number = n, sa_run = run_id submitted, sa_state = run_state_of submitted,
      sa_started_at = run_started_at submitted, sa_finished_at = run_finished_at submitted,
      sa_failure_category = None, sa_failure = None\<rparr>"

definition run_submitted :: "hub_env \<Rightarrow> workflow_id \<Rightarrow> step \<Rightarrow> attempt_io \<Rightarrow> u32 \<Rightarrow> run_id \<Rightarrow> publication_fence \<Rightarrow> (flow, step_terminal option) action" where
  "run_submitted env w st aio n i fence f =
     (case execute_run env (ai_run aio) i (fl_hub f) of (executed, h) \<Rightarrow>
        let f' = ai_during aio (f\<lparr>fl_hub := unregister_active_workflow_run w i h\<rparr>) in
        (case executed of
           Inr finished \<Rightarrow> after_run w st aio n i fence finished f'
         | Inl e \<Rightarrow>
             sbind (update_shared (finish_recorded_attempt (step_key st) i (runs_get (h_runs (fl_hub f')) i)
               (Some Cat_ExecutionError) (Some (error_message e)))) (\<lambda>_. sfail e) f'))"

definition run_attempt :: "hub_env \<Rightarrow> workflow_id \<Rightarrow> step \<Rightarrow> attempt_io \<Rightarrow> u32 \<Rightarrow> run_record \<Rightarrow> (flow, step_terminal option) action" where
  "run_attempt env w st aio n submitted =
     sbind (update_shared (record_attempt (step_key st) (new_attempt aio n submitted))) (\<lambda>_.
     sbind (on_hub (advance_fence w (step_key st) (ai_attempt aio))) (\<lambda>fence.
     sbind (interfere (\<lambda>f. ai_registered aio (f\<lparr>fl_hub := register_active_workflow_run w (run_id submitted) (fl_hub f)\<rparr>))) (\<lambda>_.
     sbind (\<lambda>f. if stop_requested w f then on_hub (cancel_run (ai_cancel_at aio) (run_id submitted)) f else sret False f) (\<lambda>_.
     run_submitted env w st aio n (run_id submitted) fence))))"

definition execute_attempt :: "hub_env \<Rightarrow> workflow_id \<Rightarrow> step \<Rightarrow> run_spec \<Rightarrow> component_admission_pin option \<Rightarrow> attempt_io \<Rightarrow> u32
    \<Rightarrow> (flow, step_terminal option) action" where
  "execute_attempt env w st spec pin aio n =
     sbind (interfere (ai_before aio)) (\<lambda>_ f.
     if stop_requested w f then (Inr (Some (StepCancelled (plain ''workflow cancellation requested''))), f)
     else sbind (on_hub (submit_run_internal env (ai_run_id aio) (ai_submitted_at aio) spec None pin)) (run_attempt env w st aio n) f)"

text \<open>The attempt loop, with fuel; the fuel \<open>rp_max_attempts\<close> is enough.\<close>

fun attempt_loop :: "nat \<Rightarrow> hub_env \<Rightarrow> workflow_id \<Rightarrow> step \<Rightarrow> run_spec \<Rightarrow> component_admission_pin option \<Rightarrow> (u32 \<Rightarrow> attempt_io) \<Rightarrow> u32
    \<Rightarrow> flow \<Rightarrow> (step_terminal res \<times> flow) option" where
  "attempt_loop 0 env w st spec pin aios n f = None"
| "attempt_loop (Suc fuel) env w st spec pin aios n f =
     (case execute_attempt env w st spec pin (aios n) n f of
        (Inl e, f') \<Rightarrow> Some (Inl e, f')
      | (Inr (Some t), f') \<Rightarrow> Some (Inr t, f')
      | (Inr None, f') \<Rightarrow> attempt_loop fuel env w st spec pin aios (n + 1) f')"

definition execute_parallel_step :: "nat \<Rightarrow> hub_env \<Rightarrow> workflow_id \<Rightarrow> step \<Rightarrow> (string, artifact_id) btree \<Rightarrow> (u32 \<Rightarrow> attempt_io)
    \<Rightarrow> flow \<Rightarrow> (step_terminal res \<times> flow) option" where
  "execute_parallel_step fuel env w st resolved aios f =
     attempt_loop fuel env w st (step_run_spec st resolved)
       (Option.bind (wr_admission (fl_record f)) (\<lambda>pins. bt_get (wap_steps pins) (step_key st))) aios 1 f"

subsection \<open>Ends of a workflow\<close>

definition finish_workflow_cancelled :: "u64 \<Rightarrow> u64 \<Rightarrow> workflow_record \<Rightarrow> message \<Rightarrow> (hub, workflow_record) action" where
  "finish_workflow_cancelled intent_at now r0 text s =
     (let r = refresh_cancel_intent s r0; r1 = r\<lparr>wr_cancel_requested_at := get_or_insert intent_at (wr_cancel_requested_at r)\<rparr> in
      sbind (slift (if wf_is_terminal (wr_state r1) then Inr r1 else wf_transition_to Wf_Cancelled now r1)) (\<lambda>r2.
      let r3 = r2\<lparr>wr_failure := Some text\<rparr> in sbind (put_workflow r3) (\<lambda>_. sret r3)) s)"

definition finish_workflow_failed :: "u64 \<Rightarrow> u64 \<Rightarrow> workflow_record \<Rightarrow> message \<Rightarrow> (hub, workflow_record) action" where
  "finish_workflow_failed intent_at now r0 text s =
     (let r = refresh_cancel_intent s r0 in
      if wr_cancel_requested_at r \<noteq> None then finish_workflow_cancelled intent_at now r text s
      else sbind (slift (wf_transition_to Wf_Failed now r)) (\<lambda>r1.
        let r2 = r1\<lparr>wr_failure := Some text\<rparr> in sbind (put_workflow r2) (\<lambda>_. sret r2)) s)"

text \<open>\<open>execute_workflow_inner\<close> before the scheduling loop: the started record, or a finished one.\<close>

definition start_workflow :: "u64 \<Rightarrow> u64 \<Rightarrow> bool \<Rightarrow> workflow_id \<Rightarrow> (hub, workflow_record + workflow_record) action" where
  "start_workflow intent_at now token w s =
     (case workflows_get (h_workflows s) w of
        None \<Rightarrow> (Inl (WorkflowNotFound w), s)
      | Some r0 \<Rightarrow>
          if wr_state r0 \<noteq> Wf_Created then (Inl (WorkflowNotExecutable w (wr_state r0)), s)
          else
            let r = refresh_cancel_intent s r0 in
            if token \<or> wr_cancel_requested_at r \<noteq> None then
              sbind (finish_workflow_cancelled intent_at now r (plain ''cancelled before execution'')) (\<lambda>r'. sret (Inl r')) s
            else sbind (slift (wf_transition_to Wf_Running now r)) (\<lambda>r'. sbind (put_workflow r') (\<lambda>_. sret (Inr r'))) s)"

text \<open>After the loop: the causes it collected and the number of completed steps decide.\<close>

definition conclude_workflow :: "u64 \<Rightarrow> u64 \<Rightarrow> workflow_record \<Rightarrow> message option \<Rightarrow> message option \<Rightarrow> nat \<Rightarrow> (hub, workflow_record) action" where
  "conclude_workflow intent_at now r0 first_failure cancellation_reason completed s =
     (let r = refresh_cancel_intent s r0 in
      if wr_cancel_requested_at r \<noteq> None \<or> cancellation_reason \<noteq> None then
        finish_workflow_cancelled intent_at now r (unwrap_or (plain ''workflow cancellation requested'') cancellation_reason) s
      else case first_failure of
        Some text \<Rightarrow> finish_workflow_failed intent_at now r text s
      | None \<Rightarrow>
          if completed \<noteq> length (ws_steps (wr_spec r)) then
            finish_workflow_failed intent_at now r
              (Fmt ''workflow scheduler completed {} of {} steps'' [FNat completed, FNat (length (ws_steps (wr_spec r)))]) s
          else sbind (slift (wf_transition_to Wf_Succeeded now r)) (\<lambda>r'. sbind (put_workflow r') (\<lambda>_. sret r')) s)"

subsection \<open>Cancellation and recovery\<close>

fun nonterminal_runs :: "hub \<Rightarrow> step_attempt list \<Rightarrow> run_id list \<Rightarrow> run_id list" where
  "nonterminal_runs s [] runs = runs"
| "nonterminal_runs s (a # rest) runs =
     nonterminal_runs s rest
       (case runs_get (h_runs s) (sa_run a) of
          Some r \<Rightarrow> if run_is_terminal (run_state_of r) then runs else bs_insert (sa_run a) runs
        | None \<Rightarrow> runs)"

definition nonterminal_attempt_runs :: "hub \<Rightarrow> workflow_record \<Rightarrow> run_id list" where
  "nonterminal_attempt_runs s r = nonterminal_runs s (concat (map sr_attempts (wr_steps r))) []"

definition request_cancel :: "workflow_id \<Rightarrow> u64 \<Rightarrow> (hub, workflow_record) action" where
  "request_cancel w now s =
     (case workflows_request_cancel w now (h_workflows s) of
        (found, ws) \<Rightarrow> (ok_or (WorkflowNotFound w) found, s\<lparr>h_workflows := ws\<rparr>))"

definition cancel_workflow :: "(run_id \<Rightarrow> u64) \<Rightarrow> u64 \<Rightarrow> u64 \<Rightarrow> u64 \<Rightarrow> workflow_id \<Rightarrow> (hub, bool) action" where
  "cancel_workflow clock now intent_at finished w =
     sbind (request_cancel w now) (\<lambda>r s.
     if wf_is_terminal (wr_state r) then (Inr False, s)
     else
       let active = bt_get (h_active_workflow_cancels s) w \<noteq> None;
           s1 = (if active then s\<lparr>h_active_workflow_cancels := bt_insert w True (h_active_workflow_cancels s)\<rparr> else s)
       in
       sbind (cancel_active_workflow_runs clock w) (\<lambda>signalled s2.
         if \<not> active then
           sbind (cancel_runs clock (nonterminal_attempt_runs s2 r)) (\<lambda>_.
           sbind (\<lambda>s. (ok_or (WorkflowNotFound w) (workflows_get (h_workflows s) w), s)) (\<lambda>r'.
           sbind (finish_workflow_cancelled intent_at finished r' (plain ''workflow cancellation requested'')) (\<lambda>_. sret False))) s2
         else (Inr (active \<or> 0 < signalled), s2)) s1)"

fun recover_cancellations :: "(run_id \<Rightarrow> u64) \<Rightarrow> (workflow_id \<Rightarrow> u64) \<Rightarrow> workflow_record list \<Rightarrow> (hub, nat) action" where
  "recover_cancellations clock readings [] = sret 0"
| "recover_cancellations clock readings (r # rest) =
     (if wf_is_terminal (wr_state r) \<or> wr_cancel_requested_at r = None then recover_cancellations clock readings rest
      else
        sbind (\<lambda>s. cancel_runs clock (nonterminal_attempt_runs s r) s) (\<lambda>_.
        sbind (finish_workflow_cancelled (readings (wr_id r)) (readings (wr_id r)) r (plain ''workflow cancellation recovered after restart'')) (\<lambda>_.
        sbind (recover_cancellations clock readings rest) (\<lambda>n. sret (Suc n)))))"

definition recover_workflow_cancellations :: "(run_id \<Rightarrow> u64) \<Rightarrow> (workflow_id \<Rightarrow> u64) \<Rightarrow> (hub, nat) action" where
  "recover_workflow_cancellations clock readings s = recover_cancellations clock readings (workflows_list (h_workflows s)) s"

definition INTERRUPTED :: message where
  "INTERRUPTED = plain ''workflow execution interrupted by daemon restart; local attempts are not replayed automatically''"

fun fail_attempts :: "u64 \<Rightarrow> step_result \<Rightarrow> step_attempt list \<Rightarrow> (hub, step_result) action" where
  "fail_attempts now sr [] = sret sr"
| "fail_attempts now sr (a # rest) = (\<lambda>s.
     case runs_get (h_runs s) (sa_run a) of
       None \<Rightarrow> fail_attempts now (sr\<lparr>sr_attempts := sr_attempts sr @ [a]\<rparr>) rest s
     | Some run \<Rightarrow>
         if run_is_terminal (run_state_of run) then fail_attempts now (sr\<lparr>sr_attempts := sr_attempts sr @ [a]\<rparr>) rest s
         else
           sbind (slift (run_transition_to Run_Failed now run)) (\<lambda>run'.
           sbind (put_run run') (\<lambda>_.
           let a' = a\<lparr>sa_state := Run_Failed, sa_finished_at := Some now, sa_failure_category := Some Cat_ExecutionError,
                 sa_failure := Some INTERRUPTED\<rparr>;
               sr' = (if sr_run sr = sa_run a' then sr\<lparr>sr_state := Run_Failed, sr_failure := Some INTERRUPTED\<rparr> else sr)
           in fail_attempts now (sr'\<lparr>sr_attempts := sr_attempts sr' @ [a']\<rparr>) rest)) s)"

fun fail_steps :: "u64 \<Rightarrow> step_result list \<Rightarrow> (hub, step_result list) action" where
  "fail_steps now [] = sret []"
| "fail_steps now (sr # rest) =
     sbind (fail_attempts now (sr\<lparr>sr_attempts := []\<rparr>) (sr_attempts sr)) (\<lambda>sr'.
     sbind (fail_steps now rest) (\<lambda>srs. sret (sr' # srs)))"

fun recover_interrupted :: "(workflow_id \<Rightarrow> u64) \<Rightarrow> workflow_record list \<Rightarrow> (hub, nat) action" where
  "recover_interrupted readings [] = sret 0"
| "recover_interrupted readings (r # rest) =
     (if wr_state r \<noteq> Wf_Running \<or> wr_cancel_requested_at r \<noteq> None then recover_interrupted readings rest
      else
        sbind (fail_steps (readings (wr_id r)) (wr_steps r)) (\<lambda>srs.
        sbind (slift (wf_transition_to Wf_Failed (readings (wr_id r)) (r\<lparr>wr_steps := srs\<rparr>))) (\<lambda>r'.
        sbind (put_workflow (r'\<lparr>wr_failure := Some INTERRUPTED\<rparr>)) (\<lambda>_.
        sbind (recover_interrupted readings rest) (\<lambda>n. sret (Suc n))))))"

definition recover_interrupted_workflows :: "(workflow_id \<Rightarrow> u64) \<Rightarrow> (hub, nat) action" where
  "recover_interrupted_workflows readings s = recover_interrupted readings (workflows_list (h_workflows s)) s"

section \<open>Specifications\<close>

text \<open>No execution is left to a run.\<close>

definition run_done :: "hub \<Rightarrow> run_id \<Rightarrow> bool" where
  "run_done s i \<longleftrightarrow> (\<forall>r. runs_get (h_runs s) i = Some r \<longrightarrow> run_is_terminal (run_state_of r))"

definition attempts_of :: "workflow_record \<Rightarrow> step_attempt list" where
  "attempts_of r = concat (map sr_attempts (wr_steps r))"

text \<open>
  A hub in a fresh process: nothing is active, and the records stand under their ids. Recovery
  may finish runs, but keeps those that are done, and keeps the fresh state.
\<close>

definition fresh_hub :: "hub \<Rightarrow> bool" where
  "fresh_hub s \<longleftrightarrow> h_active_cancels s = [] \<and> keyed run_id (h_runs s) \<and> keyed wr_id (h_workflows s)"

definition settles :: "hub \<Rightarrow> hub \<Rightarrow> bool" where
  "settles s s' \<longleftrightarrow> fresh_hub s' \<and> (\<forall>i. run_done s i \<longrightarrow> run_done s' i)"

section \<open>Facts\<close>

subsection \<open>Recovery\<close>

lemma settles_refl: "fresh_hub s \<Longrightarrow> settles s s"
  by (simp add: settles_def)

lemma settles_trans: "settles s s' \<Longrightarrow> settles s' s'' \<Longrightarrow> settles s s''"
  by (simp add: settles_def)

lemma put_run_settles:
  assumes "fresh_hub s" and "run_is_terminal (run_state_of r)"
  shows "settles s (s\<lparr>h_runs := runs_put r (h_runs s)\<rparr>)"
  using assms by (auto simp: settles_def fresh_hub_def run_done_def runs_get_put memory_runs.put_inv)

lemma put_workflow_settles: "fresh_hub s \<Longrightarrow> settles s (s\<lparr>h_workflows := workflows_put r (h_workflows s)\<rparr>)"
  by (simp add: settles_def fresh_hub_def run_done_def memory_workflows.put_inv)

lemma live_run_stops: "\<not> run_is_terminal st \<Longrightarrow> run_can_transition_to st Run_Cancelled \<and> run_can_transition_to st Run_Failed"
  by (cases st) auto

lemma cancel_run_fresh:
  assumes "fresh_hub s" and "runs_get (h_runs s) i \<noteq> None"
  shows "\<exists>s'. cancel_run now i s = (Inr False, s') \<and> settles s s' \<and> run_done s' i \<and> h_workflows s' = h_workflows s
    \<and> (\<forall>j. runs_get (h_runs s') j = None \<longleftrightarrow> runs_get (h_runs s) j = None)"
proof -
  obtain r where r: "runs_get (h_runs s) i = Some r" using assms(2) by blast
  show ?thesis
  proof (cases "run_is_terminal (run_state_of r)")
    case True
    then show ?thesis using assms(1) r by (auto simp: cancel_run_def fresh_hub_def settles_def run_done_def)
  next
    case False
    have i: "run_id r = i" using assms(1) r memory_runs.get_key by (auto simp: fresh_hub_def)
    obtain r' where tr: "run_transition_to Run_Cancelled now r = Inr r'"
      using live_run_stops[OF False] by (simp add: run_transition_to_def Let_def)
    then have r': "run_id r' = i" "run_state_of r' = Run_Cancelled" using i by (auto simp: run_transition_Inr)
    have "cancel_run now i s = (Inr False, s\<lparr>h_runs := runs_put r' (h_runs s)\<rparr>)"
      using False assms(1) r tr by (simp add: cancel_run_def fresh_hub_def sbind_def slift_def put_run_def sret_def)
    then show ?thesis
      using put_run_settles[OF assms(1), of r'] r' r by (auto simp: run_done_def runs_get_put)
  qed
qed

lemma cancel_runs_fresh:
  assumes "fresh_hub s" and "\<forall>i\<in>set is. runs_get (h_runs s) i \<noteq> None"
  shows "\<exists>s'. cancel_runs clock is s = (Inr 0, s') \<and> settles s s' \<and> (\<forall>i\<in>set is. run_done s' i) \<and> h_workflows s' = h_workflows s"
  using assms
proof (induction "is" arbitrary: s)
  case Nil
  then show ?case by (simp add: sret_def settles_refl)
next
  case (Cons i "is")
  then have "runs_get (h_runs s) i \<noteq> None" by simp
  from cancel_run_fresh[OF Cons.prems(1) this, of "clock i"] obtain s1 where
    s1: "cancel_run (clock i) i s = (Inr False, s1)" "settles s s1" "run_done s1 i" "h_workflows s1 = h_workflows s"
    "\<forall>j. runs_get (h_runs s1) j = None \<longleftrightarrow> runs_get (h_runs s) j = None" by blast
  have f1: "fresh_hub s1" using s1(2) by (simp add: settles_def)
  have "\<forall>j\<in>set is. runs_get (h_runs s1) j \<noteq> None" using Cons.prems(2) s1(5) by auto
  from Cons.IH[OF f1 this] obtain s2 where
    s2: "cancel_runs clock is s1 = (Inr 0, s2)" "settles s1 s2" "\<forall>j\<in>set is. run_done s2 j" "h_workflows s2 = h_workflows s1" by blast
  have "run_done s2 i" using s1(3) s2(2) by (simp add: settles_def)
  then show ?case using s1 s2 settles_trans by (auto simp: sbind_def sret_def)
qed

lemma nonterminal_runs_set:
  "set (nonterminal_runs s as runs) = set runs \<union> {i. i \<in> sa_run ` set as \<and> \<not> run_done s i}"
proof (induction "as" arbitrary: runs)
  case (Cons a "as")
  have "set (case runs_get (h_runs s) (sa_run a) of
          Some r \<Rightarrow> if run_is_terminal (run_state_of r) then runs else bs_insert (sa_run a) runs | None \<Rightarrow> runs) =
        (if run_done s (sa_run a) then set runs else insert (sa_run a) (set runs))"
    by (auto simp: run_done_def split: option.splits)
  then show ?case using Cons.IH by auto
qed simp

lemma workflows_get_put:
  "workflows_get (workflows_put r ws) w = (if w = wr_id r then Some (r\<lparr>wr_cancel_requested_at :=
     (if wr_cancel_requested_at r = None then Option.bind (workflows_get ws w) wr_cancel_requested_at else wr_cancel_requested_at r)\<rparr>)
     else workflows_get ws w)"
  by (auto simp: workflows_get_def workflows_put_def Let_def split: option.splits)

text \<open>A workflow that a recovery pass ended as \<open>st\<close>: none of the runs of its attempts is live.\<close>

definition recovered :: "hub \<Rightarrow> workflow_record \<Rightarrow> workflow_state \<Rightarrow> bool" where
  "recovered s r st \<longleftrightarrow> (\<exists>r'. workflows_get (h_workflows s) (wr_id r) = Some r' \<and> wr_state r' = st
     \<and> map sa_run (attempts_of r') = map sa_run (attempts_of r) \<and> (\<forall>a\<in>set (attempts_of r'). run_done s (sa_run a)))"

lemma recovered_later:
  assumes "recovered s r st" and "settles s s'" and "workflows_get (h_workflows s') (wr_id r) = workflows_get (h_workflows s) (wr_id r)"
  shows "recovered s' r st"
  using assms unfolding recovered_def settles_def by metis

lemma recovered_put:
  assumes "fresh_hub s" and "wr_id r' = wr_id r" and "map sa_run (attempts_of r') = map sa_run (attempts_of r)"
    and "\<forall>a\<in>set (attempts_of r'). run_done s (sa_run a)"
  shows "recovered (s\<lparr>h_workflows := workflows_put r' (h_workflows s)\<rparr>) r (wr_state r')"
  unfolding recovered_def
  using assms by (auto simp: workflows_get_put attempts_of_def run_done_def)

lemma refresh_fields [simp]:
  "wr_id (refresh_cancel_intent s r) = wr_id r" "wr_state (refresh_cancel_intent s r) = wr_state r"
  "wr_steps (refresh_cancel_intent s r) = wr_steps r" "wr_spec (refresh_cancel_intent s r) = wr_spec r"
  by (auto simp: refresh_cancel_intent_def split: option.splits)

lemma finish_cancelled_live:
  assumes "\<not> wf_is_terminal (wr_state r)"
  obtains r' where "finish_workflow_cancelled intent_at now r text s = (Inr r', s\<lparr>h_workflows := workflows_put r' (h_workflows s)\<rparr>)"
    and "wr_id r' = wr_id r" and "wr_state r' = Wf_Cancelled" and "wr_steps r' = wr_steps r" and "wr_cancel_requested_at r' \<noteq> None"
proof -
  define r1 where "r1 = (refresh_cancel_intent s r)\<lparr>wr_cancel_requested_at := get_or_insert intent_at (wr_cancel_requested_at (refresh_cancel_intent s r))\<rparr>"
  have r1: "wr_id r1 = wr_id r" "wr_state r1 = wr_state r" "wr_steps r1 = wr_steps r" "wr_cancel_requested_at r1 \<noteq> None"
    by (auto simp: r1_def get_or_insert_def split: option.splits)
  obtain r2 where r2: "wf_transition_to Wf_Cancelled now r1 = Inr r2"
    using assms r1(2) by (cases "wr_state r") (auto simp: wf_transition_to_def Let_def)
  then have "finish_workflow_cancelled intent_at now r text s =
      (Inr (r2\<lparr>wr_failure := Some text\<rparr>), s\<lparr>h_workflows := workflows_put (r2\<lparr>wr_failure := Some text\<rparr>) (h_workflows s)\<rparr>)"
    using assms r1(2) by (simp add: finish_workflow_cancelled_def Let_def r1_def[symmetric] sbind_def slift_def put_workflow_def sret_def)
  then show thesis using that[of "r2\<lparr>wr_failure := Some text\<rparr>"] r1 r2 by (auto simp: wf_transition_Inr)
qed

definition cancel_owed :: "workflow_record \<Rightarrow> bool" where
  "cancel_owed r \<longleftrightarrow> \<not> wf_is_terminal (wr_state r) \<and> wr_cancel_requested_at r \<noteq> None"

lemma recover_one_cancellation:
  assumes "fresh_hub s" and "cancel_owed r"
  obtains s1 r' s2 where "cancel_runs clock (nonterminal_attempt_runs s r) s = (Inr 0, s1)"
    and "finish_workflow_cancelled t t r text s1 = (Inr r', s2)" and "settles s s2" and "recovered s2 r Wf_Cancelled"
    and "\<forall>w. w \<noteq> wr_id r \<longrightarrow> workflows_get (h_workflows s2) w = workflows_get (h_workflows s) w"
proof -
  have owed: "set (nonterminal_attempt_runs s r) = {i. i \<in> sa_run ` set (attempts_of r) \<and> \<not> run_done s i}"
    by (simp add: nonterminal_attempt_runs_def nonterminal_runs_set attempts_of_def)
  then have "\<forall>i\<in>set (nonterminal_attempt_runs s r). runs_get (h_runs s) i \<noteq> None" by (auto simp: run_done_def)
  from cancel_runs_fresh[OF assms(1) this, of clock] obtain s1 where s1: "cancel_runs clock (nonterminal_attempt_runs s r) s = (Inr 0, s1)"
    "settles s s1" "\<forall>i\<in>set (nonterminal_attempt_runs s r). run_done s1 i" "h_workflows s1 = h_workflows s" by blast
  have done_: "\<forall>a\<in>set (attempts_of r). run_done s1 (sa_run a)" using s1(2,3) owed by (auto simp: settles_def)
  have f1: "fresh_hub s1" using s1(2) by (simp add: settles_def)
  obtain r' where r': "finish_workflow_cancelled t t r text s1 = (Inr r', s1\<lparr>h_workflows := workflows_put r' (h_workflows s1)\<rparr>)"
    "wr_id r' = wr_id r" "wr_state r' = Wf_Cancelled" "wr_steps r' = wr_steps r"
    using finish_cancelled_live[of r] assms(2) unfolding cancel_owed_def by metis
  have "recovered (s1\<lparr>h_workflows := workflows_put r' (h_workflows s1)\<rparr>) r Wf_Cancelled"
    using recovered_put[OF f1 r'(2)] done_ r'(3,4) by (simp add: attempts_of_def)
  then show thesis
    using that[OF s1(1) r'(1)] settles_trans[OF s1(2) put_workflow_settles[OF f1]] s1(4) r'(2) by (simp add: workflows_get_put)
qed

lemma fail_attempts_spec:
  assumes "fresh_hub s"
  shows "\<exists>sr' s'. fail_attempts now sr as s = (Inr sr', s') \<and> settles s s' \<and> h_workflows s' = h_workflows s
    \<and> map sa_run (sr_attempts sr') = map sa_run (sr_attempts sr @ as) \<and> (\<forall>a\<in>set as. run_done s' (sa_run a))"
  using assms
proof (induction "as" arbitrary: s sr)
  case Nil
  then show ?case by (simp add: sret_def settles_refl)
next
  case (Cons a "as")
  show ?case
  proof (cases "run_done s (sa_run a)")
    case True
    then have "fail_attempts now sr (a # as) s = fail_attempts now (sr\<lparr>sr_attempts := sr_attempts sr @ [a]\<rparr>) as s"
      by (auto simp: run_done_def split: option.splits)
    moreover obtain sr' s' where "fail_attempts now (sr\<lparr>sr_attempts := sr_attempts sr @ [a]\<rparr>) as s = (Inr sr', s')" "settles s s'"
      "h_workflows s' = h_workflows s" "map sa_run (sr_attempts sr') = map sa_run ((sr_attempts sr @ [a]) @ as)"
      "\<forall>x\<in>set as. run_done s' (sa_run x)"
      using Cons.IH[OF Cons.prems, of "sr\<lparr>sr_attempts := sr_attempts sr @ [a]\<rparr>"] by auto
    ultimately show ?thesis using True by (auto simp: settles_def)
  next
    case False
    then obtain run where run: "runs_get (h_runs s) (sa_run a) = Some run" "\<not> run_is_terminal (run_state_of run)"
      by (auto simp: run_done_def)
    obtain run' where tr: "run_transition_to Run_Failed now run = Inr run'"
      using live_run_stops[OF run(2)] by (simp add: run_transition_to_def Let_def)
    have id: "run_id run' = sa_run a" "run_state_of run' = Run_Failed"
      using tr run(1) Cons.prems memory_runs.get_key by (auto simp: run_transition_Inr fresh_hub_def)
    define s1 where "s1 = s\<lparr>h_runs := runs_put run' (h_runs s)\<rparr>"
    have s1: "settles s s1" "run_done s1 (sa_run a)"
      using put_run_settles[OF Cons.prems, of run'] id by (auto simp: s1_def run_done_def runs_get_put)
    obtain a' sr1 where step: "fail_attempts now sr (a # as) s = fail_attempts now sr1 as s1"
      "sr_attempts sr1 = sr_attempts sr @ [a']" "sa_run a' = sa_run a"
      using run tr by (simp add: sbind_def slift_def put_run_def s1_def Let_def)
    have "fresh_hub s1" using s1(1) by (simp add: settles_def)
    from Cons.IH[OF this, of sr1] obtain sr' s' where "fail_attempts now sr1 as s1 = (Inr sr', s')" "settles s1 s'"
      "h_workflows s' = h_workflows s1" "map sa_run (sr_attempts sr') = map sa_run (sr_attempts sr1 @ as)"
      "\<forall>x\<in>set as. run_done s' (sa_run x)" by blast
    then show ?thesis using step s1 settles_trans[OF s1(1)] by (auto simp: settles_def s1_def)
  qed
qed

lemma fail_steps_spec:
  assumes "fresh_hub s"
  shows "\<exists>srs' s'. fail_steps now srs s = (Inr srs', s') \<and> settles s s' \<and> h_workflows s' = h_workflows s
    \<and> map sa_run (concat (map sr_attempts srs')) = map sa_run (concat (map sr_attempts srs))
    \<and> (\<forall>i\<in>set (map sa_run (concat (map sr_attempts srs))). run_done s' i)"
  using assms
proof (induction srs arbitrary: s)
  case Nil
  then show ?case by (simp add: sret_def settles_refl)
next
  case (Cons sr srs)
  obtain sr' s1 where s1: "fail_attempts now (sr\<lparr>sr_attempts := []\<rparr>) (sr_attempts sr) s = (Inr sr', s1)" "settles s s1"
    "h_workflows s1 = h_workflows s" "map sa_run (sr_attempts sr') = map sa_run (sr_attempts sr)"
    "\<forall>a\<in>set (sr_attempts sr). run_done s1 (sa_run a)"
    using fail_attempts_spec[OF Cons.prems, of now "sr\<lparr>sr_attempts := []\<rparr>" "sr_attempts sr"] by auto
  have "fresh_hub s1" using s1(2) by (simp add: settles_def)
  from Cons.IH[OF this] obtain srs' s2 where s2: "fail_steps now srs s1 = (Inr srs', s2)" "settles s1 s2"
    "h_workflows s2 = h_workflows s1" "map sa_run (concat (map sr_attempts srs')) = map sa_run (concat (map sr_attempts srs))"
    "\<forall>i\<in>set (map sa_run (concat (map sr_attempts srs))). run_done s2 i" by blast
  have "fail_steps now (sr # srs) s = (Inr (sr' # srs'), s2)" using s1(1) s2(1) by (simp add: sbind_def sret_def)
  moreover have "\<forall>a\<in>set (sr_attempts sr). run_done s2 (sa_run a)" using s1(5) s2(2) by (simp add: settles_def)
  moreover have "map sa_run (concat (map sr_attempts (sr' # srs'))) = map sa_run (concat (map sr_attempts (sr # srs)))"
    using s1(4) s2(4) by simp
  moreover have "\<forall>i\<in>set (map sa_run (concat (map sr_attempts (sr # srs)))). run_done s2 i"
    using calculation(2) s2(5) by auto
  ultimately show ?case using s1(3) s2(3) settles_trans[OF s1(2) s2(2)] by metis
qed

definition restart_owed :: "workflow_record \<Rightarrow> bool" where
  "restart_owed r \<longleftrightarrow> wr_state r = Wf_Running \<and> wr_cancel_requested_at r = None"

lemma recover_one_interrupted:
  assumes "fresh_hub s" and "restart_owed r"
  obtains srs s1 r' s2 where "fail_steps t (wr_steps r) s = (Inr srs, s1)" and "wf_transition_to Wf_Failed t (r\<lparr>wr_steps := srs\<rparr>) = Inr r'"
    and "s2 = s1\<lparr>h_workflows := workflows_put (r'\<lparr>wr_failure := Some INTERRUPTED\<rparr>) (h_workflows s1)\<rparr>"
    and "settles s s2" and "recovered s2 r Wf_Failed"
    and "\<forall>w. w \<noteq> wr_id r \<longrightarrow> workflows_get (h_workflows s2) w = workflows_get (h_workflows s) w"
proof -
  obtain srs s1 where s1: "fail_steps t (wr_steps r) s = (Inr srs, s1)" "settles s s1" "h_workflows s1 = h_workflows s"
    "map sa_run (concat (map sr_attempts srs)) = map sa_run (concat (map sr_attempts (wr_steps r)))"
    "\<forall>i\<in>set (map sa_run (concat (map sr_attempts (wr_steps r)))). run_done s1 i"
    using fail_steps_spec[OF assms(1), of t "wr_steps r"] by blast
  obtain r' where r': "wf_transition_to Wf_Failed t (r\<lparr>wr_steps := srs\<rparr>) = Inr r'"
    using assms(2) by (simp add: restart_owed_def wf_transition_to_def)
  let ?r = "r'\<lparr>wr_failure := Some INTERRUPTED\<rparr>"
  have f1: "fresh_hub s1" using s1(2) by (simp add: settles_def)
  have r: "wr_id ?r = wr_id r" "wr_state ?r = Wf_Failed" "attempts_of ?r = concat (map sr_attempts srs)"
    using r' by (auto simp: wf_transition_Inr attempts_of_def)
  have "\<forall>a\<in>set (attempts_of ?r). run_done s1 (sa_run a)"
    using s1(4,5) r(3) by (metis (no_types, lifting) imageI set_map)
  moreover have "map sa_run (attempts_of ?r) = map sa_run (attempts_of r)" using s1(4) r(3) by (simp add: attempts_of_def)
  ultimately have "recovered (s1\<lparr>h_workflows := workflows_put ?r (h_workflows s1)\<rparr>) r Wf_Failed"
    using recovered_put[OF f1 r(1)] r(2) by metis
  then show thesis
    using that[OF s1(1) r' refl] settles_trans[OF s1(2) put_workflow_settles[OF f1]] r(1) s1(3) by (simp add: workflows_get_put)
qed

text \<open>What both passes over the workflows have in common: they end the workflows they owe an end, one by one.\<close>

locale recovery_pass =
  fixes pass :: "workflow_record list \<Rightarrow> (hub, nat) action" and owed :: "workflow_record \<Rightarrow> bool" and st :: workflow_state
  assumes pass_Nil: "pass [] s = (Inr 0, s)"
    and pass_skip: "\<not> owed r \<Longrightarrow> pass (r # rs) s = pass rs s"
    and pass_end: "fresh_hub s \<Longrightarrow> owed r \<Longrightarrow> \<exists>s'. settles s s' \<and> recovered s' r st
      \<and> (\<forall>w. w \<noteq> wr_id r \<longrightarrow> workflows_get (h_workflows s') w = workflows_get (h_workflows s) w)
      \<and> (\<forall>rs n s''. pass rs s' = (Inr n, s'') \<longrightarrow> pass (r # rs) s = (Inr (Suc n), s''))"
begin

lemma pass_all:
  assumes "fresh_hub s" and "distinct (map wr_id rs)"
  shows "\<exists>n s'. pass rs s = (Inr n, s') \<and> settles s s' \<and> (\<forall>r\<in>set rs. owed r \<longrightarrow> recovered s' r st)
    \<and> (\<forall>w. w \<notin> wr_id ` {r \<in> set rs. owed r} \<longrightarrow> workflows_get (h_workflows s') w = workflows_get (h_workflows s) w)"
  using assms
proof (induction rs arbitrary: s)
  case Nil
  then show ?case by (simp add: pass_Nil settles_refl)
next
  case (Cons r rs)
  show ?case
  proof (cases "owed r")
    case False
    then have "{q \<in> set (r # rs). owed q} = {q \<in> set rs. owed q}" by auto
    with Cons.IH[OF Cons.prems(1)] Cons.prems(2) False show ?thesis by (simp add: pass_skip)
  next
    case True
    from pass_end[OF Cons.prems(1) True] obtain s1 where s1: "settles s s1" "recovered s1 r st"
      "\<And>w. w \<noteq> wr_id r \<Longrightarrow> workflows_get (h_workflows s1) w = workflows_get (h_workflows s) w"
      "\<And>rs n s''. pass rs s1 = (Inr n, s'') \<Longrightarrow> pass (r # rs) s = (Inr (Suc n), s'')" by blast
    have f1: "fresh_hub s1" using s1(1) by (simp add: settles_def)
    have dist: "distinct (map wr_id rs)" "wr_id r \<notin> wr_id ` set rs" using Cons.prems(2) by auto
    obtain n s2 where s2: "pass rs s1 = (Inr n, s2)" "settles s1 s2" "\<And>q. q \<in> set rs \<Longrightarrow> owed q \<Longrightarrow> recovered s2 q st"
      "\<And>w. w \<notin> wr_id ` {q \<in> set rs. owed q} \<Longrightarrow> workflows_get (h_workflows s2) w = workflows_get (h_workflows s1) w"
      using Cons.IH[OF f1 dist(1)] by blast
    have "wr_id r \<notin> wr_id ` {q \<in> set rs. owed q}" using dist(2) by auto
    then have r: "recovered s2 r st" using recovered_later[OF s1(2) s2(2)] s2(4) by blast
    have frame: "workflows_get (h_workflows s2) w = workflows_get (h_workflows s) w" if "w \<notin> wr_id ` {q \<in> set (r # rs). owed q}" for w
    proof -
      have "w \<noteq> wr_id r" "w \<notin> wr_id ` {q \<in> set rs. owed q}" using that True by auto
      then show ?thesis using s1(3) s2(4) by simp
    qed
    show ?thesis
    proof (intro exI conjI ballI allI impI)
      show "pass (r # rs) s = (Inr (Suc n), s2)" using s1(4) s2(1) by blast
      show "settles s s2" using settles_trans[OF s1(1) s2(2)] .
      show "recovered s2 q st" if "q \<in> set (r # rs)" "owed q" for q using that r s2(3) by auto
    qed (rule frame)
  qed
qed

end

interpretation cancellations: recovery_pass "recover_cancellations clock readings" cancel_owed Wf_Cancelled for clock readings
proof
  fix s r assume f: "fresh_hub s" and o: "cancel_owed r"
  obtain s1 r' s2 where s1: "cancel_runs clock (nonterminal_attempt_runs s r) s = (Inr 0, s1)"
    and s2: "finish_workflow_cancelled (readings (wr_id r)) (readings (wr_id r)) r (plain ''workflow cancellation recovered after restart'') s1 = (Inr r', s2)"
      "settles s s2" "recovered s2 r Wf_Cancelled" "\<forall>w. w \<noteq> wr_id r \<longrightarrow> workflows_get (h_workflows s2) w = workflows_get (h_workflows s) w"
    using recover_one_cancellation[OF f o] by blast
  have "recover_cancellations clock readings (r # rs) s = (Inr (Suc n), s'')" if "recover_cancellations clock readings rs s2 = (Inr n, s'')" for rs n s''
    using o s1 s2(1) that by (auto simp: cancel_owed_def sbind_def sret_def)
  then show "\<exists>s'. settles s s' \<and> recovered s' r Wf_Cancelled
      \<and> (\<forall>w. w \<noteq> wr_id r \<longrightarrow> workflows_get (h_workflows s') w = workflows_get (h_workflows s) w)
      \<and> (\<forall>rs n s''. recover_cancellations clock readings rs s' = (Inr n, s'') \<longrightarrow> recover_cancellations clock readings (r # rs) s = (Inr (Suc n), s''))"
    using s2 by blast
qed (auto simp: sret_def cancel_owed_def)

interpretation interrupted: recovery_pass "recover_interrupted readings" restart_owed Wf_Failed for readings
proof
  fix s r assume f: "fresh_hub s" and o: "restart_owed r"
  obtain srs s1 r' s2 where s1: "fail_steps (readings (wr_id r)) (wr_steps r) s = (Inr srs, s1)"
    "wf_transition_to Wf_Failed (readings (wr_id r)) (r\<lparr>wr_steps := srs\<rparr>) = Inr r'"
    "s2 = s1\<lparr>h_workflows := workflows_put (r'\<lparr>wr_failure := Some INTERRUPTED\<rparr>) (h_workflows s1)\<rparr>"
    and s2: "settles s s2" "recovered s2 r Wf_Failed" "\<forall>w. w \<noteq> wr_id r \<longrightarrow> workflows_get (h_workflows s2) w = workflows_get (h_workflows s) w"
    using recover_one_interrupted[OF f o] by blast
  have "recover_interrupted readings (r # rs) s = (Inr (Suc n), s'')" if "recover_interrupted readings rs s2 = (Inr n, s'')" for rs n s''
    using o s1 that by (simp add: restart_owed_def sbind_def sret_def slift_def put_workflow_def)
  then show "\<exists>s'. settles s s' \<and> recovered s' r Wf_Failed
      \<and> (\<forall>w. w \<noteq> wr_id r \<longrightarrow> workflows_get (h_workflows s') w = workflows_get (h_workflows s) w)
      \<and> (\<forall>rs n s''. recover_interrupted readings rs s' = (Inr n, s'') \<longrightarrow> recover_interrupted readings (r # rs) s = (Inr (Suc n), s''))"
    using s2 by blast
qed (auto simp: sret_def restart_owed_def)

lemma workflows_list_set: "keyed wr_id ws \<Longrightarrow> r \<in> set (workflows_list ws) \<longleftrightarrow> workflows_get ws (wr_id r) = Some r"
  using values_get[OF keyed_wf, of wr_id ws] by (auto simp: workflows_list_def workflows_get_def dest: keyed_get)

lemma workflows_list_distinct:
  assumes "keyed wr_id ws"
  shows "distinct (map wr_id (workflows_list ws))"
proof -
  have "distinct (map wr_id (bt_values ws))" unfolding values_keys[OF assms] by (rule bt_wf_distinct[OF keyed_wf[OF assms]])
  then show ?thesis unfolding workflows_list_def distinct_map[of wr_id] set_sort distinct_sort .
qed

text \<open>What a restart makes of a workflow record.\<close>

definition restarted :: "hub \<Rightarrow> workflow_record \<Rightarrow> bool" where
  "restarted s r \<longleftrightarrow> (if cancel_owed r then recovered s r Wf_Cancelled
     else if restart_owed r then recovered s r Wf_Failed
     else workflows_get (h_workflows s) (wr_id r) = Some r)"

subsection \<open>Examples\<close>

definition flow_step :: step where
  "flow_step = \<lparr>step_key = ''a'', step_component = UuidId 1, step_capability = CapabilityName ''a.b'', step_parameters = rspec_parameters example_run_spec,
     step_inputs = [], step_timeout_ms = 10, step_after = [], step_retry = None\<rparr>"

definition flow_workflow :: "128 word \<Rightarrow> workflow_record" where
  "flow_workflow n = \<lparr>wr_id = UuidId n, wr_spec = \<lparr>ws_schema_version = 1, ws_name = ''w'', ws_max_concurrency = 1, ws_steps = [flow_step]\<rparr>,
     wr_admission = None, wr_state = Wf_Created, wr_model_version = Version ''1.0.0'', wr_created_at = 4, wr_started_at = None, wr_finished_at = None,
     wr_cancel_requested_at = None, wr_steps = [], wr_failure = None\<rparr>"

definition example_attempt :: step_attempt where
  "example_attempt = \<lparr>sa_id = UuidId 40, sa_number = 1, sa_run = UuidId 7, sa_state = Run_Queued, sa_started_at = None, sa_finished_at = None,
     sa_failure_category = None, sa_failure = None\<rparr>"

text \<open>A running workflow with the queued run of the example hub, and one that was asked to stop.\<close>

definition running_workflow :: workflow_record where
  "running_workflow = record_attempt ''a'' example_attempt ((flow_workflow 30)\<lparr>wr_state := Wf_Running\<rparr>)"

definition stopping_workflow :: workflow_record where
  "stopping_workflow = (flow_workflow 31)\<lparr>wr_cancel_requested_at := Some 6\<rparr>"

definition interrupted_hub :: hub where
  "interrupted_hub = example_hub\<lparr>h_workflows := workflows_put running_workflow (workflows_put stopping_workflow [])\<rparr>"

lemma interrupted_hub_fresh: "fresh_hub interrupted_hub"
proof -
  have "h_active_cancels example_hub = []" by code_simp
  moreover have "keyed run_id (h_runs example_hub)" using example_hub_wf by (simp add: hub_wf_def)
  ultimately show ?thesis
    using memory_workflows.put_inv[OF memory_workflows.put_inv[OF keyed_Nil]] by (simp add: fresh_hub_def interrupted_hub_def)
qed

section \<open>Properties\<close>



end
