(* ===== verification/Hub_Attempts.thy ===== *)
theory Hub_Attempts
  imports Hub_Flow
begin

text \<open>
  The worker of a step (\<open>execute_parallel_step\<close> of \<open>src/crates/hub-core/src/orchestrator.rs\<close>, modelled in
  \<open>Hub_Flow\<close>): it ends within the attempts of the retry policy, numbers and retries them as the
  policy says, and publishes the outputs of the run that succeeded under the fence of its attempt.
\<close>

section \<open>Specifications\<close>

definition step_attempts :: "string \<Rightarrow> workflow_record \<Rightarrow> step_attempt list" where
  "step_attempts key r = (case find (\<lambda>sr. sr_key sr = key) (wr_steps r) of Some sr \<Rightarrow> sr_attempts sr | None \<Rightarrow> [])"

text \<open>
  The worker's part of the flow: the attempts of its step and its publication entry, in a well-formed
  hub. Other threads leave it alone, and never change a run that is done.
\<close>

definition at_step :: "workflow_id \<Rightarrow> string \<Rightarrow> step_attempt list \<Rightarrow> fence_entry option \<Rightarrow> flow \<Rightarrow> bool" where
  "at_step w key as e f \<longleftrightarrow> hub_wf (fl_hub f) \<and> step_attempts key (fl_record f) = as \<and> bt_get (h_fences (fl_hub f)) (w, key) = e"

definition stays_done :: "hub \<Rightarrow> hub \<Rightarrow> bool" where
  "stays_done s s' \<longleftrightarrow> (\<forall>i r. runs_get (h_runs s) i = Some r \<longrightarrow> run_is_terminal (run_state_of r) \<longrightarrow> runs_get (h_runs s') i = Some r)"

definition neighbourly :: "workflow_id \<Rightarrow> string \<Rightarrow> (flow \<Rightarrow> flow) \<Rightarrow> bool" where
  "neighbourly w key p \<longleftrightarrow> (\<forall>as e f. at_step w key as e f \<longrightarrow> at_step w key as e (p f) \<and> stays_done (fl_hub f) (fl_hub (p f)))"

definition neighbourly_io :: "workflow_id \<Rightarrow> string \<Rightarrow> attempt_io \<Rightarrow> bool" where
  "neighbourly_io w key aio \<longleftrightarrow> neighbourly w key (ai_before aio) \<and> neighbourly w key (ai_registered aio)
     \<and> neighbourly w key (ai_during aio) \<and> (\<forall>p\<in>set (ai_polls aio). neighbourly w key p)"

text \<open>The attempts allowed by the policy of a step, and attempts made as the policy says, from number \<open>n\<close> on.\<close>

definition max_attempts :: "step \<Rightarrow> nat" where
  "max_attempts st = (case step_retry st of Some p \<Rightarrow> max 1 (unat (rp_max_attempts p)) | None \<Rightarrow> 1)"

fun retried :: "step \<Rightarrow> u32 \<Rightarrow> step_attempt list \<Rightarrow> bool" where
  "retried st n [] \<longleftrightarrow> True"
| "retried st n [a] \<longleftrightarrow> sa_number a = n"
| "retried st n (a # as) \<longleftrightarrow> sa_number a = n \<and> (\<exists>c. sa_failure_category a = Some c \<and> retry_again st n c) \<and> retried st (n + 1) as"

text \<open>The step has published, under the fence of this attempt, the outputs of its run, by their labels.\<close>

definition published :: "workflow_id \<Rightarrow> string \<Rightarrow> step_attempt \<Rightarrow> flow \<Rightarrow> bool" where
  "published w key a f \<longleftrightarrow> (\<exists>r o' p. runs_get (h_runs (fl_hub f)) (sa_run a) = Some r \<and> run_state_of r = Run_Succeeded \<and> run_outcome_of r = Some o'
     \<and> authoritative_publication (h_fences (fl_hub f)) w key = Inr (Some p) \<and> pf_attempt (sp_fence p) = sa_id a
     \<and> distinct (map oref_name (ro_outputs o')) \<and> map_of (sp_outputs p) = map_of (map (\<lambda>out. (oref_name out, oref_artifact out)) (ro_outputs o')))"

section \<open>Facts\<close>

subsection \<open>Records of attempts\<close>

lemma find_update_first:
  assumes "\<And>x. P x \<Longrightarrow> P (g x)"
  shows "find P (update_first P g xs) = map_option g (find P xs)"
proof (induction xs)
  case (Cons x xs)
  show ?case using Cons assms[of x] by (cases "P x") simp_all
qed simp

lemma update_first_last: "\<forall>x\<in>set xs. \<not> P x \<Longrightarrow> P y \<Longrightarrow> update_first P g (xs @ [y]) = xs @ [g y]"
  by (induction xs) auto

lemma find_NoneD: "find P xs = None \<Longrightarrow> x \<in> set xs \<Longrightarrow> \<not> P x"
  by (simp add: find_None_iff)

lemma find_unique:
  assumes "y \<in> set xs" and "P y" and "\<And>x. x \<in> set xs \<Longrightarrow> P x \<Longrightarrow> x = y"
  shows "find P xs = Some y"
proof (cases "find P xs")
  case None
  then show ?thesis using find_NoneD[OF None assms(1)] assms(2) by simp
next
  case (Some z)
  then have "z \<in> set xs" "P z" by (auto simp: find_Some_iff)
  then show ?thesis using Some assms(3)[of z] by simp
qed

lemma step_attempts_record: "step_attempts key (record_attempt key a r) = step_attempts key r @ [a]"
proof (cases "find (\<lambda>sr. sr_key sr = key) (wr_steps r)")
  case None
  let ?new = "\<lparr>sr_key = key, sr_run = sa_run a, sr_state = sa_state a, sr_failure = sa_failure a, sr_attempts = [a]\<rparr>"
  have "find (\<lambda>sr. sr_key sr = key) (sort_key sr_key (wr_steps r @ [?new])) = Some ?new"
    by (rule find_unique) (auto dest: find_NoneD[OF None])
  then show ?thesis using None by (simp add: step_attempts_def record_attempt_def)
next
  case (Some sr)
  then show ?thesis by (simp add: step_attempts_def record_attempt_def find_update_first)
qed

definition finished_attempt :: "run_record option \<Rightarrow> attempt_failure_category option \<Rightarrow> message option \<Rightarrow> step_attempt \<Rightarrow> step_attempt" where
  "finished_attempt run category failure a =
     a\<lparr>sa_state := (case run of Some x \<Rightarrow> run_state_of x | None \<Rightarrow> Run_Failed), sa_started_at := Option.bind run run_started_at,
       sa_finished_at := Option.bind run run_finished_at, sa_failure_category := category, sa_failure := failure\<rparr>"

lemma step_attempts_finish:
  assumes "step_attempts key r = old @ [a]" and "sa_run a = i" and "\<forall>b\<in>set old. sa_run b \<noteq> i"
  shows "step_attempts key (finish_recorded_attempt key i run category failure r) = old @ [finished_attempt run category failure a]"
proof -
  obtain sr where sr: "find (\<lambda>sr. sr_key sr = key) (wr_steps r) = Some sr" "sr_attempts sr = old @ [a]"
    using assms(1) by (auto simp: step_attempts_def split: option.splits)
  have "update_first (\<lambda>a. sa_run a = i) (finished_attempt run category failure) (old @ [a]) = old @ [finished_attempt run category failure a]"
    using assms(2,3) by (intro update_first_last) auto
  then show ?thesis
    using sr by (simp add: step_attempts_def finish_recorded_attempt_def find_update_first Let_def finished_attempt_def[abs_def])
qed

subsection \<open>The worker's part of the flow\<close>

lemma stays_done_refl: "stays_done s s"
  by (simp add: stays_done_def)

lemma collect_outputs_Inr:
  "collect_outputs key outputs outs = Inr outputs' \<Longrightarrow> distinct (map oref_name outs) \<and> (\<forall>out\<in>set outs. bt_get outputs (oref_name out) = None)
     \<and> map_of outputs' = map_of outputs ++ map_of (map (\<lambda>out. (oref_name out, oref_artifact out)) outs)"
proof (induction outs arbitrary: outputs)
  case (Cons out outs)
  then have free: "bt_get outputs (oref_name out) = None"
    and rec: "collect_outputs key (bt_insert (oref_name out) (oref_artifact out) outputs) outs = Inr outputs'"
    by (auto split: if_splits)
  note IH = Cons.IH[OF rec]
  have new: "oref_name x \<noteq> oref_name out" "bt_get outputs (oref_name x) = None" if "x \<in> set outs" for x
    using IH that by (auto split: if_splits)
  have "map_of outputs' = (map_of outputs)(oref_name out \<mapsto> oref_artifact out) ++ map_of (map (\<lambda>out. (oref_name out, oref_artifact out)) outs)"
    using IH by (simp add: fun_upd_def fun_eq_iff map_add_def)
  moreover have "oref_name out \<notin> dom (map_of (map (\<lambda>out. (oref_name out, oref_artifact out)) outs))"
    unfolding dom_map_of_conv_image_fst using new(1) by fastforce
  ultimately have upd: "map_of outputs' = (map_of outputs ++ map_of (map (\<lambda>out. (oref_name out, oref_artifact out)) outs))(oref_name out \<mapsto> oref_artifact out)"
    by (metis map_add_upd_left)
  have "oref_name out \<notin> oref_name ` set outs" using new(1) by (metis imageE)
  moreover have "\<forall>x\<in>set outs. bt_get outputs (oref_name x) = None" using new(2) by blast
  ultimately show ?case unfolding upd using conjunct1[OF IH] free by (simp add: fun_eq_iff map_add_def)
qed simp

lemma at_step_hub:
  assumes "at_step w key as e f" and "hub_wf h" and "h_fences h = h_fences (fl_hub f)"
  shows "at_step w key as e (f\<lparr>fl_hub := h\<rparr>)"
  using assms by (simp add: at_step_def)

lemma at_step_submit:
  assumes "at_step w key as e f" and "on_hub (submit_run_internal env fresh now spec origin pin) f = (q, f')"
  shows "at_step w key as e f'"
proof -
  obtain h where h: "submit_run_internal env fresh now spec origin pin (fl_hub f) = (q, h)" "f' = f\<lparr>fl_hub := h\<rparr>"
    using assms(2) by (auto simp: on_hub_def split: prod.splits)
  have "h_fences h = h_fences (fl_hub f)" using h(1) by (cases q) (auto simp: submit_Inr dest: submit_Inl)
  then show ?thesis using assms(1) h hub_wf_submit by (auto simp: at_step_def)
qed

lemma cancel_run_effect:
  assumes "cancel_run now i s = (q, s')"
  obtains "s' = s" | "s' = s\<lparr>h_active_cancels := bt_insert i True (h_active_cancels s)\<rparr>"
    | r r' where "runs_get (h_runs s) i = Some r" "run_transition_to Run_Cancelled now r = Inr r'" "s' = s\<lparr>h_runs := runs_put r' (h_runs s)\<rparr>"
proof (cases "bt_get (h_active_cancels s) i = None \<and> runs_get (h_runs s) i \<noteq> None")
  case False
  have "s' = s \<or> s' = s\<lparr>h_active_cancels := bt_insert i True (h_active_cancels s)\<rparr>"
    using assms False by (simp add: cancel_run_def split: if_splits)
  then show thesis using that(1,2) by blast
next
  case True
  then obtain r where r: "runs_get (h_runs s) i = Some r" by blast
  have "s' = s \<or> (\<exists>r'. run_transition_to Run_Cancelled now r = Inr r' \<and> s' = s\<lparr>h_runs := runs_put r' (h_runs s)\<rparr>)"
    using assms True r by (cases "run_transition_to Run_Cancelled now r")
      (simp_all add: cancel_run_def sbind_def slift_def put_run_def sret_def split: if_splits)
  then show thesis using that(1,3) r by blast
qed

lemma hub_wf_cancel_run:
  assumes "hub_wf s" and "cancel_run now i s = (q, s')"
  shows "hub_wf s' \<and> h_fences s' = h_fences s"
proof -
  consider "s' = s" | "s' = s\<lparr>h_active_cancels := bt_insert i True (h_active_cancels s)\<rparr>"
    | r r' where "runs_get (h_runs s) i = Some r" "run_transition_to Run_Cancelled now r = Inr r'" "s' = s\<lparr>h_runs := runs_put r' (h_runs s)\<rparr>"
    by (rule cancel_run_effect[OF assms(2)])
  then show ?thesis
  proof cases
    case (3 r r')
    then show ?thesis using hub_wf_put_run[OF assms(1) run_wf_transition[OF _ 3(2)]] hub_wf_run[OF assms(1) 3(1)] by simp
  qed (use assms(1) in \<open>simp_all add: hub_wf_def\<close>)
qed

lemma at_step_executed:
  assumes "at_step w key as e f" and "execute_run env io i (fl_hub f) = (q, h)"
  shows "at_step w key as e (f\<lparr>fl_hub := unregister_active_workflow_run w' i h\<rparr>)"
    and "q = Inr r \<Longrightarrow> runs_get (h_runs (unregister_active_workflow_run w' i h)) i = Some r"
proof -
  have unreg: "h_fences (unregister_active_workflow_run w' i h) = h_fences h" "h_runs (unregister_active_workflow_run w' i h) = h_runs h"
    "hub_wf (unregister_active_workflow_run w' i h) = hub_wf h"
    by (auto simp: unregister_active_workflow_run_def hub_wf_def Let_def split: option.splits)
  have wf: "hub_wf (fl_hub f)" using assms(1) by (simp add: at_step_def)
  from execute_run_frame[OF wf assms(2)] have "hub_wf h" "h_fences h = h_fences (fl_hub f)" by (auto simp: only_run_def)
  then show "at_step w key as e (f\<lparr>fl_hub := unregister_active_workflow_run w' i h\<rparr>)" using unreg at_step_hub[OF assms(1)] by simp
  show "runs_get (h_runs (unregister_active_workflow_run w' i h)) i = Some r" if "q = Inr r"
    using execute_run_record(1)[OF wf] assms(2) that unreg by simp
qed

lemma at_step_update:
  assumes "at_step w key as e f" and "update_shared g f = (q, f')"
  shows "q = Inr () \<and> at_step w key (step_attempts key (g (fl_record f))) e f' \<and> h_runs (fl_hub f') = h_runs (fl_hub f)"
  using assms by (auto simp: update_shared_def on_hub_def put_workflow_def at_step_def hub_wf_def)

lemma poll_backoff_keeps:
  "\<lbrakk>at_step w key as e f; \<forall>p\<in>set ps. neighbourly w key p; poll_backoff w ps f = (b, f')\<rbrakk> \<Longrightarrow> at_step w key as e f'"
proof (induction w ps f rule: poll_backoff.induct)
  case (2 w p ps f)
  then have "at_step w key as e (p f)" by (simp add: neighbourly_def)
  then show ?case using 2 by (auto simp: Let_def split: if_splits)
qed simp

lemma wait_retry_keeps:
  "\<lbrakk>at_step w key as e f; \<forall>p\<in>set ps. neighbourly w key p; wait_retry_backoff w ps ms f = (b, f')\<rbrakk> \<Longrightarrow> at_step w key as e f'"
  by (auto simp: wait_retry_backoff_def split: if_splits intro: poll_backoff_keeps)

lemma classify_failed: "run_state_of r \<noteq> Run_Succeeded \<Longrightarrow> classify_attempt_failure r \<noteq> None"
  by (simp add: classify_attempt_failure_def split: option.splits)

text \<open>The fence an attempt was given, still current and without a publication.\<close>

definition holds_fence :: "workflow_id \<Rightarrow> string \<Rightarrow> attempt_id \<Rightarrow> publication_fence \<Rightarrow> bool" where
  "holds_fence w key a fence \<longleftrightarrow> is_slug key \<and> pf_workflow fence = w \<and> pf_step_key fence = key \<and> pf_attempt fence = a"

lemma publish_outputs_Inl: "publish_outputs p s = (Inl e, s') \<Longrightarrow> s' = s"
  by (cases "publish_authoritative_outputs (h_fences s) p") (auto simp: publish_outputs_def split: prod.splits)

lemma publish_run_effect:
  assumes "holds_fence w key (sa_id a) fence" and "at_step w key as (Some \<lparr>fe_fence = fence, fe_publication = None\<rparr>) f"
    and "runs_get (h_runs (fl_hub f)) (sa_run a) = Some r" and "run_state_of r = Run_Succeeded"
    and "on_hub (publish_run key fence r) f = (q, f')"
  shows "(\<exists>e. at_step w key as e f') \<and> (\<forall>x. q = Inr x \<longrightarrow> published w key a f')"
proof (cases q)
  case (Inl x)
  then have "f' = f" using assms(5)
    by (auto simp: on_hub_def publish_run_def sbind_Inl_iff action_simps split: prod.splits dest!: publish_outputs_Inl)
  then show ?thesis using assms(2) Inl by blast
next
  case (Inr x)
  then obtain o' outputs h where o': "run_outcome_of r = Some o'" and outs: "collect_outputs key [] (ro_outputs o') = Inr outputs"
    and pub: "publish_outputs \<lparr>sp_fence = fence, sp_outputs = outputs\<rparr> (fl_hub f) = (Inr x, h)" and f': "f' = f\<lparr>fl_hub := h\<rparr>"
    using assms(5) by (auto simp: on_hub_def publish_run_def action_simps ok_or_def split: prod.splits option.splits)
  have "h = (fl_hub f)\<lparr>h_fences := bt_insert (w, key) \<lparr>fe_fence = fence, fe_publication = Some \<lparr>sp_fence = fence, sp_outputs = outputs\<rparr>\<rparr>
      (h_fences (fl_hub f))\<rparr>"
    using pub assms(1,2) by (auto simp: publish_outputs_def holds_fence_def at_step_def publish_Inr split: sum.splits)
  then show ?thesis
    using assms(1-4) o' collect_outputs_Inr[OF outs] f'
    by (auto simp: at_step_def published_def authoritative_get holds_fence_def hub_wf_def)
qed

subsection \<open>One attempt\<close>

definition attempt_made :: "workflow_id \<Rightarrow> step \<Rightarrow> u32 \<Rightarrow> run_id \<Rightarrow> step_attempt list \<Rightarrow> step_terminal option res \<Rightarrow> flow \<Rightarrow> bool" where
  "attempt_made w st n i as q f \<longleftrightarrow> (\<exists>a e. at_step w (step_key st) (as @ [a]) e f \<and> sa_number a = n \<and> sa_run a = i
     \<and> (q = Inr None \<longrightarrow> (\<exists>c. sa_failure_category a = Some c \<and> retry_again st n c))
     \<and> (q = Inr (Some StepSucceeded) \<longrightarrow> published w (step_key st) a f))"

lemma after_run_effect:
  assumes "at_step w (step_key st) (as @ [a]) (Some \<lparr>fe_fence = fence, fe_publication = None\<rparr>) f"
    and "sa_number a = n" and "sa_run a = i" and "\<forall>b\<in>set as. sa_run b \<noteq> i" and "holds_fence w (step_key st) (sa_id a) fence"
    and "\<forall>p\<in>set (ai_polls aio). neighbourly w (step_key st) p"
    and "run_state_of r = Run_Succeeded \<Longrightarrow> runs_get (h_runs (fl_hub f)) i = Some r" and "after_run w st aio n i fence r f = (q, f')"
  shows "attempt_made w st n i as q f'"
proof -
  let ?c = "classify_attempt_failure r" and ?x = "run_failure_text r"
  define a' where "a' = finished_attempt (Some r) ?c ?x a"
  have a': "sa_number a' = n" "sa_run a' = i" "sa_id a' = sa_id a" "sa_failure_category a' = ?c"
    using assms(2,3) by (simp_all add: a'_def finished_attempt_def)
  have old: "step_attempts (step_key st) (fl_record f) = as @ [a]" using assms(1) by (simp add: at_step_def)
  obtain f1 where u: "update_shared (finish_recorded_attempt (step_key st) i (Some r) ?c ?x) f = (Inr (), f1)"
    and f1: "at_step w (step_key st) (as @ [a']) (Some \<lparr>fe_fence = fence, fe_publication = None\<rparr>) f1" "h_runs (fl_hub f1) = h_runs (fl_hub f)"
    using at_step_update[OF assms(1) prod.collapse[symmetric]] step_attempts_finish[OF old assms(3,4)] unfolding a'_def by (metis prod.collapse)
  note q = assms(8)[symmetric, unfolded after_run_def Let_def sbind_def[of "update_shared g" for g] u prod.case sum.case]
  consider (stopped) "workflow_cancel_requested w (fl_hub f1) \<or> run_state_of r = Run_Cancelled"
    | (succeeded) "\<not> (workflow_cancel_requested w (fl_hub f1) \<or> run_state_of r = Run_Cancelled)" "run_state_of r = Run_Succeeded"
    | (failed) c where "\<not> (workflow_cancel_requested w (fl_hub f1) \<or> run_state_of r = Run_Cancelled)" "run_state_of r \<noteq> Run_Succeeded" "?c = Some c"
    using classify_failed by blast
  then show ?thesis
  proof cases
    case stopped
    then show ?thesis using q f1(1) a' by (auto simp: attempt_made_def)
  next
    case succeeded
    obtain q1 f2 where pub: "on_hub (publish_run (step_key st) fence r) f1 = (q1, f2)" by (rule prod.exhaust)
    have q': "q = map_sum id (\<lambda>_. Some StepSucceeded) q1" "f' = f2"
      using q succeeded pub by (auto simp: sbind_def sret_def split: sum.splits)
    from assms(5,7) f1 a' succeeded have "holds_fence w (step_key st) (sa_id a') fence" "runs_get (h_runs (fl_hub f1)) (sa_run a') = Some r" by simp_all
    from publish_run_effect[OF this(1) f1(1) this(2) succeeded(2) pub] show ?thesis
      using a' q' by (cases q1) (auto simp: attempt_made_def)
  next
    case failed
    obtain b f2 where w: "wait_retry_backoff w (ai_polls aio) (unwrap_or 0 (Option.bind (step_retry st) rp_backoff_ms)) f1 = (b, f2)" by (rule prod.exhaust)
    show ?thesis
    proof (cases "retry_again st n c")
      case True
      then have "(q, f') = (if b then Inr None else Inr (Some (StepCancelled (plain ''workflow cancellation requested during retry backoff''))), f2)"
        using q failed w by (cases b) (simp_all add: unwrap_or_def)
      then have "f' = f2" "q \<noteq> Inr (Some StepSucceeded)" by (simp_all split: if_splits)
      then show ?thesis using wait_retry_keeps[OF f1(1) assms(6) w] a' failed True by (auto simp: attempt_made_def)
    next
      case False
      then have "f' = f1" "q \<noteq> Inr (Some StepSucceeded)" "q \<noteq> Inr None" using q failed by (simp_all add: unwrap_or_def)
      then show ?thesis using f1(1) a' by (auto simp: attempt_made_def)
    qed
  qed
qed

lemma at_step_advance:
  assumes "at_step w key as e f" and "on_hub (advance_fence w key a) f = (q, f')"
  shows "(\<forall>x. q = Inl x \<longrightarrow> at_step w key as e f')
    \<and> (\<forall>fence. q = Inr fence \<longrightarrow> at_step w key as (Some \<lparr>fe_fence = fence, fe_publication = None\<rparr>) f' \<and> holds_fence w key a fence)"
proof (cases "advance_publication_fence (h_fences (fl_hub f)) w key a")
  case (Inl x)
  then show ?thesis using assms by (auto simp: on_hub_def advance_fence_def at_step_def)
next
  case (Inr y)
  obtain fence entries where y: "y = (fence, entries)" by (rule prod.exhaust)
  have "q = Inr fence" "f' = f\<lparr>fl_hub := (fl_hub f)\<lparr>h_fences := entries\<rparr>\<rparr>"
    using assms(2) Inr y by (auto simp: on_hub_def advance_fence_def)
  then show ?thesis using assms(1) Inr[unfolded y advance_Inr] by (auto simp: at_step_def holds_fence_def hub_wf_def)
qed

lemma at_step_stop:
  assumes "at_step w key as e f" and "(if b then on_hub (cancel_run now i) f else sret False f) = (q, f')"
  shows "at_step w key as e f'"
  using assms hub_wf_cancel_run[OF _ prod.collapse[symmetric], of "fl_hub f" now i]
  by (auto simp: on_hub_def at_step_def sret_def split: if_splits prod.splits)

lemma neighbourlyD:
  assumes "neighbourly_io w key aio" and "at_step w key as e f"
  shows "at_step w key as e (ai_before aio f)" and "at_step w key as e (ai_registered aio f)" and "at_step w key as e (ai_during aio f)"
    and "stays_done (fl_hub f) (fl_hub (ai_during aio f))"
  using assms unfolding neighbourly_io_def neighbourly_def by blast+

lemma run_submitted_effect:
  assumes "at_step w (step_key st) (as @ [a]) (Some \<lparr>fe_fence = fence, fe_publication = None\<rparr>) f" and "neighbourly_io w (step_key st) aio"
    and "sa_number a = n" and "sa_run a = i" and "\<forall>b\<in>set as. sa_run b \<noteq> i" and "holds_fence w (step_key st) (sa_id a) fence"
    and "run_submitted env w st aio n i fence f = (q, f')"
  shows "attempt_made w st n i as q f'"
proof -
  obtain ran h where ex: "execute_run env (ai_run aio) i (fl_hub f) = (ran, h)" by (rule prod.exhaust)
  define f1 where "f1 = f\<lparr>fl_hub := unregister_active_workflow_run w i h\<rparr>"
  note f1 = at_step_executed(1)[OF assms(1) ex, of w, folded f1_def]
  note f2 = neighbourlyD(3,4)[OF assms(2) f1]
  note q = assms(7)[unfolded run_submitted_def ex prod.case f1_def[symmetric] Let_def]
  show ?thesis
  proof (cases ran)
    case (Inl x)
    let ?g = "finish_recorded_attempt (step_key st) i (runs_get (h_runs (fl_hub (ai_during aio f1))) i) (Some Cat_ExecutionError) (Some (error_message x))"
    obtain f3 where u: "update_shared ?g (ai_during aio f1) = (Inr (), f3)"
      and f3: "at_step w (step_key st) (step_attempts (step_key st) (?g (fl_record (ai_during aio f1)))) (Some \<lparr>fe_fence = fence, fe_publication = None\<rparr>) f3"
      using at_step_update[OF f2(1) prod.collapse[symmetric]] by (metis prod.collapse)
    have "step_attempts (step_key st) (fl_record (ai_during aio f1)) = as @ [a]" using f2(1) by (simp add: at_step_def)
    from step_attempts_finish[OF this assms(4,5)] f3 q Inl u assms(3,4) show ?thesis
      by (auto simp: attempt_made_def sbind_def sfail_def finished_attempt_def)
  next
    case (Inr r)
    have "runs_get (h_runs (fl_hub (ai_during aio f1))) i = Some r" if "run_state_of r = Run_Succeeded"
      using at_step_executed(2)[OF assms(1) ex Inr, of w] f2(2) that by (simp add: stays_done_def f1_def)
    then show ?thesis
      using after_run_effect[OF f2(1) assms(3-6), of aio r] assms(2) q Inr by (simp add: neighbourly_io_def)
  qed
qed

lemma run_attempt_effect:
  assumes "at_step w (step_key st) as e f" and "neighbourly_io w (step_key st) aio" and "\<forall>b\<in>set as. sa_run b \<noteq> run_id r"
    and "run_attempt env w st aio n r f = (q, f')"
  shows "attempt_made w st n (run_id r) as q f'"
proof -
  let ?key = "step_key st" and ?i = "run_id r"
  define a where "a = new_attempt aio n r"
  have a: "sa_number a = n" "sa_run a = ?i" "sa_id a = ai_attempt aio" by (simp_all add: a_def new_attempt_def)
  obtain f1 where u: "update_shared (record_attempt ?key a) f = (Inr (), f1)" and f1: "at_step w ?key (as @ [a]) e f1"
    using at_step_update[OF assms(1) prod.collapse[symmetric], of "record_attempt ?key a"] assms(1)
    by (metis at_step_def prod.collapse step_attempts_record)
  obtain q2 f2 where adv: "on_hub (advance_fence w ?key (ai_attempt aio)) f1 = (q2, f2)" by (rule prod.exhaust)
  note f2 = at_step_advance[OF f1 adv]
  note run = assms(4)[unfolded run_attempt_def a_def[symmetric] sbind_def u prod.case sum.case adv interfere_def]
  show ?thesis
  proof (cases q2)
    case (Inl x)
    then have "at_step w ?key (as @ [a]) e f2" "q = Inl x" "f' = f2" using run f2 by simp_all
    then show ?thesis using a unfolding attempt_made_def by blast
  next
    case (Inr fence)
    define f3 where "f3 = ai_registered aio (f2\<lparr>fl_hub := register_active_workflow_run w ?i (fl_hub f2)\<rparr>)"
    have "at_step w ?key (as @ [a]) (Some \<lparr>fe_fence = fence, fe_publication = None\<rparr>) (f2\<lparr>fl_hub := register_active_workflow_run w ?i (fl_hub f2)\<rparr>)"
      using f2 Inr by (simp add: at_step_def register_active_workflow_run_def hub_wf_def)
    note f3 = neighbourlyD(2)[OF assms(2) this, folded f3_def]
    obtain q4 f4 where stop: "(if stop_requested w f3 then on_hub (cancel_run (ai_cancel_at aio) ?i) f3 else sret False f3) = (q4, f4)" by (rule prod.exhaust)
    note f4 = at_step_stop[OF f3 stop]
    note run' = run[unfolded Inr prod.case sum.case f3_def[symmetric] stop]
    show ?thesis
    proof (cases q4)
      case (Inl x)
      then have "q = Inl x" "f' = f4" using run' by simp_all
      then show ?thesis using a f4 unfolding attempt_made_def by blast
    next
      case _: (Inr y)
      then show ?thesis using run' run_submitted_effect[OF f4 assms(2) a(1,2) assms(3)] f2 \<open>q2 = Inr fence\<close> a(3) by simp
    qed
  qed
qed

lemma attempt_effect:
  assumes "at_step w (step_key st) as e f" and "neighbourly_io w (step_key st) aio" and "\<forall>b\<in>set as. sa_run b \<noteq> ai_run_id aio"
    and "execute_attempt env w st spec pin aio n f = (q, f')"
  shows "(\<exists>e. at_step w (step_key st) as e f') \<and> q \<notin> {Inr None, Inr (Some StepSucceeded)} \<or> attempt_made w st n (ai_run_id aio) as q f'"
proof -
  let ?key = "step_key st"
  define f0 where "f0 = ai_before aio f"
  have f0: "at_step w ?key as e f0" unfolding f0_def by (rule neighbourlyD(1)[OF assms(2,1)])
  show ?thesis
  proof (cases "stop_requested w f0")
    case True
    then have "f' = f0" "q \<notin> {Inr None, Inr (Some StepSucceeded)}"
      using assms(4) by (auto simp: execute_attempt_def sbind_def interfere_def f0_def)
    then show ?thesis using f0 by blast
  next
    case False
    obtain q1 f1 where sub: "on_hub (submit_run_internal env (ai_run_id aio) (ai_submitted_at aio) spec None pin) f0 = (q1, f1)" by (rule prod.exhaust)
    note f1 = at_step_submit[OF f0 sub]
    have q: "(q, f') = (case q1 of Inl x \<Rightarrow> (Inl x, f1) | Inr r \<Rightarrow> run_attempt env w st aio n r f1)"
      using assms(4) False sub by (auto simp: execute_attempt_def sbind_def interfere_def f0_def split: sum.splits)
    show ?thesis
    proof (cases q1)
      case (Inl x)
      then show ?thesis using q f1 by auto
    next
      case (Inr r)
      have "run_id r = ai_run_id aio" using sub Inr by (auto simp: on_hub_def submit_Inr queued_record_def split: prod.splits)
      then show ?thesis using run_attempt_effect[OF f1 assms(2), of r] assms(3) q Inr by auto
    qed
  qed
qed

subsection \<open>The attempt loop\<close>

lemma after_run_retries: "after_run w st aio n i fence r f = (Inr None, f') \<Longrightarrow> \<exists>c. retry_again st n c"
  by (auto simp: after_run_def Let_def action_simps split: if_splits)

lemma execute_attempt_retries:
  assumes "execute_attempt env w st spec pin aio n f = (Inr None, f')"
  shows "\<exists>c. retry_again st n c"
proof -
  obtain r f1 where "run_attempt env w st aio n r f1 = (Inr None, f')"
    using assms by (auto simp: execute_attempt_def sbind_Inr_iff interfere_def split: if_splits)
  then obtain i fence f2 where "run_submitted env w st aio n i fence f2 = (Inr None, f')"
    by (auto simp: run_attempt_def sbind_Inr_iff)
  then show ?thesis using after_run_retries
    by (auto simp: run_submitted_def Let_def action_simps split: prod.splits sum.splits)
qed

lemma retry_room:
  assumes "retry_again st n c"
  shows "unat n < max_attempts st" and "unat (n + 1) = Suc (unat n)"
proof -
  obtain p where p: "step_retry st = Some p" "n < rp_max_attempts p" using assms by (auto simp: retry_again_def split: option.splits)
  then show "unat n < max_attempts st" by (simp add: max_attempts_def word_less_nat_alt)
  have "unat n + 1 < 2 ^ 32" using p(2) unsigned_less[of "rp_max_attempts p", where ?'a = nat] by (simp add: word_less_nat_alt)
  then show "unat (n + 1) = Suc (unat n)" by (simp add: unat_add_lem[symmetric] unat_word_ariths)
qed

lemma attempt_loop_total:
  assumes "unat n \<le> max_attempts st" and "max_attempts st < unat n + fuel"
  shows "\<exists>q f'. attempt_loop fuel env w st spec pin aios n f = Some (q, f')"
  using assms
proof (induction fuel arbitrary: n f)
  case (Suc fuel)
  obtain q f1 where ex: "execute_attempt env w st spec pin (aios n) n f = (q, f1)" by (rule prod.exhaust)
  show ?case
  proof (cases "q = Inr None")
    case True
    with ex obtain c where "retry_again st n c" using execute_attempt_retries by blast
    note room = retry_room[OF this]
    then show ?thesis using Suc.IH[of "n + 1" f1] Suc.prems ex True by simp
  next
    case False
    then show ?thesis using ex by (auto split: sum.splits option.splits)
  qed
qed simp

lemma retried_Cons:
  "\<lbrakk>sa_number a = n; \<exists>c. sa_failure_category a = Some c \<and> retry_again st n c; retried st (n + 1) as\<rbrakk> \<Longrightarrow> retried st n (a # as)"
  by (cases "as") auto

text \<open>What a worker starts with: a well-formed hub, considerate other threads and run ids not used before.\<close>

definition worker_ready :: "workflow_id \<Rightarrow> step \<Rightarrow> (u32 \<Rightarrow> attempt_io) \<Rightarrow> flow \<Rightarrow> bool" where
  "worker_ready w st aios f \<longleftrightarrow> hub_wf (fl_hub f) \<and> (\<forall>n. neighbourly_io w (step_key st) (aios n)) \<and> inj (\<lambda>n. ai_run_id (aios n))
     \<and> (\<forall>a\<in>set (step_attempts (step_key st) (fl_record f)). \<forall>n. sa_run a \<noteq> ai_run_id (aios n))"

lemma attempt_loop_effect:
  assumes "\<forall>n. neighbourly_io w (step_key st) (aios n)" and "inj (\<lambda>n. ai_run_id (aios n))"
    and "at_step w (step_key st) as e f" and "\<forall>b\<in>set as. \<forall>m\<ge>n. sa_run b \<noteq> ai_run_id (aios m)" and "unat n \<le> max_attempts st"
    and "attempt_loop fuel env w st spec pin aios n f = Some (q, f')"
  shows "\<exists>new e. at_step w (step_key st) (as @ new) e f' \<and> retried st n new \<and> length new + unat n \<le> Suc (max_attempts st)
    \<and> (q = Inr StepSucceeded \<longrightarrow> new \<noteq> [] \<and> published w (step_key st) (last new) f')"
  using assms(3-6)
proof (induction fuel arbitrary: n f "as" e)
  case (Suc fuel)
  obtain q1 f1 where ex: "execute_attempt env w st spec pin (aios n) n f = (q1, f1)" by (rule prod.exhaust)
  have fresh: "\<forall>b\<in>set as. sa_run b \<noteq> ai_run_id (aios n)" using Suc.prems(2) by blast
  from attempt_effect[OF Suc.prems(1) assms(1)[rule_format] fresh ex] consider
    (stopped) d where "at_step w (step_key st) as d f1" "q1 \<notin> {Inr None, Inr (Some StepSucceeded)}" | (made) "attempt_made w st n (ai_run_id (aios n)) as q1 f1"
    by blast
  then show ?case
  proof cases
    case stopped
    then have "f' = f1" "q \<noteq> Inr StepSucceeded" using Suc.prems(4) ex by (auto split: sum.splits option.splits)
    then show ?thesis using stopped(1) Suc.prems(3) by (intro exI[of _ "[]"] exI[of _ d]) simp
  next
    case made
    then obtain a d where a: "at_step w (step_key st) (as @ [a]) d f1" "sa_number a = n" "sa_run a = ai_run_id (aios n)"
      "q1 = Inr None \<Longrightarrow> \<exists>c. sa_failure_category a = Some c \<and> retry_again st n c" "q1 = Inr (Some StepSucceeded) \<Longrightarrow> published w (step_key st) a f1"
      unfolding attempt_made_def by blast
    show ?thesis
    proof (cases "q1 = Inr None")
      case False
      then have "f' = f1" "q = Inr StepSucceeded \<Longrightarrow> q1 = Inr (Some StepSucceeded)" using Suc.prems(4) ex by (auto split: sum.splits option.splits)
      then show ?thesis using a Suc.prems(3) by (intro exI[of _ "[a]"] exI[of _ d]) simp
    next
      case True
      then obtain c where c: "sa_failure_category a = Some c" "retry_again st n c" using a(4) by blast
      note room = retry_room[OF c(2)]
      have "\<forall>b\<in>set (as @ [a]). \<forall>m\<ge>n + 1. sa_run b \<noteq> ai_run_id (aios m)"
        using Suc.prems(2) a(3) room(2) injD[OF assms(2)] by (fastforce simp: word_le_nat_alt)
      from Suc.IH[OF a(1) this] room Suc.prems(4) ex True obtain new d' where
        "at_step w (step_key st) ((as @ [a]) @ new) d' f'" "retried st (n + 1) new" "length new + unat (n + 1) \<le> Suc (max_attempts st)"
        "q = Inr StepSucceeded \<longrightarrow> new \<noteq> [] \<and> published w (step_key st) (last new) f'" by auto
      then show ?thesis using retried_Cons[OF a(2), of st new] c room(2) by (intro exI[of _ "a # new"] exI[of _ d']) auto
    qed
  qed
qed simp

lemma attempt_loop_more:
  "attempt_loop fuel env w st spec pin aios n f = Some y \<Longrightarrow> attempt_loop (fuel + k) env w st spec pin aios n f = Some y"
  by (induction fuel arbitrary: n f) (auto split: prod.splits sum.splits option.splits)

subsection \<open>Example\<close>

text \<open>A worker of the example step.\<close>

definition retry_step :: step where
  "retry_step = flow_step\<lparr>step_retry := Some \<lparr>rp_max_attempts = 2, rp_backoff_ms = None, rp_retry_on = [Cat_NonZeroExit]\<rparr>\<rparr>"

definition example_aio :: "u32 \<Rightarrow> attempt_io" where
  "example_aio n = \<lparr>ai_before = id, ai_run_id = UuidId (100 + ucast n), ai_submitted_at = 5, ai_attempt = UuidId (200 + ucast n), ai_registered = id,
     ai_cancel_at = 6, ai_run = example_io (Inr example_report),
     ai_during = id, ai_polls = []\<rparr>"

definition example_flow :: flow where
  "example_flow = \<lparr>fl_hub = example_registered\<lparr>h_workflows := workflows_put ((flow_workflow 30)\<lparr>wr_state := Wf_Running\<rparr>) []\<rparr>,
     fl_record = (flow_workflow 30)\<lparr>wr_state := Wf_Running\<rparr>, fl_token = False\<rparr>"

lemma example_ready: "worker_ready (UuidId 30) retry_step example_aio example_flow"
proof -
  have "hub_wf (fl_hub example_flow)" using example_registered_wf by (simp add: example_flow_def hub_wf_def)
  moreover have "neighbourly_io w key (example_aio n)" for w key n
    by (simp add: neighbourly_io_def neighbourly_def example_aio_def stays_done_refl)
  moreover have "n = m" if "ai_run_id (example_aio n) = ai_run_id (example_aio m)" for n m
  proof -
    have wide: "unat (ucast k :: 128 word) = unat k" for k :: u32
    proof -
      have "unat k < 2 ^ 128" using unsigned_less[of k, where ?'a = nat] by simp
      from take_bit_nat_eq_self[OF this] show ?thesis by (simp add: unsigned_ucast_eq)
    qed
    have "(ucast n :: 128 word) = ucast m" using that by (simp add: example_aio_def)
    then show ?thesis using wide[of n] wide[of m] word_unat_eq_iff[of n m] by simp
  qed
  moreover have "step_attempts (step_key retry_step) (fl_record example_flow) = []" by code_simp
  ultimately show ?thesis by (simp add: worker_ready_def inj_def)
qed

section \<open>Properties\<close>

text \<open>
  C19. The worker of a step ends. As many rounds of its loop as the retry policy allows attempts are
  enough, whatever the executor reports and whatever other threads do meanwhile: more fuel never
  changes the result.
\<close>
theorem worker_terminates:
  "\<exists>q f'. \<forall>k. execute_parallel_step (max_attempts st + k) env w st resolved aios f = Some (q, f')"
proof -
  have "1 \<le> max_attempts st" by (simp add: max_attempts_def split: option.splits)
  then show ?thesis using attempt_loop_total[of 1 st "max_attempts st"] attempt_loop_more unfolding execute_parallel_step_def by fastforce
qed

text \<open>
  C3. A worker attempts its step as the retry policy says and publishes what succeeded. Among
  threads that leave its step alone it appends new attempts to the record, numbered from one, at
  most as many as allowed, each but the last with a failure the policy retries. If it reports
  success, the authoritative publication of the step is under the fence of the last attempt and
  holds exactly the outputs of the run of that attempt, which succeeded.
\<close>
theorem worker_discipline:
  assumes "worker_ready w st aios f" and "execute_parallel_step fuel env w st resolved aios f = Some (q, f')"
  shows "\<exists>new e. at_step w (step_key st) (step_attempts (step_key st) (fl_record f) @ new) e f'
    \<and> retried st 1 new \<and> length new \<le> max_attempts st
    \<and> (q = Inr StepSucceeded \<longrightarrow> new \<noteq> [] \<and> published w (step_key st) (last new) f')"
proof -
  let ?old = "step_attempts (step_key st) (fl_record f)"
  have ready: "\<forall>n. neighbourly_io w (step_key st) (aios n)" "inj (\<lambda>n. ai_run_id (aios n))"
    "at_step w (step_key st) ?old (bt_get (h_fences (fl_hub f)) (w, step_key st)) f" "\<forall>b\<in>set ?old. \<forall>m\<ge>1. sa_run b \<noteq> ai_run_id (aios m)"
    using assms(1) by (auto simp: worker_ready_def at_step_def)
  have "unat (1 :: u32) \<le> max_attempts st" by (simp add: max_attempts_def split: option.splits)
  from attempt_loop_effect[OF ready this assms(2)[unfolded execute_parallel_step_def]] show ?thesis by simp
qed

theorem worker_discipline_witness:
  "\<exists>f' new. execute_parallel_step 2 example_env (UuidId 30) retry_step [] example_aio example_flow = Some (Inr StepSucceeded, f')
     \<and> retried retry_step 1 new \<and> length new \<le> 2 \<and> published (UuidId 30) ''a'' (last new) f'"
proof -
  have "map_option fst (execute_parallel_step 2 example_env (UuidId 30) retry_step [] example_aio example_flow) = Some (Inr StepSucceeded)"
    by code_simp
  then obtain f' where f': "execute_parallel_step 2 example_env (UuidId 30) retry_step [] example_aio example_flow = Some (Inr StepSucceeded, f')"
    by auto
  have "max_attempts retry_step = 2" "step_key retry_step = ''a''" by code_simp+
  then show ?thesis using f' worker_discipline[OF example_ready f'] by auto
qed

end
