(* ===== verification/Hub_Scheduler.thy ===== *)
theory Hub_Scheduler
  imports Hub_Attempts
begin

text \<open>
  The scheduling loop of \<open>execute_workflow_inner\<close> and the claim of \<open>execute_workflow\<close>
  (\<open>src/crates/hub-core/src/orchestrator.rs\<close>, lines 1133 to 1331). One definition per section of the
  loop body; a step relation interleaves them with what workers and other threads do to the
  shared flow. A worker is modelled in \<open>Hub_Flow\<close>; the loop sees it as a key in flight
  that sends one result.
\<close>

section \<open>Model\<close>

subsection \<open>The loop\<close>

text \<open>
  The local variables of the loop. \<open>sc_spawned\<close> lists the workers it started, each with the
  inputs handed to it.
\<close>

record sched =
  sc_flow :: flow
  sc_pending :: "string list"
  sc_completed :: "string list"
  sc_in_flight :: "string list"
  sc_failure :: "message option"
  sc_reason :: "message option"
  sc_spawned :: "(string \<times> (string, artifact_id) btree) list"

datatype sched_pc = Looping | Dispatching | Dispatched | Receiving | Finished | Aborted core_error

definition sched_start :: "workflow_spec \<Rightarrow> flow \<Rightarrow> sched" where
  "sched_start spec f = \<lparr>sc_flow = f, sc_pending = bs_of_list (map step_key (ws_steps spec)), sc_completed = [], sc_in_flight = [],
     sc_failure = None, sc_reason = None, sc_spawned = []\<rparr>"

definition signal_runs :: "(run_id \<Rightarrow> u64) \<Rightarrow> workflow_id \<Rightarrow> sched_pc \<Rightarrow> sched \<Rightarrow> sched_pc \<times> sched" where
  "signal_runs clock w next_pc sc =
     (case on_hub (cancel_active_workflow_runs clock w) (sc_flow sc) of
        (Inl e, f) \<Rightarrow> (Aborted e, sc\<lparr>sc_flow := f\<rparr>)
      | (Inr _, f) \<Rightarrow> (next_pc, sc\<lparr>sc_flow := f\<rparr>))"

definition cancel_token :: "sched \<Rightarrow> sched" where
  "cancel_token sc = sc\<lparr>sc_flow := (sc_flow sc)\<lparr>fl_token := True\<rparr>\<rparr>"

definition observe_intent :: "(run_id \<Rightarrow> u64) \<Rightarrow> workflow_id \<Rightarrow> sched \<Rightarrow> sched_pc \<times> sched" where
  "observe_intent clock w sc =
     (let f = sc_flow sc; r = refresh_cancel_intent (fl_hub f) (fl_record f); sc' = sc\<lparr>sc_flow := f\<lparr>fl_record := r\<rparr>\<rparr> in
      if wr_cancel_requested_at r \<noteq> None then
        signal_runs clock w Dispatching
          ((cancel_token sc')\<lparr>sc_reason := get_or_insert (plain ''workflow cancellation requested'') (sc_reason sc')\<rparr>)
      else (Dispatching, sc'))"

definition may_dispatch :: "workflow_spec \<Rightarrow> sched \<Rightarrow> bool" where
  "may_dispatch spec sc \<longleftrightarrow> sc_failure sc = None \<and> sc_reason sc = None \<and> \<not> fl_token (sc_flow sc) \<and> length (sc_in_flight sc) < concurrency_limit spec"

definition next_ready :: "workflow_spec \<Rightarrow> sched \<Rightarrow> string option" where
  "next_ready spec sc = find (\<lambda>key. case bt_get (dependencies spec) key of
     Some deps \<Rightarrow> list_all (\<lambda>dep. dep \<in> set (sc_completed sc)) deps | None \<Rightarrow> False) (sc_pending sc)"

text \<open>One round of the inner \<open>while\<close>; it is left for \<open>Dispatched\<close>.\<close>

definition dispatch_one :: "workflow_spec \<Rightarrow> sched \<Rightarrow> sched_pc \<times> sched" where
  "dispatch_one spec sc =
     (if \<not> may_dispatch spec sc then (Dispatched, sc)
      else case next_ready spec sc of
        None \<Rightarrow> (Dispatched, sc)
      | Some key \<Rightarrow>
          (case find (\<lambda>st. step_key st = key) (ws_steps spec) of
             None \<Rightarrow> (Dispatched, sc\<lparr>sc_failure := Some (Fmt ''step {key:?} disappeared from validated workflow'' [FDebug key])\<rparr>)
           | Some st \<Rightarrow>
               (case resolve_workflow_inputs (fl_hub (sc_flow sc)) (fl_record (sc_flow sc)) st of
                  Inl e \<Rightarrow> (Aborted e, sc)
                | Inr (Inl text) \<Rightarrow> (Dispatched, sc\<lparr>sc_failure := Some text\<rparr>)
                | Inr (Inr resolved) \<Rightarrow>
                    (Dispatching, sc\<lparr>sc_pending := bs_remove key (sc_pending sc), sc_in_flight := bs_insert key (sc_in_flight sc),
                       sc_spawned := sc_spawned sc @ [(key, resolved)]\<rparr>))))"

definition STALLED :: core_error where
  "STALLED = Storage (plain ''workflow scheduler stalled with no ready or in-flight step'')"

definition await_or_end :: "sched \<Rightarrow> sched_pc" where
  "await_or_end sc =
     (if sc_in_flight sc \<noteq> [] then Receiving
      else if sc_pending sc = [] \<or> sc_failure sc \<noteq> None \<or> sc_reason sc \<noteq> None \<or> fl_token (sc_flow sc) then Finished
      else Aborted STALLED)"

definition settle :: "(run_id \<Rightarrow> u64) \<Rightarrow> workflow_id \<Rightarrow> sched \<Rightarrow> sched_pc \<times> sched" where
  "settle clock w sc =
     (if sc_failure sc \<noteq> None then
        let sc' = cancel_token sc in signal_runs clock w (await_or_end sc') sc'
      else if sc_reason sc \<noteq> None \<or> fl_token (sc_flow sc) then signal_runs clock w (await_or_end sc) sc
      else (await_or_end sc, sc))"

definition receive :: "(run_id \<Rightarrow> u64) \<Rightarrow> workflow_id \<Rightarrow> string \<Rightarrow> step_terminal res \<Rightarrow> sched \<Rightarrow> sched_pc \<times> sched" where
  "receive clock w key result sc0 =
     (let sc = sc0\<lparr>sc_in_flight := bs_remove key (sc_in_flight sc0)\<rparr>;
          failed = (\<lambda>text. if sc_failure sc = None
            then signal_runs clock w Looping (cancel_token (sc\<lparr>sc_failure := Some text\<rparr>)) else (Looping, sc))
      in case result of
           Inr StepSucceeded \<Rightarrow> (Looping, sc\<lparr>sc_completed := bs_insert key (sc_completed sc)\<rparr>)
         | Inr (StepFailed text) \<Rightarrow> failed text
         | Inr (StepCancelled text) \<Rightarrow>
             if sc_failure sc = None \<and> sc_reason sc = None
             then signal_runs clock w Looping (cancel_token (sc\<lparr>sc_reason := Some text\<rparr>)) else (Looping, sc)
         | Inl e \<Rightarrow> failed (error_message e))"

text \<open>
  The steps of the loop. A result comes from a worker in flight and can be any. Other threads
  never reset the token and never end the workflow.
\<close>

inductive sched_step :: "workflow_id \<Rightarrow> workflow_spec \<Rightarrow> sched_pc \<times> sched \<Rightarrow> sched_pc \<times> sched \<Rightarrow> bool" for w spec where
  Observe: "sched_step w spec (Looping, sc) (observe_intent clock w sc)"
| Dispatch: "sched_step w spec (Dispatching, sc) (dispatch_one spec sc)"
| Settle: "sched_step w spec (Dispatched, sc) (settle clock w sc)"
| Receive: "key \<in> set (sc_in_flight sc) \<Longrightarrow> sched_step w spec (Receiving, sc) (receive clock w key result sc)"

definition considerate :: "flow \<Rightarrow> flow \<Rightarrow> bool" where
  "considerate f f' \<longleftrightarrow> (fl_token f \<longrightarrow> fl_token f') \<and> wr_id (fl_record f') = wr_id (fl_record f)
     \<and> wr_state (fl_record f') = wr_state (fl_record f) \<and> wr_spec (fl_record f') = wr_spec (fl_record f)"

text \<open>Reachable after \<open>n\<close> steps of the loop.\<close>

inductive sched_run :: "workflow_id \<Rightarrow> workflow_spec \<Rightarrow> flow \<Rightarrow> nat \<Rightarrow> sched_pc \<times> sched \<Rightarrow> bool" for w spec f0 where
  Start: "sched_run w spec f0 0 (Looping, sched_start spec f0)"
| Step: "sched_run w spec f0 n c \<Longrightarrow> sched_step w spec c c' \<Longrightarrow> sched_run w spec f0 (Suc n) c'"
| Others: "sched_run w spec f0 n (pc, sc) \<Longrightarrow> considerate (sc_flow sc) f \<Longrightarrow> sched_run w spec f0 n (pc, sc\<lparr>sc_flow := f\<rparr>)"

subsection \<open>The claim\<close>

definition claim_workflow :: "workflow_id \<Rightarrow> (hub, unit) action" where
  "claim_workflow w s =
     (if bt_get (h_active_workflow_cancels s) w \<noteq> None then
        (Inl (WorkflowNotExecutable w (case workflows_get (h_workflows s) w of Some r \<Rightarrow> wr_state r | None \<Rightarrow> Wf_Running)), s)
      else (Inr (), s\<lparr>h_active_workflow_cancels := bt_insert w False (h_active_workflow_cancels s)\<rparr>))"

definition release_workflow :: "workflow_id \<Rightarrow> hub \<Rightarrow> hub" where
  "release_workflow w s = s\<lparr>h_active_workflow_runs := bt_remove w (h_active_workflow_runs s),
     h_active_workflow_cancels := bt_remove w (h_active_workflow_cancels s)\<rparr>"

text \<open>A whole execution; \<open>token\<close> is what the token reads when the workflow starts.\<close>

inductive execute_workflow :: "workflow_id \<Rightarrow> hub \<Rightarrow> workflow_record res \<Rightarrow> hub \<Rightarrow> bool" for w s where
  Busy: "claim_workflow w s = (Inl e, s1) \<Longrightarrow> execute_workflow w s (Inl e) s1"
| Refused: "claim_workflow w s = (Inr (), s1) \<Longrightarrow> start_workflow intent_at now token w s1 = (Inl e, s2) \<Longrightarrow>
    execute_workflow w s (Inl e) (release_workflow w s2)"
| Stopped: "claim_workflow w s = (Inr (), s1) \<Longrightarrow> start_workflow intent_at now token w s1 = (Inr (Inl r), s2) \<Longrightarrow>
    execute_workflow w s (Inr r) (release_workflow w s2)"
| Ran: "claim_workflow w s = (Inr (), s1) \<Longrightarrow> start_workflow intent_at now token w s1 = (Inr (Inr r), s2) \<Longrightarrow>
    sched_run w (wr_spec r) \<lparr>fl_hub = s2, fl_record = r, fl_token = token\<rparr> n (Finished, sc) \<Longrightarrow>
    conclude_workflow intent_at' now' (fl_record (sc_flow sc)) (sc_failure sc) (sc_reason sc) (length (sc_completed sc)) (fl_hub (sc_flow sc)) = (q, s3) \<Longrightarrow>
    execute_workflow w s q (release_workflow w s3)"
| Failed: "claim_workflow w s = (Inr (), s1) \<Longrightarrow> start_workflow intent_at now token w s1 = (Inr (Inr r), s2) \<Longrightarrow>
    sched_run w (wr_spec r) \<lparr>fl_hub = s2, fl_record = r, fl_token = token\<rparr> n (Aborted e, sc) \<Longrightarrow>
    execute_workflow w s (Inl e) (release_workflow w (fl_hub (sc_flow sc)))"

section \<open>Specifications\<close>

definition spawned_keys :: "sched \<Rightarrow> string set" where
  "spawned_keys sc = fst ` set (sc_spawned sc)"

text \<open>A worker was started after the dependencies of its step had succeeded, with an artifact for every declared input.\<close>

definition started_ready :: "workflow_spec \<Rightarrow> sched \<Rightarrow> bool" where
  "started_ready spec sc \<longleftrightarrow> (\<forall>(key, resolved)\<in>set (sc_spawned sc). \<exists>st\<in>set (ws_steps spec). step_key st = key
     \<and> set (step_deps st) \<subseteq> set (sc_completed sc) \<and> set (bt_keys resolved) = set (bt_keys (step_inputs st)))"

definition sched_inv :: "workflow_spec \<Rightarrow> flow \<Rightarrow> sched \<Rightarrow> bool" where
  "sched_inv spec f0 sc \<longleftrightarrow> bs_wf (sc_pending sc) \<and> bs_wf (sc_in_flight sc) \<and> bs_wf (sc_completed sc)
     \<and> step_keys spec = set (sc_pending sc) \<union> spawned_keys sc \<and> set (sc_pending sc) \<inter> spawned_keys sc = {}
     \<and> distinct (map fst (sc_spawned sc)) \<and> set (sc_in_flight sc) \<union> set (sc_completed sc) \<subseteq> spawned_keys sc
     \<and> set (sc_in_flight sc) \<inter> set (sc_completed sc) = {}
     \<and> (sc_failure sc = None \<and> sc_reason sc = None \<longrightarrow> spawned_keys sc \<subseteq> set (sc_in_flight sc) \<union> set (sc_completed sc))
     \<and> length (sc_in_flight sc) \<le> concurrency_limit spec \<and> started_ready spec sc \<and> considerate f0 (sc_flow sc)"

text \<open>What holds at the points of the loop.\<close>

definition no_cause :: "sched \<Rightarrow> bool" where
  "no_cause sc \<longleftrightarrow> sc_failure sc = None \<and> sc_reason sc = None \<and> \<not> fl_token (sc_flow sc)"

fun at_pc :: "workflow_spec \<Rightarrow> sched_pc \<Rightarrow> sched \<Rightarrow> bool" where
  "at_pc spec Dispatched sc \<longleftrightarrow> (no_cause sc \<longrightarrow> sc_in_flight sc \<noteq> [] \<or> next_ready spec sc = None)"
| "at_pc spec Receiving sc \<longleftrightarrow> sc_in_flight sc \<noteq> []"
| "at_pc spec Finished sc \<longleftrightarrow> sc_in_flight sc = [] \<and> (no_cause sc \<longrightarrow> sc_pending sc = [])"
| "at_pc spec (Aborted e) sc \<longleftrightarrow> (\<exists>i. e = RunNotFound i)"
| "at_pc spec _ sc \<longleftrightarrow> True"

fun final :: "sched_pc \<Rightarrow> bool" where
  "final Finished \<longleftrightarrow> True"
| "final (Aborted _) \<longleftrightarrow> True"
| "final _ \<longleftrightarrow> False"

fun pc_rank :: "sched_pc \<Rightarrow> nat" where
  "pc_rank Looping = 3"
| "pc_rank Dispatching = 2"
| "pc_rank Dispatched = 1"
| "pc_rank _ = 0"

definition work_left :: "sched_pc \<times> sched \<Rightarrow> nat" where
  "work_left c = (case c of (pc, sc) \<Rightarrow>
     4 * (length (sc_pending sc) + length (sc_in_flight sc)) + length (sc_pending sc) + (if final pc then 0 else Suc (pc_rank pc)))"

section \<open>Facts\<close>

inductive_cases sched_stepE: "sched_step w spec c c'"

lemma length_bs_insert_new: "k \<notin> set s \<Longrightarrow> length (bs_insert k s) = Suc (length s)"
  by (induction s) auto

lemma length_bs_remove:
  assumes "bs_wf s" and "k \<in> set s"
  shows "Suc (length (bs_remove k s)) = length s"
proof -
  have "Suc (card (set (bs_remove k s))) = card (set s)" using card_Suc_Diff1[OF _ assms(2)] by simp
  then show ?thesis
    using distinct_card[OF bs_wf_distinct[OF assms(1)]] distinct_card[OF bs_wf_distinct[OF bs_wf_remove[OF assms(1), of k]]] by simp
qed

subsection \<open>Signals\<close>

lemma cancel_run_error:
  assumes "cancel_run now i s = (Inl e, s')"
  shows "e = RunNotFound i"
proof (cases "bt_get (h_active_cancels s) i = None \<and> runs_get (h_runs s) i \<noteq> None")
  case True
  then obtain r where r: "runs_get (h_runs s) i = Some r" by blast
  have live: "\<not> run_is_terminal (run_state_of r)" using assms True r by (auto simp: cancel_run_def)
  obtain r' where "run_transition_to Run_Cancelled now r = Inr r'"
    using live_run_stops[OF live] by (simp add: run_transition_to_def Let_def)
  then show ?thesis using assms True r live by (simp add: cancel_run_def sbind_def slift_def put_run_def sret_def)
qed (use assms in \<open>simp add: cancel_run_def split: if_splits\<close>)

lemma cancel_runs_error: "cancel_runs clock is s = (Inl e, s') \<Longrightarrow> \<exists>i. e = RunNotFound i"
  by (induction "is" arbitrary: s) (auto simp: sbind_Inl_iff action_simps dest: cancel_run_error)

lemma signal_runs_cases:
  assumes "signal_runs clock w pc sc = (pc', sc')"
  obtains h where "sc' = sc\<lparr>sc_flow := (sc_flow sc)\<lparr>fl_hub := h\<rparr>\<rparr>" and "pc' = pc \<or> (\<exists>i. pc' = Aborted (RunNotFound i))"
proof -
  obtain q h where q: "cancel_active_workflow_runs clock w (fl_hub (sc_flow sc)) = (q, h)" by (rule prod.exhaust)
  have "pc' = pc \<or> (\<exists>i. pc' = Aborted (RunNotFound i))"
    using assms q cancel_runs_error by (cases q) (auto simp: signal_runs_def on_hub_def cancel_active_workflow_runs_def)
  moreover have "sc' = sc\<lparr>sc_flow := (sc_flow sc)\<lparr>fl_hub := h\<rparr>\<rparr>"
    using assms q by (cases q) (auto simp: signal_runs_def on_hub_def)
  ultimately show thesis using that by blast
qed

subsection \<open>Invariant\<close>

lemma considerate_trans: "considerate f f' \<Longrightarrow> considerate f' f'' \<Longrightarrow> considerate f f''"
  by (simp add: considerate_def)

lemma sched_inv_flow:
  "sched_inv spec f0 sc \<Longrightarrow> considerate (sc_flow sc) f \<Longrightarrow> sched_inv spec f0 (sc\<lparr>sc_flow := f\<rparr>)"
  using considerate_trans[of f0 "sc_flow sc" f] by (simp add: sched_inv_def spawned_keys_def started_ready_def)

lemma considerate_own [simp]:
  "considerate f (f\<lparr>fl_hub := h\<rparr>)" "considerate f (f\<lparr>fl_token := True\<rparr>)" "considerate f (f\<lparr>fl_record := refresh_cancel_intent s (fl_record f)\<rparr>)"
  by (simp_all add: considerate_def)

lemma sched_inv_cause:
  assumes "sched_inv spec f0 sc"
  shows "sched_inv spec f0 (sc\<lparr>sc_failure := Some x\<rparr>)" and "sched_inv spec f0 (sc\<lparr>sc_reason := Some x\<rparr>)" and "sched_inv spec f0 (cancel_token sc)"
  using assms sched_inv_flow[OF assms, of "(sc_flow sc)\<lparr>fl_token := True\<rparr>"]
  by (auto simp: sched_inv_def spawned_keys_def started_ready_def cancel_token_def)

lemma signal_inv:
  assumes "signal_runs clock w pc sc = (pc', sc')" and "sched_inv spec f0 sc" and "at_pc spec pc sc" and "pc = Dispatched \<Longrightarrow> \<not> no_cause sc"
  shows "sched_inv spec f0 sc' \<and> at_pc spec pc' sc'"
  using assms(1)
proof (rule signal_runs_cases)
  fix h assume h: "sc' = sc\<lparr>sc_flow := (sc_flow sc)\<lparr>fl_hub := h\<rparr>\<rparr>" "pc' = pc \<or> (\<exists>i. pc' = Aborted (RunNotFound i))"
  then show ?thesis using sched_inv_flow[OF assms(2) considerate_own(1)] assms(3,4) by (cases pc) (auto simp: no_cause_def)
qed

lemma observe_inv:
  assumes "sched_inv spec f0 sc" and "observe_intent clock w sc = (pc', sc')"
  shows "sched_inv spec f0 sc' \<and> at_pc spec pc' sc'"
proof -
  let ?r = "refresh_cancel_intent (fl_hub (sc_flow sc)) (fl_record (sc_flow sc))"
  define sc1 where "sc1 = sc\<lparr>sc_flow := (sc_flow sc)\<lparr>fl_record := ?r\<rparr>\<rparr>"
  have sc1: "sched_inv spec f0 sc1" unfolding sc1_def by (rule sched_inv_flow[OF assms(1) considerate_own(3)])
  have reason: "get_or_insert x y = Some (case y of Some z \<Rightarrow> z | None \<Rightarrow> x)" for x :: message and y
    by (simp add: get_or_insert_def split: option.splits)
  show ?thesis
  proof (cases "wr_cancel_requested_at ?r = None")
    case True
    then show ?thesis using assms(2) sc1 by (auto simp: observe_intent_def Let_def sc1_def)
  next
    case False
    then have "signal_runs clock w Dispatching ((cancel_token sc1)\<lparr>sc_reason :=
        Some (case sc_reason sc1 of Some z \<Rightarrow> z | None \<Rightarrow> plain ''workflow cancellation requested'')\<rparr>) = (pc', sc')"
      using assms(2) by (simp add: observe_intent_def Let_def sc1_def[symmetric] reason)
    from signal_inv[OF this sched_inv_cause(2)[OF sched_inv_cause(3)[OF sc1]]] show ?thesis by simp
  qed
qed

lemma resolve_keys:
  "resolve_inputs s w st resolved ins = Inr (Inr resolved') \<Longrightarrow> set (bt_keys resolved') = set (bt_keys resolved) \<union> fst ` set ins"
proof (induction s w st resolved ins rule: resolve_inputs.induct)
  case (3 s w st resolved name dep out rest)
  then obtain p a where p: "authoritative_publication (h_fences s) w dep = Inr (Some p)" "bt_get (sp_outputs p) out = Some a"
    "resolve_inputs s w st (bt_insert name a resolved) rest = Inr (Inr resolved')"
    by (auto simp: rbind_Inr_iff split: option.splits)
  from "3.IH"[OF p(2,3)] show ?case by auto
qed (auto split: if_splits)

lemma resolve_error:
  "\<forall>(name, source)\<in>set ins. \<forall>dep out. source = FromStep dep out \<longrightarrow> is_slug dep \<Longrightarrow> resolve_inputs s w st resolved ins \<noteq> Inl e"
proof (induction s w st resolved ins rule: resolve_inputs.induct)
  case (3 s w st resolved name dep out rest)
  then have slugs: "is_slug dep" "\<forall>(name, source)\<in>set rest. \<forall>dep out. source = FromStep dep out \<longrightarrow> is_slug dep" by auto
  then obtain x where x: "authoritative_publication (h_fences s) w dep = Inr x" by (simp add: authoritative_get)
  have "resolve_inputs s w st (bt_insert name a resolved) rest \<noteq> Inl e" if "bt_get (sp_outputs p) out = Some a" for p :: step_publication and a
    using "3.IH"[OF that slugs(2)] .
  then show ?case using x by (auto split: option.splits)
qed auto

lemma next_ready_step:
  assumes "workflow_wf spec" and "sched_inv spec f0 sc" and "next_ready spec sc = Some key"
  obtains st where "st \<in> set (ws_steps spec)" and "step_key st = key" and "find (\<lambda>st. step_key st = key) (ws_steps spec) = Some st"
    and "key \<in> set (sc_pending sc)" and "set (step_deps st) \<subseteq> set (sc_completed sc)" and "step_wf (step_keys spec) st"
proof -
  have st: "distinct (map step_key (ws_steps spec))" "\<forall>st\<in>set (ws_steps spec). step_wf (step_keys spec) st"
    using assms(1) by (simp_all add: workflow_wf_def structure_wf_def)
  have key: "key \<in> set (sc_pending sc)" using find_SomeD[OF assms(3)[unfolded next_ready_def]] by simp
  then have "key \<in> step_keys spec" using assms(2) by (auto simp: sched_inv_def)
  then obtain s where "find (\<lambda>st. step_key st = key) (ws_steps spec) = Some s"
    by (cases "find (\<lambda>st. step_key st = key) (ws_steps spec)") (auto simp: find_None_iff)
  then have s: "find (\<lambda>st. step_key st = key) (ws_steps spec) = Some s" "s \<in> set (ws_steps spec)" "step_key s = key"
    by (auto dest: find_SomeD)
  have "set (step_deps s) \<subseteq> set (sc_completed sc)"
    using find_SomeD[OF assms(3)[unfolded next_ready_def]] dependencies_get[OF st(1) s(2)] s(3) by (auto simp: list_all_iff)
  then show thesis using that s key st(2) by blast
qed

text \<open>While a step is pending and none is in flight, some step is ready: dependencies are acyclic.\<close>

lemma never_stalls:
  assumes "workflow_wf spec" and "set (sc_pending sc) \<union> set (sc_completed sc) = step_keys spec" and "next_ready spec sc = None"
  shows "sc_pending sc = []"
proof (rule ccontr)
  assume "sc_pending sc \<noteq> []"
  then obtain x where x: "x \<in> set (sc_pending sc)" by (cases "sc_pending sc") auto
  have "wf (set (dep_pairs spec))" using assms(1) finite_acyclic_wf by (auto simp: workflow_wf_def)
  from wfE_min[OF this x] obtain key where
    key: "key \<in> set (sc_pending sc)" "\<And>d. (d, key) \<in> set (dep_pairs spec) \<Longrightarrow> d \<notin> set (sc_pending sc)" by blast
  have "key \<in> step_keys spec" using key(1) assms(2) by auto
  then obtain st where st: "st \<in> set (ws_steps spec)" "step_key st = key" by blast
  have wf: "step_wf (step_keys spec) st" "distinct (map step_key (ws_steps spec))"
    using assms(1) st(1) by (simp_all add: workflow_wf_def structure_wf_def)
  have "set (step_deps st) \<subseteq> set (sc_completed sc)"
    using key(2) st wf(1) assms(2) by (fastforce simp: set_dep_pairs step_wf_def)
  then have "case bt_get (dependencies spec) key of
      Some deps \<Rightarrow> list_all (\<lambda>dep. dep \<in> set (sc_completed sc)) deps | None \<Rightarrow> False"
    using dependencies_get[OF wf(2) st(1)] st(2) by (auto simp: list_all_iff)
  then show False using assms(3) key(1) by (auto simp: next_ready_def find_None_iff)
qed

lemma dispatch_inv:
  assumes "workflow_wf spec" and "sched_inv spec f0 sc" and "dispatch_one spec sc = (pc', sc')"
  shows "sched_inv spec f0 sc' \<and> at_pc spec pc' sc' \<and> work_left (pc', sc') < work_left (Dispatching, sc)"
proof (cases "may_dispatch spec sc \<and> next_ready spec sc \<noteq> None")
  case False
  have "0 < concurrency_limit spec"
    using assms(1) by (simp add: workflow_wf_def structure_wf_def concurrency_limit_def unat_gt_0)
  moreover have "pc' = Dispatched" "sc' = sc" using assms(3) False by (auto simp: dispatch_one_def split: if_splits)
  ultimately show ?thesis using assms(2) False by (auto simp: may_dispatch_def no_cause_def work_left_def)
next
  case True
  then obtain key where key: "next_ready spec sc = Some key" and may: "may_dispatch spec sc" by blast
  from next_ready_step[OF assms(1,2) key] obtain st where st: "st \<in> set (ws_steps spec)" "step_key st = key"
    "find (\<lambda>st. step_key st = key) (ws_steps spec) = Some st" "key \<in> set (sc_pending sc)" "set (step_deps st) \<subseteq> set (sc_completed sc)"
    "step_wf (step_keys spec) st" .
  let ?res = "resolve_workflow_inputs (fl_hub (sc_flow sc)) (fl_record (sc_flow sc)) st"
  have "is_slug dep" if "(name, FromStep dep out) \<in> set (step_inputs st)" for name dep out
  proof -
    have "FromStep dep out \<in> set (bt_values (step_inputs st))" using that by force
    then have "dep \<in> set (step_deps st)" unfolding set_step_deps by blast
    then have "dep \<in> step_keys spec" using st(6) by (auto simp: step_wf_def)
    then show ?thesis using assms(1) by (auto simp: workflow_wf_def structure_wf_def step_wf_def)
  qed
  then have no_error: "?res \<noteq> Inl e" for e unfolding resolve_workflow_inputs_def by (intro resolve_error) auto
  note d = assms(3)[unfolded dispatch_one_def key option.case st(3)]
  show ?thesis
  proof (cases ?res)
    case (Inr x)
    show ?thesis
    proof (cases x)
      case (Inl msg)
      then have "pc' = Dispatched" "sc' = sc\<lparr>sc_failure := Some msg\<rparr>" using d may Inr by auto
      then show ?thesis using sched_inv_cause(1)[OF assms(2)] by (simp add: no_cause_def work_left_def)
    next
      case _: (Inr resolved)
      then have pc': "pc' = Dispatching" and sc': "sc' = sc\<lparr>sc_pending := bs_remove key (sc_pending sc),
          sc_in_flight := bs_insert key (sc_in_flight sc), sc_spawned := sc_spawned sc @ [(key, resolved)]\<rparr>"
        using d may Inr by auto
      have inputs: "set (bt_keys resolved) = set (bt_keys (step_inputs st))"
        using resolve_keys[of _ _ _ "[]" _ resolved] Inr \<open>x = Inr resolved\<close> by (simp add: resolve_workflow_inputs_def)
      have fresh: "key \<notin> spawned_keys sc" "key \<notin> set (sc_in_flight sc)" using assms(2) st(4) by (auto simp: sched_inv_def)
      have len: "length (bs_insert key (sc_in_flight sc)) = Suc (length (sc_in_flight sc))"
        "Suc (length (bs_remove key (sc_pending sc))) = length (sc_pending sc)"
        using length_bs_insert_new[OF fresh(2)] length_bs_remove[OF _ st(4)] assms(2) by (auto simp: sched_inv_def)
      have keys: "spawned_keys sc' = insert key (spawned_keys sc)" by (simp add: sc' spawned_keys_def)
      have ready: "started_ready spec sc'"
        using assms(2) st inputs by (auto simp: sched_inv_def started_ready_def sc')
      have "sched_inv spec f0 sc'"
        using assms(2) may st(2,4) fresh len keys ready unfolding sched_inv_def
        by (auto simp: sc' may_dispatch_def spawned_keys_def)
      then show ?thesis using len by (simp add: pc' sc' work_left_def)
    qed
  qed (use no_error in blast)
qed

lemma settle_inv:
  assumes "workflow_wf spec" and "sched_inv spec f0 sc" and "at_pc spec Dispatched sc" and "settle clock w sc = (pc', sc')"
  shows "sched_inv spec f0 sc' \<and> at_pc spec pc' sc' \<and> work_left (pc', sc') < work_left (Dispatched, sc)"
proof -
  have ended: "at_pc spec (await_or_end sc1) sc1 \<and> await_or_end sc1 \<in> {Receiving, Finished}"
    if "sc_in_flight sc1 = sc_in_flight sc" "sc_pending sc1 = sc_pending sc" "no_cause sc1 \<Longrightarrow> sc1 = sc" for sc1
  proof (cases "no_cause sc1 \<and> sc_in_flight sc1 = []")
    case True
    then have same: "sc1 = sc" and idle: "no_cause sc" "sc_in_flight sc = []" using that(3) by auto
    then have "set (sc_pending sc) \<union> set (sc_completed sc) = step_keys spec" "next_ready spec sc = None"
      using assms(2,3) by (auto simp: sched_inv_def no_cause_def)
    from never_stalls[OF assms(1) this] show ?thesis using idle same by (simp add: await_or_end_def)
  qed (auto simp: await_or_end_def no_cause_def)
  have signalled: ?thesis
    if "signal_runs clock w (await_or_end sc1) sc1 = (pc', sc')" "sched_inv spec f0 sc1"
      "sc_in_flight sc1 = sc_in_flight sc" "sc_pending sc1 = sc_pending sc" "no_cause sc1 \<Longrightarrow> sc1 = sc" for sc1
  proof -
    note e = ended[OF that(3-5)]
    have "await_or_end sc1 \<noteq> Dispatched" using e by auto
    then have "sched_inv spec f0 sc' \<and> at_pc spec pc' sc'" using signal_inv[OF that(1,2)] e by blast
    moreover have "work_left (pc', sc') < work_left (Dispatched, sc)"
      using that(1) by (rule signal_runs_cases) (use that(3,4) e in \<open>auto simp: work_left_def\<close>)
    ultimately show ?thesis by blast
  qed
  consider "sc_failure sc \<noteq> None" | "sc_failure sc = None" "sc_reason sc \<noteq> None \<or> fl_token (sc_flow sc)" | "no_cause sc"
    unfolding no_cause_def by metis
  then show ?thesis
  proof cases
    case 1
    then show ?thesis using signalled[OF _ sched_inv_cause(3)[OF assms(2)]] assms(4)
      by (auto simp: settle_def Let_def cancel_token_def no_cause_def)
  next
    case 2
    then show ?thesis using signalled[OF _ assms(2)] assms(4) by (auto simp: settle_def)
  next
    case 3
    then have "pc' = await_or_end sc" "sc' = sc" using assms(4) by (auto simp: settle_def no_cause_def)
    then show ?thesis using ended[of sc] assms(2) by (auto simp: work_left_def)
  qed
qed

lemma started_ready_mono:
  assumes "started_ready spec sc" and "sc_spawned sc' = sc_spawned sc" and "set (sc_completed sc) \<subseteq> set (sc_completed sc')"
  shows "started_ready spec sc'"
  unfolding started_ready_def
proof clarsimp
  fix key resolved assume "(key, resolved) \<in> set (sc_spawned sc')"
  then obtain st where "st \<in> set (ws_steps spec)" "step_key st = key" "set (step_deps st) \<subseteq> set (sc_completed sc)"
    "set (bt_keys resolved) = set (bt_keys (step_inputs st))"
    using assms(1,2) by (auto simp: started_ready_def)
  then show "\<exists>st\<in>set (ws_steps spec). step_key st = key \<and> set (step_deps st) \<subseteq> set (sc_completed sc')
      \<and> fst ` set resolved = fst ` set (step_inputs st)"
    using assms(3) by (intro bexI[of _ st]) auto
qed

lemma receive_cases:
  assumes "receive clock w key result sc = (pc', sc')"
  obtains "result = Inr StepSucceeded"
  | "pc' = Looping" "sc' = sc\<lparr>sc_in_flight := bs_remove key (sc_in_flight sc)\<rparr>" "sc_failure sc \<noteq> None \<or> sc_reason sc \<noteq> None"
  | f r where "signal_runs clock w Looping (cancel_token (sc\<lparr>sc_in_flight := bs_remove key (sc_in_flight sc), sc_failure := f, sc_reason := r\<rparr>)) = (pc', sc')"
      "f \<noteq> None \<or> r \<noteq> None"
proof -
  let ?sc = "sc\<lparr>sc_in_flight := bs_remove key (sc_in_flight sc)\<rparr>"
  have same: "?sc\<lparr>sc_failure := f, sc_reason := sc_reason sc\<rparr> = ?sc\<lparr>sc_failure := f\<rparr>"
    "sc_failure sc = None \<Longrightarrow> ?sc\<lparr>sc_failure := None, sc_reason := r\<rparr> = ?sc\<lparr>sc_reason := r\<rparr>" for f r by (cases sc; simp)+
  consider "result = Inr StepSucceeded" | x where "result = Inr (StepFailed x)" | x where "result = Inr (StepCancelled x)" | e where "result = Inl e"
    using step_terminal.exhaust sum.exhaust by metis
  then show thesis
  proof cases
    case (2 x)
    then show thesis using assms that(2) that(3)[where f = "Some x" and r = "sc_reason sc"] same
      by (cases "sc_failure sc") (simp_all add: receive_def)
  next
    case (3 x)
    then show thesis using assms that(2) that(3)[where f = "sc_failure sc" and r = "Some x"] same
      by (cases "sc_failure sc = None \<and> sc_reason sc = None") (simp_all add: receive_def)
  next
    case (4 e)
    then show thesis using assms that(2) that(3)[where f = "Some (error_message e)" and r = "sc_reason sc"] same
      by (cases "sc_failure sc") (simp_all add: receive_def)
  qed (rule that(1))
qed

lemma receive_inv:
  assumes "sched_inv spec f0 sc" and "key \<in> set (sc_in_flight sc)" and "receive clock w key result sc = (pc', sc')"
  shows "sched_inv spec f0 sc' \<and> at_pc spec pc' sc' \<and> work_left (pc', sc') < work_left (Receiving, sc)"
proof -
  let ?sc = "sc\<lparr>sc_in_flight := bs_remove key (sc_in_flight sc)\<rparr>"
  have len: "Suc (length (sc_in_flight ?sc)) = length (sc_in_flight sc)" using length_bs_remove[OF _ assms(2)] assms(1) by (simp add: sched_inv_def)
  have caused: "sched_inv spec f0 (?sc\<lparr>sc_failure := f, sc_reason := r\<rparr>)" if "f \<noteq> None \<or> r \<noteq> None" for f r
    using assms(1) len that by (auto simp: sched_inv_def spawned_keys_def started_ready_def)
  have work: "work_left (Looping, sc1) < work_left (Receiving, sc)" if "sc_in_flight sc1 = sc_in_flight ?sc" "sc_pending sc1 = sc_pending sc" for sc1
    using that len by (simp add: work_left_def)
  have signalled: ?thesis if "signal_runs clock w Looping (cancel_token (?sc\<lparr>sc_failure := f, sc_reason := r\<rparr>)) = (pc', sc')" "f \<noteq> None \<or> r \<noteq> None" for f r
  proof -
    have "sched_inv spec f0 sc' \<and> at_pc spec pc' sc'" using signal_inv[OF that(1) sched_inv_cause(3)[OF caused[OF that(2)]]] by simp
    moreover have "work_left (pc', sc') < work_left (Receiving, sc)"
      using that(1) by (rule signal_runs_cases) (use len in \<open>auto simp: work_left_def cancel_token_def\<close>)
    ultimately show ?thesis by blast
  qed
  consider "result = Inr StepSucceeded"
    | "pc' = Looping" "sc' = ?sc" "sc_failure sc \<noteq> None \<or> sc_reason sc \<noteq> None"
    | f r where "signal_runs clock w Looping (cancel_token (?sc\<lparr>sc_failure := f, sc_reason := r\<rparr>)) = (pc', sc')" "f \<noteq> None \<or> r \<noteq> None"
    by (rule receive_cases[OF assms(3)])
  then show ?thesis
  proof cases
    case 1
    then have "pc' = Looping" "sc' = ?sc\<lparr>sc_completed := bs_insert key (sc_completed sc)\<rparr>" using assms(3) by (auto simp: receive_def Let_def)
    moreover have "started_ready spec (?sc\<lparr>sc_completed := bs_insert key (sc_completed sc)\<rparr>)"
      by (rule started_ready_mono[of _ sc]) (use assms(1) in \<open>auto simp: sched_inv_def\<close>)
    then have "sched_inv spec f0 (?sc\<lparr>sc_completed := bs_insert key (sc_completed sc)\<rparr>)"
      using assms(1,2) len by (auto simp: sched_inv_def spawned_keys_def)
    ultimately show ?thesis using work[of sc'] by simp
  next
    case 2
    then show ?thesis using caused[OF 2(3)] work[of ?sc] by simp
  qed (rule signalled)
qed

lemma observe_work: "observe_intent clock w sc = (pc', sc') \<Longrightarrow> work_left (pc', sc') < work_left (Looping, sc)"
  unfolding observe_intent_def Let_def
  by (auto simp: work_left_def cancel_token_def split: if_splits elim!: signal_runs_cases)

lemma sched_step_inv:
  assumes "workflow_wf spec" and "sched_step w spec (pc, sc) (pc', sc')" and "sched_inv spec f0 sc" and "at_pc spec pc sc"
  shows "sched_inv spec f0 sc' \<and> at_pc spec pc' sc' \<and> work_left (pc', sc') < work_left (pc, sc)"
  using assms(2)
proof (cases rule: sched_step.cases)
  case (Observe clock)
  then show ?thesis using observe_inv[OF assms(3)] observe_work by metis
next
  case Dispatch
  then show ?thesis using dispatch_inv[OF assms(1,3)] by metis
next
  case (Settle clock)
  then show ?thesis using settle_inv[OF assms(1,3)] assms(4) by metis
next
  case (Receive key clock result)
  then show ?thesis using receive_inv[OF assms(3)] by metis
qed

lemma start_inv: "sched_inv spec f (sched_start spec f)"
  by (auto simp: sched_inv_def sched_start_def spawned_keys_def started_ready_def considerate_def)

lemma next_ready_flow [simp]: "next_ready spec (sc\<lparr>sc_flow := f\<rparr>) = next_ready spec sc"
  by (simp add: next_ready_def cong: option.case_cong)

lemma run_inv:
  assumes "workflow_wf spec" and "sched_run w spec f0 n c"
  shows "sched_inv spec f0 (snd c) \<and> at_pc spec (fst c) (snd c) \<and> n + work_left c \<le> 5 * length (ws_steps spec) + 4"
  using assms(2)
proof (induction rule: sched_run.induct)
  case Start
  have "distinct (map step_key (ws_steps spec))" using assms(1) by (simp add: workflow_wf_def structure_wf_def)
  then have "length (bs_of_list (map step_key (ws_steps spec))) = length (ws_steps spec)"
    using distinct_card[OF bs_wf_distinct[OF bs_wf_of_list[of "map step_key (ws_steps spec)"]]] distinct_card[of "map step_key (ws_steps spec)"] by simp
  then show ?case using start_inv[of spec f0] by (simp add: work_left_def sched_start_def)
next
  case (Step n c c')
  then show ?case using sched_step_inv[OF assms(1), of w "fst c" "snd c" "fst c'" "snd c'" f0] by simp
next
  case (Others n pc sc f)
  have "work_left (pc, sc\<lparr>sc_flow := f\<rparr>) = work_left (pc, sc)" by (simp add: work_left_def)
  moreover have "at_pc spec pc (sc\<lparr>sc_flow := f\<rparr>)"
    using Others by (cases pc) (auto simp: no_cause_def considerate_def)
  ultimately show ?case using Others sched_inv_flow[of spec f0 sc f] by simp
qed

lemma run_progress:
  assumes "at_pc spec pc sc" and "\<not> final pc"
  shows "\<exists>c'. sched_step w spec (pc, sc) c'"
  using assms
proof (cases pc)
  case Receiving
  then obtain key where "key \<in> set (sc_in_flight sc)" using assms(1) by (cases "sc_in_flight sc") auto
  then show ?thesis using Receiving sched_step.Receive by blast
next
  case Looping
  then show ?thesis using sched_step.Observe by blast
next
  case Dispatching
  then show ?thesis using sched_step.Dispatch by blast
next
  case Dispatched
  then show ?thesis using sched_step.Settle by blast
qed (use assms(2) in simp_all)

lemma run_done_all:
  assumes "sched_inv spec f0 sc" and "at_pc spec Finished sc" and "no_cause sc"
  shows "set (sc_completed sc) = step_keys spec"
  using assms by (auto simp: sched_inv_def no_cause_def)

subsection \<open>Whole executions\<close>

lemma start_workflow_cases:
  assumes "start_workflow intent_at now token w s = (q, s')" and "keyed wr_id (h_workflows s)"
  obtains "q = Inl (WorkflowNotFound w)" and "workflows_get (h_workflows s) w = None" and "s' = s"
  | r0 where "workflows_get (h_workflows s) w = Some r0" "wr_state r0 \<noteq> Wf_Created" "q = Inl (WorkflowNotExecutable w (wr_state r0))" "s' = s"
  | r0 r where "workflows_get (h_workflows s) w = Some r0" "wr_state r0 = Wf_Created" "q = Inr (Inl r)" "wr_id r = w" "wr_state r = Wf_Cancelled"
      "s' = s\<lparr>h_workflows := workflows_put r (h_workflows s)\<rparr>"
  | r0 r where "workflows_get (h_workflows s) w = Some r0" "wr_state r0 = Wf_Created" "q = Inr (Inr r)" "wr_id r = w" "wr_state r = Wf_Running"
      "wr_spec r = wr_spec r0" "\<not> token" "s' = s\<lparr>h_workflows := workflows_put r (h_workflows s)\<rparr>"
proof (cases "workflows_get (h_workflows s) w")
  case None
  then have "q = Inl (WorkflowNotFound w)" "s' = s" using assms(1) by (simp_all add: start_workflow_def)
  then show thesis by (intro that(1) None)
next
  case (Some r0)
  have id: "wr_id r0 = w" using Some keyed_get[OF assms(2)] by (simp add: workflows_get_def)
  let ?r = "refresh_cancel_intent s r0"
  note q = assms(1)[unfolded start_workflow_def Some option.case Let_def]
  consider "wr_state r0 \<noteq> Wf_Created" | "wr_state r0 = Wf_Created" "token \<or> wr_cancel_requested_at ?r \<noteq> None"
    | "wr_state r0 = Wf_Created" "\<not> (token \<or> wr_cancel_requested_at ?r \<noteq> None)" by metis
  then show thesis
  proof cases
    case 1
    then have "q = Inl (WorkflowNotExecutable w (wr_state r0))" "s' = s" using q by simp_all
    then show thesis by (rule that(2)[OF Some 1])
  next
    case 2
    then have "\<not> wf_is_terminal (wr_state ?r)" by simp
    then obtain r' where r': "finish_workflow_cancelled intent_at now ?r (plain ''cancelled before execution'') s =
        (Inr r', s\<lparr>h_workflows := workflows_put r' (h_workflows s)\<rparr>)" "wr_id r' = wr_id ?r" "wr_state r' = Wf_Cancelled"
      by (rule finish_cancelled_live)
    then have "q = Inr (Inl r')" "s' = s\<lparr>h_workflows := workflows_put r' (h_workflows s)\<rparr>" using q 2 by (auto simp: sbind_def sret_def)
    then show thesis using that(3)[OF Some 2(1) _ _ r'(3)] r'(2) id by (metis refresh_fields(1))
  next
    case 3
    then obtain r' where r': "wf_transition_to Wf_Running now ?r = Inr r'" by (simp add: wf_transition_to_def Let_def)
    then have res: "q = Inr (Inr r')" "s' = s\<lparr>h_workflows := workflows_put r' (h_workflows s)\<rparr>"
      using q 3 by (auto simp: sbind_def slift_def put_workflow_def sret_def)
    have "wr_id r' = w" "wr_state r' = Wf_Running" "wr_spec r' = wr_spec r0" "\<not> token" using r' id 3(2) by (auto simp: wf_transition_Inr)
    then show thesis by (rule that(4)[OF Some 3(1) res(1) _ _ _ _ res(2)])
  qed
qed

text \<open>The end of a running workflow is always reached, as a success only without a cause and with every step completed.\<close>

definition ended :: "workflow_record \<Rightarrow> hub \<Rightarrow> workflow_record res \<times> hub \<Rightarrow> workflow_state set \<Rightarrow> bool" where
  "ended r s x states \<longleftrightarrow> (\<exists>r'. x = (Inr r', s\<lparr>h_workflows := workflows_put r' (h_workflows s)\<rparr>) \<and> wr_id r' = wr_id r \<and> wr_state r' \<in> states)"

lemma finish_cancelled_ended:
  assumes "wr_state r = Wf_Running"
  shows "ended r s (finish_workflow_cancelled intent_at now r x s) {Wf_Cancelled}"
proof -
  have "\<not> wf_is_terminal (wr_state r)" using assms by simp
  then obtain r' where "finish_workflow_cancelled intent_at now r x s = (Inr r', s\<lparr>h_workflows := workflows_put r' (h_workflows s)\<rparr>)"
    "wr_id r' = wr_id r" "wr_state r' = Wf_Cancelled" by (rule finish_cancelled_live)
  then show ?thesis unfolding ended_def by blast
qed

lemma finish_failed_ended:
  assumes "wr_state r = Wf_Running"
  shows "ended r s (finish_workflow_failed intent_at now r x s) {Wf_Failed, Wf_Cancelled}"
proof (cases "wr_cancel_requested_at (refresh_cancel_intent s r) = None")
  case True
  obtain r1 where r1: "wf_transition_to Wf_Failed now (refresh_cancel_intent s r) = Inr r1" using assms by (simp add: wf_transition_to_def Let_def)
  then have "wr_id r1 = wr_id r" "wr_state r1 = Wf_Failed" by (auto simp: wf_transition_Inr)
  moreover have "finish_workflow_failed intent_at now r x s =
      (Inr (r1\<lparr>wr_failure := Some x\<rparr>), s\<lparr>h_workflows := workflows_put (r1\<lparr>wr_failure := Some x\<rparr>) (h_workflows s)\<rparr>)"
    using True r1 by (simp add: finish_workflow_failed_def Let_def sbind_def slift_def put_workflow_def sret_def)
  ultimately show ?thesis unfolding ended_def by (intro exI[of _ "r1\<lparr>wr_failure := Some x\<rparr>"]) simp
next
  case False
  have "ended (refresh_cancel_intent s r) s (finish_workflow_cancelled intent_at now (refresh_cancel_intent s r) x s) {Wf_Cancelled}"
    by (rule finish_cancelled_ended) (simp add: assms)
  then show ?thesis using False by (auto simp: finish_workflow_failed_def Let_def ended_def)
qed

lemma conclude_ended:
  assumes "wr_state r = Wf_Running"
  shows "ended r s (conclude_workflow intent_at now r failure reason completed s)
    (if failure = None \<and> reason = None \<and> completed = length (ws_steps (wr_spec r)) then {Wf_Succeeded, Wf_Cancelled} else {Wf_Failed, Wf_Cancelled})"
proof -
  let ?r = "refresh_cancel_intent s r"
  have run: "wr_state ?r = Wf_Running" using assms by simp
  have widen: "ended ?r s x A \<Longrightarrow> A \<subseteq> B \<Longrightarrow> ended r s x B" for x A B by (auto simp: ended_def)
  consider "wr_cancel_requested_at ?r \<noteq> None \<or> reason \<noteq> None"
    | m where "wr_cancel_requested_at ?r = None" "reason = None" "failure = Some m"
    | "wr_cancel_requested_at ?r = None" "reason = None" "failure = None" "completed \<noteq> length (ws_steps (wr_spec r))"
    | "wr_cancel_requested_at ?r = None" "reason = None" "failure = None" "completed = length (ws_steps (wr_spec r))"
    by (cases failure) metis+
  then show ?thesis
  proof cases
    case 1
    then show ?thesis using widen[OF finish_cancelled_ended[OF run]] by (simp add: conclude_workflow_def Let_def)
  next
    case (2 m)
    then show ?thesis using widen[OF finish_failed_ended[OF run]] by (simp add: conclude_workflow_def Let_def)
  next
    case 3
    then show ?thesis using widen[OF finish_failed_ended[OF run]] by (simp add: conclude_workflow_def Let_def)
  next
    case 4
    obtain r1 where r1: "wf_transition_to Wf_Succeeded now ?r = Inr r1" using run by (simp add: wf_transition_to_def Let_def)
    then have "wr_id r1 = wr_id r" "wr_state r1 = Wf_Succeeded" by (auto simp: wf_transition_Inr)
    then show ?thesis
      using 4 r1 by (simp add: conclude_workflow_def Let_def sbind_def slift_def put_workflow_def sret_def ended_def)
  qed
qed

lemma release_get [simp]:
  "h_workflows (release_workflow w s) = h_workflows s" "bt_get (h_active_workflow_cancels (release_workflow w s)) w = None"
  "bt_get (h_active_workflow_runs (release_workflow w s)) w = None"
  by (simp_all add: release_workflow_def)

lemma claim_cases:
  assumes "claim_workflow w s = (q, s1)"
  obtains st where "bt_get (h_active_workflow_cancels s) w \<noteq> None" "q = Inl (WorkflowNotExecutable w st)" "s1 = s"
  | "bt_get (h_active_workflow_cancels s) w = None" "q = Inr ()" "h_workflows s1 = h_workflows s"
  using assms unfolding claim_workflow_def by (metis (no_types, lifting) Pair_inject hub.select_convs hub.surjective hub.update_convs)

text \<open>
  What an execution leaves: no claim of its own, and either a stored record in a terminal state
  or a documented error. A success means that every step succeeded.
\<close>

definition execution_result :: "workflow_id \<Rightarrow> hub \<Rightarrow> workflow_record res \<Rightarrow> hub \<Rightarrow> bool" where
  "execution_result w s q s' \<longleftrightarrow> (case q of
     Inl e \<Rightarrow> e = WorkflowNotFound w \<or> (\<exists>st. e = WorkflowNotExecutable w st) \<or> (\<exists>i. e = RunNotFound i)
   | Inr r \<Rightarrow> wr_id r = w \<and> wf_is_terminal (wr_state r) \<and> map_option wr_state (workflows_get (h_workflows s') w) = Some (wr_state r)
       \<and> (\<exists>r0. workflows_get (h_workflows s) w = Some r0 \<and> wr_state r0 = Wf_Created
            \<and> (wr_state r = Wf_Succeeded \<longrightarrow> (\<exists>f0 n sc. sched_run w (wr_spec r0) f0 n (Finished, sc) \<and> set (sc_completed sc) = step_keys (wr_spec r0)))))
   \<and> (bt_get (h_active_workflow_cancels s) w = None \<longrightarrow>
        bt_get (h_active_workflow_cancels s') w = None \<and> bt_get (h_active_workflow_runs s') w = None)"

lemma stored_state: "wr_id r = w \<Longrightarrow> map_option wr_state (workflows_get (workflows_put r ws) w) = Some (wr_state r)"
  by (simp add: workflows_get_put)

lemma completed_all:
  assumes "workflow_wf spec" and "sched_inv spec f0 sc" and "length (sc_completed sc) = length (ws_steps spec)"
  shows "set (sc_completed sc) = step_keys spec"
proof -
  have "set (sc_completed sc) \<subseteq> step_keys spec" "card (set (sc_completed sc)) = length (sc_completed sc)"
    using assms(2) distinct_card[OF bs_wf_distinct] by (auto simp: sched_inv_def)
  moreover have "card (step_keys spec) = length (ws_steps spec)"
    using assms(1) distinct_card[of "map step_key (ws_steps spec)"] by (simp add: workflow_wf_def structure_wf_def)
  ultimately show ?thesis using assms(3) by (intro card_subset_eq) auto
qed

lemma ran_result:
  assumes "workflow_wf (wr_spec r)" and "wr_id r = w" and "wr_state r = Wf_Running"
    and "sched_run w (wr_spec r) \<lparr>fl_hub = s2, fl_record = r, fl_token = token\<rparr> n (Finished, sc)"
    and "conclude_workflow intent_at now (fl_record (sc_flow sc)) (sc_failure sc) (sc_reason sc) (length (sc_completed sc)) (fl_hub (sc_flow sc)) = (q, s3)"
  obtains r' where "q = Inr r'" and "wr_id r' = w" and "wf_is_terminal (wr_state r')"
    and "map_option wr_state (workflows_get (h_workflows s3) w) = Some (wr_state r')"
    and "wr_state r' = Wf_Succeeded \<Longrightarrow> set (sc_completed sc) = step_keys (wr_spec r)"
proof -
  have inv: "sched_inv (wr_spec r) \<lparr>fl_hub = s2, fl_record = r, fl_token = token\<rparr> sc" using run_inv[OF assms(1,4)] by simp
  then have rec: "wr_id (fl_record (sc_flow sc)) = w" "wr_state (fl_record (sc_flow sc)) = Wf_Running" "wr_spec (fl_record (sc_flow sc)) = wr_spec r"
    using assms(2,3) by (simp_all add: sched_inv_def considerate_def)
  obtain r' where r': "q = Inr r'" "s3 = (fl_hub (sc_flow sc))\<lparr>h_workflows := workflows_put r' (h_workflows (fl_hub (sc_flow sc)))\<rparr>" "wr_id r' = w"
    "wr_state r' \<in> (if sc_failure sc = None \<and> sc_reason sc = None \<and> length (sc_completed sc) = length (ws_steps (wr_spec r))
       then {Wf_Succeeded, Wf_Cancelled} else {Wf_Failed, Wf_Cancelled})"
    using conclude_ended[OF rec(2), of "fl_hub (sc_flow sc)" intent_at now "sc_failure sc" "sc_reason sc" "length (sc_completed sc)"] assms(5) rec
    unfolding ended_def by auto
  have "wf_is_terminal (wr_state r')" using r'(4) by (auto split: if_splits)
  moreover have "set (sc_completed sc) = step_keys (wr_spec r)" if "wr_state r' = Wf_Succeeded"
    using r'(4) that completed_all[OF assms(1) inv] by (auto split: if_splits)
  ultimately show thesis using that[OF r'(1,3)] stored_state[OF r'(3)] r'(2) by simp
qed

subsection \<open>Example\<close>

text \<open>A scheduler whose workers all succeed, in the order of their keys.\<close>

fun drive :: "nat \<Rightarrow> workflow_id \<Rightarrow> workflow_spec \<Rightarrow> sched_pc \<times> sched \<Rightarrow> sched_pc \<times> sched" where
  "drive 0 w spec c = c"
| "drive (Suc k) w spec (Looping, sc) = drive k w spec (observe_intent (\<lambda>_. 9) w sc)"
| "drive (Suc k) w spec (Dispatching, sc) = drive k w spec (dispatch_one spec sc)"
| "drive (Suc k) w spec (Dispatched, sc) = drive k w spec (settle (\<lambda>_. 9) w sc)"
| "drive (Suc k) w spec (Receiving, sc) = (case sc_in_flight sc of [] \<Rightarrow> (Receiving, sc)
     | key # _ \<Rightarrow> drive k w spec (receive (\<lambda>_. 9) w key (Inr StepSucceeded) sc))"
| "drive (Suc k) w spec c = c"

lemma drive_run: "sched_run w spec f0 n c \<Longrightarrow> \<exists>m. sched_run w spec f0 m (drive k w spec c)"
proof (induction k w spec c arbitrary: n rule: drive.induct)
  case (2 k w spec sc)
  then show ?case using "2.IH"[OF sched_run.Step[OF "2.prems" sched_step.Observe]] by simp
next
  case (3 k w spec sc)
  then show ?case using "3.IH"[OF sched_run.Step[OF "3.prems" sched_step.Dispatch]] by simp
next
  case (4 k w spec sc)
  then show ?case using "4.IH"[OF sched_run.Step[OF "4.prems" sched_step.Settle]] by simp
next
  case (5 k w spec sc)
  show ?case
  proof (cases "sc_in_flight sc")
    case Nil
    then show ?thesis using "5.prems" by auto
  next
    case (Cons key keys)
    then have "key \<in> set (sc_in_flight sc)" by simp
    from "5.IH"[OF Cons sched_run.Step[OF "5.prems" sched_step.Receive[OF this]]] Cons show ?thesis by simp
  qed
qed auto

definition example_start :: flow where
  "example_start = example_flow\<lparr>fl_record := (fl_record example_flow)\<lparr>wr_spec := example_workflow\<rparr>\<rparr>"

lemma example_drive:
  "fst (drive 20 (UuidId 30) example_workflow (Looping, sched_start example_workflow example_start)) = Finished"
  "no_cause (snd (drive 20 (UuidId 30) example_workflow (Looping, sched_start example_workflow example_start)))"
  by code_simp+

lemma example_workflow_wf: "workflow_wf example_workflow"
proof -
  have "validate_workflow example_workflow = Some (Inr ())" by code_simp
  then show ?thesis by (simp add: validate_workflow_iff)
qed

lemma example_run:
  obtains m sc where "sched_run (UuidId 30) example_workflow example_start m (Finished, sc)" and "no_cause sc"
  using drive_run[OF sched_run.Start, of "UuidId 30" example_workflow example_start 20] example_drive by (metis prod.collapse)

text \<open>A whole execution: the claim, the start, the loop driven to its end, and the conclusion.\<close>

definition created_hub :: hub where
  "created_hub = example_registered\<lparr>h_workflows := workflows_put ((flow_workflow 30)\<lparr>wr_spec := example_workflow\<rparr>) []\<rparr>"

definition started :: "(workflow_record + workflow_record) res \<times> hub" where
  "started = start_workflow 8 8 False (UuidId 30) (snd (claim_workflow (UuidId 30) created_hub))"

definition started_record :: workflow_record where
  "started_record = projr (projr (fst started))"

definition driven :: "sched_pc \<times> sched" where
  "driven = drive 20 (UuidId 30) example_workflow
     (Looping, sched_start example_workflow \<lparr>fl_hub = snd started, fl_record = started_record, fl_token = False\<rparr>)"

definition concluded :: "workflow_record res \<times> hub" where
  "concluded = (let sc = snd driven in conclude_workflow 9 9 (fl_record (sc_flow sc)) (sc_failure sc) (sc_reason sc) (length (sc_completed sc)) (fl_hub (sc_flow sc)))"

lemma example_execution:
  "fst (claim_workflow (UuidId 30) created_hub) = Inr ()" "\<not> isl (fst started)" "\<not> isl (projr (fst started))" "wr_spec started_record = example_workflow"
  "fst driven = Finished" "map_sum id wr_state (fst concluded) = Inr Wf_Succeeded"
  by code_simp+

lemma example_executes: "execute_workflow (UuidId 30) created_hub (fst concluded) (release_workflow (UuidId 30) (snd concluded))"
proof -
  let ?f = "\<lparr>fl_hub = snd started, fl_record = started_record, fl_token = False\<rparr>"
  have claim: "claim_workflow (UuidId 30) created_hub = (Inr (), snd (claim_workflow (UuidId 30) created_hub))"
    using example_execution(1) by (metis prod.collapse)
  have "fst started = Inr (Inr started_record)" unfolding started_record_def using example_execution(2,3) by (metis sum.collapse(2))
  then have start: "start_workflow 8 8 False (UuidId 30) (snd (claim_workflow (UuidId 30) created_hub)) = (Inr (Inr started_record), snd started)"
    unfolding started_def[symmetric] by (metis prod.collapse)
  obtain m where "sched_run (UuidId 30) example_workflow ?f m driven"
    unfolding driven_def using drive_run[OF sched_run.Start] by blast
  then have run: "sched_run (UuidId 30) (wr_spec started_record) ?f m (Finished, snd driven)"
    using example_execution(4,5) by (metis prod.collapse)
  have "conclude_workflow 9 9 (fl_record (sc_flow (snd driven))) (sc_failure (snd driven)) (sc_reason (snd driven))
      (length (sc_completed (snd driven))) (fl_hub (sc_flow (snd driven))) = (fst concluded, snd concluded)"
    by (simp add: concluded_def Let_def)
  from execute_workflow.Ran[OF claim start run this] show ?thesis .
qed

section \<open>Properties\<close>

text \<open>
  C1. The scheduler is safe. Whatever the workers report and in whatever order, and whatever other
  threads do to the flow meanwhile, at most the declared number of workers is in flight, no step
  is started twice, and a step is started only after all its dependencies succeeded and with
  an artifact for each of its declared inputs. When the loop ends without a failure and without a
  cancellation every step has succeeded. It never stalls: the only error it can end with is that a
  registered run is missing from the store.
\<close>
theorem scheduler_safe:
  assumes "workflow_wf spec" and "sched_run w spec f0 n (pc, sc)"
  shows "length (sc_in_flight sc) \<le> concurrency_limit spec \<and> distinct (map fst (sc_spawned sc)) \<and> started_ready spec sc
    \<and> (pc = Finished \<and> no_cause sc \<longrightarrow> set (sc_completed sc) = step_keys spec)
    \<and> (\<forall>e. pc = Aborted e \<longrightarrow> (\<exists>i. e = RunNotFound i))"
proof -
  have inv: "sched_inv spec f0 sc" "at_pc spec pc sc" using run_inv[OF assms] by simp_all
  have "length (sc_in_flight sc) \<le> concurrency_limit spec \<and> distinct (map fst (sc_spawned sc)) \<and> started_ready spec sc"
    using inv(1) by (simp add: sched_inv_def)
  moreover have "pc = Finished \<and> no_cause sc \<longrightarrow> set (sc_completed sc) = step_keys spec" using run_done_all inv by blast
  moreover have "\<forall>e. pc = Aborted e \<longrightarrow> (\<exists>i. e = RunNotFound i)" using inv(2) by (cases pc) simp_all
  ultimately show ?thesis by blast
qed

theorem scheduler_safe_witness:
  "\<exists>m sc. sched_run (UuidId 30) example_workflow example_start m (Finished, sc) \<and> set (sc_completed sc) = {''a'', ''b'', ''c''}"
proof -
  obtain m sc where run: "sched_run (UuidId 30) example_workflow example_start m (Finished, sc)" "no_cause sc" by (rule example_run)
  have "step_keys example_workflow = {''a'', ''b'', ''c''}" by (auto simp: example_workflow_def example_step_def)
  then show ?thesis using scheduler_safe[OF example_workflow_wf run(1)] run by auto
qed

text \<open>
  C13. The scheduler ends. Among any number of steps of other threads it makes at most five steps
  of its own for each step of the workflow and four more, and as long as it has not ended it can go on: when
  it waits, a worker is in flight, and it takes the result of any of them.
\<close>
theorem scheduler_ends:
  assumes "workflow_wf spec" and "sched_run w spec f0 n (pc, sc)"
  shows "n \<le> 5 * length (ws_steps spec) + 4 \<and> (final pc \<or> (\<exists>c'. sched_step w spec (pc, sc) c'))"
  using run_inv[OF assms] run_progress by fastforce

theorem scheduler_ends_witness:
  "\<exists>m sc. sched_run (UuidId 30) example_workflow example_start m (Finished, sc) \<and> m \<le> 19"
proof -
  obtain m sc where run: "sched_run (UuidId 30) example_workflow example_start m (Finished, sc)" "no_cause sc" by (rule example_run)
  have "length (ws_steps example_workflow) = 3" by (simp add: example_workflow_def)
  then show ?thesis using scheduler_ends[OF example_workflow_wf run(1)] run(1) by auto
qed



end
