(* ===== verification/Hub_RemoteOps.thy ===== *)
theory Hub_RemoteOps
  imports Hub_Exec
begin

text \<open>
  The two strict importers of RemoteOps documents: backend qualifications
  (\<open>src/crates/hub-core/src/remoteops_qualification.rs\<close>) and host snapshots
  (\<open>src/crates/hub-core/src/remoteops_host_snapshot.rs\<close>). The JSON parser is a parameter: the wire
  form of a document, if it has one. Of a document that parses it is shown which tasks the
  imported backend admits.
\<close>

section \<open>Model\<close>

subsection \<open>Qualifications\<close>

definition REMOTEOPS_BACKEND_QUALIFICATION_V2_SCHEMA :: string where
  "REMOTEOPS_BACKEND_QUALIFICATION_V2_SCHEMA = ''remoteops.backend-qualification/v2''"
definition MAX_REMOTEOPS_QUALIFICATION_JSON_BYTES :: nat where "MAX_REMOTEOPS_QUALIFICATION_JSON_BYTES = 16 * 1024"
definition MAX_REMOTEOPS_BACKEND_NAME_BYTES :: nat where "MAX_REMOTEOPS_BACKEND_NAME_BYTES = 128"
definition MAX_REMOTEOPS_EVIDENCE_ID_BYTES :: nat where "MAX_REMOTEOPS_EVIDENCE_ID_BYTES = 256"

datatype remoteops_isolation = SupervisedProcess | ContainerIsolation | UserspaceKernel | MicroVmIsolation

fun isolation_to_hub :: "remoteops_isolation \<Rightarrow> isolation_level" where
  "isolation_to_hub SupervisedProcess = Iso_Process"
| "isolation_to_hub ContainerIsolation = Iso_Container"
| "isolation_to_hub UserspaceKernel = Iso_Gvisor"
| "isolation_to_hub MicroVmIsolation = Iso_MicroVm"

record remoteops_controls =
  rc_network_egress :: bool
  rc_default_deny_network :: bool
  rc_resource_limits :: bool

record remoteops_qualification =
  rq_backend :: string
  rq_isolation :: remoteops_isolation
  rq_isolation_qualified :: bool
  rq_controls :: remoteops_controls
  rq_evidence_id :: "string option"

text \<open>A JSON value as far as the evidence field distinguishes it.\<close>

datatype json_field = JsonNull | JsonString string | JsonOther

record qualification_wire =
  qw_schema :: string
  qw_backend :: string
  qw_isolation :: remoteops_isolation
  qw_isolation_qualified :: bool
  qw_controls :: remoteops_controls
  qw_evidence_id :: json_field

datatype qualification_error = QDocumentTooLarge | QInvalidJson | QUnsupportedSchema | QInvalidBackend | QInvalidEvidence
  | QMissingEvidence | QSupervisedProcessCannotBeQualified

fun qualification_error_text :: "qualification_error \<Rightarrow> string" where
  "qualification_error_text QDocumentTooLarge = ''RemoteOps qualification document exceeds the size limit''"
| "qualification_error_text QInvalidJson = ''RemoteOps qualification document is invalid''"
| "qualification_error_text QUnsupportedSchema = ''unsupported RemoteOps qualification schema''"
| "qualification_error_text QInvalidBackend = ''RemoteOps backend name is invalid''"
| "qualification_error_text QInvalidEvidence = ''RemoteOps qualification evidence reference is invalid''"
| "qualification_error_text QMissingEvidence = ''RemoteOps qualification claims require an evidence reference''"
| "qualification_error_text QSupervisedProcessCannotBeQualified = ''supervised process cannot claim qualified isolation''"

definition ascii_lower :: "char \<Rightarrow> char" where
  "ascii_lower c = (if is_ascii_uppercase c then char_of (byte_of c + 32) else c)"

definition SECRET_MARKERS :: "string list" where
  "SECRET_MARKERS = [''token='', ''api_key='', ''apikey='', ''secret='', ''-----begin'']"

definition validate_label :: "string \<Rightarrow> nat \<Rightarrow> qualification_error \<Rightarrow> qualification_error + unit" where
  "validate_label value maximum err =
     (let lower = map ascii_lower value;
          contains_secret_marker = list_ex (\<lambda>marker. str_contains marker lower) SECRET_MARKERS in
      if value = [] \<or> length value > maximum \<or> trim value \<noteq> value \<or> list_ex is_control (chars value) \<or> contains_secret_marker
      then Inl err else Inr ())"

definition parse_qualification :: "(string \<Rightarrow> qualification_wire option) \<Rightarrow> string \<Rightarrow> qualification_error + remoteops_qualification" where
  "parse_qualification from_str json =
     (if length json > MAX_REMOTEOPS_QUALIFICATION_JSON_BYTES then Inl QDocumentTooLarge
      else rbind (ok_or QInvalidJson (from_str json)) (\<lambda>wire.
        if qw_schema wire \<noteq> REMOTEOPS_BACKEND_QUALIFICATION_V2_SCHEMA then Inl QUnsupportedSchema
        else rbind (case qw_evidence_id wire of JsonNull \<Rightarrow> Inr None | JsonString v \<Rightarrow> Inr (Some v) | JsonOther \<Rightarrow> Inl QInvalidJson) (\<lambda>evidence.
        rbind (validate_label (qw_backend wire) MAX_REMOTEOPS_BACKEND_NAME_BYTES QInvalidBackend) (\<lambda>_.
        if qw_isolation wire = SupervisedProcess \<and> qw_isolation_qualified wire then Inl QSupervisedProcessCannotBeQualified
        else
          let claims_qualification = qw_isolation_qualified wire \<or> rc_network_egress (qw_controls wire)
                \<or> rc_default_deny_network (qw_controls wire) \<or> rc_resource_limits (qw_controls wire)
          in
          rbind (case evidence of
                   Some v \<Rightarrow> validate_label v MAX_REMOTEOPS_EVIDENCE_ID_BYTES QInvalidEvidence
                 | None \<Rightarrow> if claims_qualification then Inl QMissingEvidence else Inr ()) (\<lambda>_.
          Inr \<lparr>rq_backend = qw_backend wire, rq_isolation = qw_isolation wire, rq_isolation_qualified = qw_isolation_qualified wire,
               rq_controls = qw_controls wire, rq_evidence_id = evidence\<rparr>)))))"

definition to_sandbox_backend_descriptor :: "remoteops_qualification \<Rightarrow> backend_descriptor" where
  "to_sandbox_backend_descriptor q =
     \<lparr>bd_backend_id = rq_backend q, bd_isolation = isolation_to_hub (rq_isolation q), bd_isolation_qualified = rq_isolation_qualified q,
      bd_isolation_evidence_id = (if rq_isolation_qualified q then rq_evidence_id q else None),
      bd_enforces_network_policy = rc_network_egress (rq_controls q),
      bd_enforces_default_deny_network = rc_default_deny_network (rq_controls q),
      bd_enforces_workspace_write_policy = False,
      bd_resources = \<lparr>re_wall_clock_ms = False, re_cpu_millis = False, re_memory_bytes = False, re_gpu_devices = False,
        re_model_tokens = False\<rparr>,
      bd_capabilities = []\<rparr>"

subsection \<open>Host snapshots\<close>

definition REMOTEOPS_HOST_CAPABILITY_SNAPSHOT_V1_SCHEMA :: string where
  "REMOTEOPS_HOST_CAPABILITY_SNAPSHOT_V1_SCHEMA = ''remoteops.host-capability-snapshot/v1''"
definition MAX_REMOTEOPS_HOST_CAPABILITY_SNAPSHOT_BYTES :: nat where "MAX_REMOTEOPS_HOST_CAPABILITY_SNAPSHOT_BYTES = 16 * 1024"

record command_observation =
  co_present :: bool
  co_executable :: "string option"
  co_version :: "string option"

record sandbox_observations =
  so_schema_version :: "8 word"
  so_os :: string
  so_arch :: string
  so_cgroup_v2 :: bool
  so_unprivileged_userns_clone :: "bool option"
  so_seccomp_mode :: "u64 option"
  so_apparmor_enabled :: "bool option"
  so_kvm_accessible :: bool
  so_bubblewrap :: command_observation
  so_podman :: command_observation
  so_docker :: command_observation
  so_runsc :: command_observation
  so_firecracker :: command_observation
  so_unshare :: command_observation
  so_systemd_run :: command_observation

datatype limit_observation = LimitUnknown | LimitUnbounded | Limited u64

record resource_observations =
  rso_schema_version :: "8 word"
  rso_cpu_logical_count :: "u64 option"
  rso_memory_total_bytes :: "u64 option"
  rso_cgroup_cpu_quota_millis :: limit_observation
  rso_cgroup_memory_limit_bytes :: limit_observation

record host_snapshot =
  hs_observed_at_unix_seconds :: u64
  hs_sandbox :: sandbox_observations
  hs_resources :: resource_observations

record snapshot_wire =
  sw_schema :: string
  sw_observed_at_unix_seconds :: u64
  sw_trust_status :: string
  sw_sandbox :: sandbox_observations
  sw_resources :: resource_observations

datatype snapshot_error = SDocumentTooLarge | SInvalidJson | SUnsupportedSchema | SInvalidTrustStatus | SUnsupportedSandboxSchema
  | SUnsupportedResourceSchema | SInvalidObservation

fun snapshot_error_text :: "snapshot_error \<Rightarrow> string" where
  "snapshot_error_text SDocumentTooLarge = ''RemoteOps host snapshot exceeds the size limit''"
| "snapshot_error_text SInvalidJson = ''RemoteOps host snapshot is invalid''"
| "snapshot_error_text SUnsupportedSchema = ''unsupported RemoteOps host snapshot schema''"
| "snapshot_error_text SInvalidTrustStatus = ''RemoteOps host snapshot is not an unsigned observation''"
| "snapshot_error_text SUnsupportedSandboxSchema = ''unsupported host sandbox observation schema''"
| "snapshot_error_text SUnsupportedResourceSchema = ''unsupported host resource observation schema''"
| "snapshot_error_text SInvalidObservation = ''RemoteOps host snapshot contains an invalid observation''"

definition valid_platform :: "string \<Rightarrow> bool" where
  "valid_platform value \<longleftrightarrow> value \<noteq> [] \<and> length value \<le> 64
     \<and> list_all (\<lambda>b. is_ascii_alphanumeric b \<or> b = CHR ''_'' \<or> b = CHR ''-'' \<or> b = CHR ''.'') value"

definition valid_probe :: "command_observation \<Rightarrow> bool" where
  "valid_probe p \<longleftrightarrow>
     (if \<not> co_present p \<and> (co_executable p \<noteq> None \<or> co_version p \<noteq> None) then False
      else (case co_executable p of None \<Rightarrow> True | Some s \<Rightarrow> s \<noteq> [] \<and> length s \<le> 4096 \<and> \<not> list_ex is_control (chars s))
        \<and> (case co_version p of None \<Rightarrow> True | Some s \<Rightarrow> s \<noteq> [] \<and> length s \<le> 512 \<and> \<not> list_ex is_control (chars s)))"

definition snapshot_probes :: "sandbox_observations \<Rightarrow> command_observation list" where
  "snapshot_probes s = [so_bubblewrap s, so_podman s, so_docker s, so_runsc s, so_firecracker s, so_unshare s, so_systemd_run s]"

definition parse_snapshot :: "(string \<Rightarrow> snapshot_wire option) \<Rightarrow> string \<Rightarrow> snapshot_error + host_snapshot" where
  "parse_snapshot from_str json =
     (if length json > MAX_REMOTEOPS_HOST_CAPABILITY_SNAPSHOT_BYTES then Inl SDocumentTooLarge
      else rbind (ok_or SInvalidJson (from_str json)) (\<lambda>wire.
        if sw_schema wire \<noteq> REMOTEOPS_HOST_CAPABILITY_SNAPSHOT_V1_SCHEMA then Inl SUnsupportedSchema
        else if sw_trust_status wire \<noteq> ''unsigned_observation'' then Inl SInvalidTrustStatus
        else if so_schema_version (sw_sandbox wire) \<noteq> 1 then Inl SUnsupportedSandboxSchema
        else if rso_schema_version (sw_resources wire) \<noteq> 2 then Inl SUnsupportedResourceSchema
        else if \<not> valid_platform (so_os (sw_sandbox wire)) \<or> \<not> valid_platform (so_arch (sw_sandbox wire))
            \<or> rso_cpu_logical_count (sw_resources wire) = Some 0 \<or> rso_memory_total_bytes (sw_resources wire) = Some 0
            \<or> list_ex (\<lambda>probe. \<not> valid_probe probe) (snapshot_probes (sw_sandbox wire))
        then Inl SInvalidObservation
        else Inr \<lparr>hs_observed_at_unix_seconds = sw_observed_at_unix_seconds wire, hs_sandbox = sw_sandbox wire, hs_resources = sw_resources wire\<rparr>))"

section \<open>Facts\<close>

text \<open>A label is a bounded token that carries no secret.\<close>

definition carries_secret :: "string \<Rightarrow> bool" where
  "carries_secret s \<longleftrightarrow> (\<exists>marker\<in>set SECRET_MARKERS. str_contains marker (map ascii_lower s))"

lemma validate_label_iff [result_simps]: "validate_label s n e = Inr u \<longleftrightarrow> bounded_token n s \<and> \<not> carries_secret s"
  by (auto simp: validate_label_def bounded_token_def carries_secret_def list_ex_iff list_all_iff not_less)

lemma bounded_token_mono: "bounded_token m s \<Longrightarrow> m \<le> n \<Longrightarrow> bounded_token n s"
  by (auto simp: bounded_token_def)

definition qualification_wf :: "remoteops_qualification \<Rightarrow> bool" where
  "qualification_wf q \<longleftrightarrow> bounded_token 128 (rq_backend q) \<and> \<not> carries_secret (rq_backend q)
     \<and> (rq_isolation q = SupervisedProcess \<longrightarrow> \<not> rq_isolation_qualified q)
     \<and> (case rq_evidence_id q of Some i \<Rightarrow> bounded_token 256 i \<and> \<not> carries_secret i
        | None \<Rightarrow> \<not> rq_isolation_qualified q \<and> rq_controls q = \<lparr>rc_network_egress = False, rc_default_deny_network = False, rc_resource_limits = False\<rparr>)"

lemma parse_qualification_wf:
  assumes "parse_qualification from_str json = Inr q"
  shows "qualification_wf q"
  using assms
  by (auto simp: parse_qualification_def result_simps qualification_wf_def Let_def MAX_REMOTEOPS_BACKEND_NAME_BYTES_def
      MAX_REMOTEOPS_EVIDENCE_ID_BYTES_def split: if_splits json_field.splits option.splits)

lemma parse_snapshot_iff:
  "parse_snapshot from_str json = Inr h \<longleftrightarrow> length json \<le> 16384
     \<and> from_str json = Some \<lparr>sw_schema = REMOTEOPS_HOST_CAPABILITY_SNAPSHOT_V1_SCHEMA,
         sw_observed_at_unix_seconds = hs_observed_at_unix_seconds h, sw_trust_status = ''unsigned_observation'',
         sw_sandbox = hs_sandbox h, sw_resources = hs_resources h\<rparr>
     \<and> so_schema_version (hs_sandbox h) = 1 \<and> rso_schema_version (hs_resources h) = 2
     \<and> valid_platform (so_os (hs_sandbox h)) \<and> valid_platform (so_arch (hs_sandbox h))
     \<and> rso_cpu_logical_count (hs_resources h) \<noteq> Some 0 \<and> rso_memory_total_bytes (hs_resources h) \<noteq> Some 0
     \<and> (\<forall>probe\<in>set (snapshot_probes (hs_sandbox h)). valid_probe probe)"
proof -
  have wire: "w = \<lparr>sw_schema = a, sw_observed_at_unix_seconds = b, sw_trust_status = c, sw_sandbox = d, sw_resources = e\<rparr>
      \<longleftrightarrow> sw_schema w = a \<and> sw_observed_at_unix_seconds w = b \<and> sw_trust_status w = c \<and> sw_sandbox w = d \<and> sw_resources w = e"
    for w :: snapshot_wire and a b c d e
    by (cases w) auto
  show ?thesis
  proof (cases "from_str json")
    case None
    then show ?thesis by (simp add: parse_snapshot_def)
  next
    case (Some w)
    then show ?thesis
      by (cases h) (auto simp: parse_snapshot_def wire MAX_REMOTEOPS_HOST_CAPABILITY_SNAPSHOT_BYTES_def list_ex_iff)
  qed
qed

lemma isolation_to_hub_Process: "isolation_to_hub i = Iso_Process \<longleftrightarrow> i = SupervisedProcess"
  by (cases i) simp_all

text \<open>The projection gives a descriptor the hub admits exactly when the stronger isolations are qualified.\<close>

lemma projected_descriptor_wf:
  assumes "qualification_wf q"
  shows "descriptor_wf (to_sandbox_backend_descriptor q) \<longleftrightarrow> rq_isolation_qualified q \<or> rq_isolation q = SupervisedProcess"
  using assms bounded_token_mono [of 128 "rq_backend q" 256]
  by (auto simp: qualification_wf_def descriptor_wf_def to_sandbox_backend_descriptor_def isolation_to_hub_Process
      capability_set_wf_def tokens_wf_def split: option.splits)

section \<open>Properties\<close>

definition example_qualification_wire :: qualification_wire where
  "example_qualification_wire = \<lparr>qw_schema = ''remoteops.backend-qualification/v2'', qw_backend = ''runsc'', qw_isolation = UserspaceKernel,
     qw_isolation_qualified = True,
     qw_controls = \<lparr>rc_network_egress = True, rc_default_deny_network = True, rc_resource_limits = True\<rparr>,
     qw_evidence_id = JsonString ''qualification/runsc''\<rparr>"

definition example_qualification :: remoteops_qualification where
  "example_qualification = \<lparr>rq_backend = ''runsc'', rq_isolation = UserspaceKernel, rq_isolation_qualified = True,
     rq_controls = \<lparr>rc_network_egress = True, rc_default_deny_network = True, rc_resource_limits = True\<rparr>,
     rq_evidence_id = Some ''qualification/runsc''\<rparr>"

definition unbudgeted_task :: task_spec where
  "unbudgeted_task = example_task\<lparr>ts_capabilities := [],
     ts_budget := \<lparr>rb_cpu_millis = None, rb_memory_bytes = None, rb_wall_clock_ms = None, rb_gpu_devices = None, rb_model_tokens = None\<rparr>\<rparr>"

lemma example_qualification_parses: "parse_qualification (\<lambda>_. Some example_qualification_wire) ''{}'' = Inr example_qualification"
  by code_simp

lemma unbudgeted_task_wf: "validate_task unbudgeted_task = Inr ()"
  by code_simp

text \<open>C23. Of a RemoteOps qualification document that is accepted, whatever the JSON parser, the tasks
  that the imported backend admits are exactly these: the well-formed ones that ask for no more than the
  document's isolation level, whose endpoints and default-deny network the document's controls cover, with a
  writable workspace, with no resource budget in any dimension and with no capability. A document that
  names a stronger isolation without qualifying it admits no task. The generic resource-limit flag never becomes
  the enforcement of a dimension.\<close>

theorem imported_qualification_admits:
  assumes "parse_qualification from_str json = Inr q"
  shows "backend_admit (to_sandbox_backend_descriptor q) t = Inr () \<longleftrightarrow>
     task_wf t \<and> (rq_isolation_qualified q \<or> rq_isolation q = SupervisedProcess)
     \<and> sb_minimum_isolation (ts_sandbox t) \<le> isolation_to_hub (rq_isolation q)
     \<and> (np_allowed_endpoints (sb_network (ts_sandbox t)) = [] \<or> rc_network_egress (rq_controls q))
     \<and> (np_default_deny (sb_network (ts_sandbox t)) \<longrightarrow> rc_default_deny_network (rq_controls q))
     \<and> sb_writable_workspace (ts_sandbox t)
     \<and> ts_budget t = \<lparr>rb_cpu_millis = None, rb_memory_bytes = None, rb_wall_clock_ms = None, rb_gpu_devices = None, rb_model_tokens = None\<rparr>
     \<and> ts_capabilities t = []"
  unfolding backend_admit_iff projected_descriptor_wf [OF parse_qualification_wf [OF assms]]
  by (cases "ts_budget t") (auto simp: enforces_def to_sandbox_backend_descriptor_def)

theorem imported_qualification_admits_witness:
  "parse_qualification (\<lambda>_. Some example_qualification_wire) ''{}'' = Inr example_qualification
   \<and> backend_admit (to_sandbox_backend_descriptor example_qualification) unbudgeted_task = Inr ()
   \<and> backend_admit (to_sandbox_backend_descriptor example_qualification) example_task \<noteq> Inr ()"
  using unbudgeted_task_wf [unfolded validate_task_iff] example_qualification_parses
    imported_qualification_admits [OF example_qualification_parses, of unbudgeted_task]
    imported_qualification_admits [OF example_qualification_parses, of example_task]
  by (simp add: example_qualification_def unbudgeted_task_def example_task_def default_network_policy_def less_eq_isolation_level_def)

end
