(* ===== verification/Hub_Worker.thy ===== *)
theory Hub_Worker
  imports Hub_Exec
begin

text \<open>
  The worker service (\<open>src/crates/hub-executor/src/worker.rs\<close>) over the wire types of
  \<open>src/crates/hub-protocol/src/distributed.rs\<close>: the lease book with its operations, the HTTP
  handlers, and the task that runs a lease. The operations take the lock of the book, so each is one
  step; a task takes it several times, so its phases are steps that interleave with those of the
  other tasks and with the handlers. The clock, the fresh lease identifier, the HTTP
  framework's extractors and the effects of an execution are parameters.
\<close>

section \<open>Model\<close>

subsection \<open>Wire types\<close>

definition WORKER_PROTOCOL_VERSION :: u16 where "WORKER_PROTOCOL_VERSION = 1"
definition PROCESS_EXECUTION_CAPABILITY :: string where "PROCESS_EXECUTION_CAPABILITY = ''process.execute.v1''"
definition WORKDIR_TOKEN :: string where "WORKDIR_TOKEN = ''{hub-workdir}''"

record worker_descriptor =
  wd_protocol_version :: u16
  wd_worker_id :: string
  wd_capabilities :: "string list"
  wd_max_payload_bytes :: u64
  wd_heartbeat_interval_ms :: u64

record remote_file =
  rf_path :: string
  rf_bytes :: bytes

record remote_execution_request =
  rx_program :: string
  rx_args :: "string list"
  rx_env :: "(string, string) btree"
  rx_timeout_ms :: u64
  rx_max_capture_bytes_per_stream :: nat
  rx_directories :: "string list"
  rx_files :: "remote_file list"

record lease_create_request =
  lcr_protocol_version :: u16
  lcr_attempt_id :: string
  lcr_execution :: remote_execution_request

datatype lease_state = Lease_Queued | Lease_Running | Lease_Completed | Lease_Cancelled | Lease_Failed

fun lease_is_terminal :: "lease_state \<Rightarrow> bool" where
  "lease_is_terminal Lease_Completed = True"
| "lease_is_terminal Lease_Cancelled = True"
| "lease_is_terminal Lease_Failed = True"
| "lease_is_terminal _ = False"

fun lease_state_debug :: "lease_state \<Rightarrow> string" where
  "lease_state_debug Lease_Queued = ''Queued''"
| "lease_state_debug Lease_Running = ''Running''"
| "lease_state_debug Lease_Completed = ''Completed''"
| "lease_state_debug Lease_Cancelled = ''Cancelled''"
| "lease_state_debug Lease_Failed = ''Failed''"

record lease_create_response =
  lcp_lease_id :: string
  lcp_attempt_id :: string
  lcp_worker_id :: string
  lcp_state :: lease_state
  lcp_expires_at_ms :: u64

record remote_execution_result =
  rxr_outcome :: execution_outcome
  rxr_files :: "remote_file list"

record lease_status_response =
  lsr_lease_id :: string
  lsr_attempt_id :: string
  lsr_worker_id :: string
  lsr_state :: lease_state
  lsr_last_heartbeat_ms :: u64
  lsr_expires_at_ms :: u64
  lsr_result :: "remote_execution_result option"
  lsr_error :: "message option"

subsection \<open>The lease book\<close>

definition HEARTBEAT_INTERVAL_MS :: u64 where "HEARTBEAT_INTERVAL_MS = 250"
definition LEASE_GRACE_MS :: u64 where "LEASE_GRACE_MS = 30000"

text \<open>The cancellation token of a lease is shared by the entry and its task: a flag of the entry.\<close>

record lease_entry =
  le_attempt_id :: string
  le_execution :: remote_execution_request
  le_state :: lease_state
  le_last_heartbeat_ms :: u64
  le_expires_at_ms :: u64
  le_result :: "remote_execution_result option"
  le_error :: "message option"
  le_cancelled :: bool

record lease_book =
  lb_draining :: bool
  lb_leases :: "(string, lease_entry) btree"
  lb_attempts :: "(string, string) btree"

record worker =
  w_id :: string
  w_token :: string
  w_work_root :: string
  w_max_payload_bytes :: nat

definition empty_book :: lease_book where
  "empty_book = \<lparr>lb_draining = False, lb_leases = [], lb_attempts = []\<rparr>"

definition worker_new :: "message option \<Rightarrow> string \<Rightarrow> string \<Rightarrow> string \<Rightarrow> nat \<Rightarrow> message + (worker \<times> lease_book)" where
  "worker_new create_dir_error worker_id token work_root max_payload_bytes =
     (if trim worker_id = [] then Inl (plain ''worker id must not be empty'')
      else if token = [] then Inl (plain ''worker bearer token must not be empty'')
      else if max_payload_bytes = 0 then Inl (plain ''worker max payload bytes must be greater than zero'')
      else case create_dir_error of
        Some e \<Rightarrow> Inl (Fmt ''creating worker work root {work_root:?}: {e}'' [FDebug work_root, FMsg e])
      | None \<Rightarrow> Inr (\<lparr>w_id = worker_id, w_token = token, w_work_root = work_root, w_max_payload_bytes = max_payload_bytes\<rparr>, empty_book))"

definition worker_describe :: "worker \<Rightarrow> worker_descriptor" where
  "worker_describe w =
     \<lparr>wd_protocol_version = WORKER_PROTOCOL_VERSION, wd_worker_id = w_id w, wd_capabilities = [PROCESS_EXECUTION_CAPABILITY],
      wd_max_payload_bytes = word_of_nat (w_max_payload_bytes w), wd_heartbeat_interval_ms = HEARTBEAT_INTERVAL_MS\<rparr>"

definition drain_entry :: "u64 \<Rightarrow> lease_entry \<Rightarrow> lease_entry" where
  "drain_entry now e =
     (if lease_is_terminal (le_state e) then e
      else let e = e\<lparr>le_cancelled := True\<rparr> in
        if le_state e = Lease_Queued then e\<lparr>le_state := Lease_Cancelled, le_last_heartbeat_ms := now\<rparr> else e)"

definition active_lease_count :: "lease_book \<Rightarrow> nat" where
  "active_lease_count b = length (filter (\<lambda>e. \<not> lease_is_terminal (le_state e)) (bt_values (lb_leases b)))"

definition begin_draining :: "u64 \<Rightarrow> lease_book \<Rightarrow> nat \<times> lease_book" where
  "begin_draining now b =
     (active_lease_count b, b\<lparr>lb_draining := True, lb_leases := map (\<lambda>(k, e). (k, drain_entry now e)) (lb_leases b)\<rparr>)"

definition authorize :: "worker \<Rightarrow> string option \<Rightarrow> bool" where
  "authorize w authorization =
     (case authorization of None \<Rightarrow> False
      | Some value \<Rightarrow> (case strip_prefix ''Bearer '' value of None \<Rightarrow> False | Some value \<Rightarrow> value = w_token w))"

datatype reserve_error = BadRequest message | Conflict message | Draining | PayloadTooLarge | Internal message

definition usize_checked_add :: "nat \<Rightarrow> nat \<Rightarrow> nat option" where
  "usize_checked_add a b = (if a + b < 2 ^ 64 then Some (a + b) else None)"

definition saturating_add :: "u64 \<Rightarrow> u64 \<Rightarrow> u64" where
  "saturating_add a b = (case checked_add a b of Some c \<Rightarrow> c | None \<Rightarrow> - 1)"

definition checked_relative_path :: "string \<Rightarrow> message + path_component list" where
  "checked_relative_path raw =
     (if raw = [] \<or> is_absolute raw then Inl (Fmt ''invalid workdir-relative path {raw:?}'' [FDebug raw])
      else rbind (try_for (\<lambda>c. case c of Normal _ \<Rightarrow> Inr () | _ \<Rightarrow> Inl (Fmt ''unsafe workdir-relative path {raw:?}'' [FDebug raw]))
                    (path_components raw)) (\<lambda>_. Inr (path_components raw)))"

definition create_response :: "worker \<Rightarrow> string \<Rightarrow> lease_entry \<Rightarrow> lease_create_response" where
  "create_response w lease_id e =
     \<lparr>lcp_lease_id = lease_id, lcp_attempt_id = le_attempt_id e, lcp_worker_id = w_id w, lcp_state = le_state e,
      lcp_expires_at_ms = le_expires_at_ms e\<rparr>"

definition check_lease_request :: "worker \<Rightarrow> lease_create_request \<Rightarrow> reserve_error + unit" where
  "check_lease_request w request =
     (if lcr_protocol_version request \<noteq> WORKER_PROTOCOL_VERSION then
        Inl (BadRequest (Fmt ''unsupported worker protocol {}; expected {}''
          [FNat (unat (lcr_protocol_version request)), FNat (unat WORKER_PROTOCOL_VERSION)]))
      else if trim (lcr_attempt_id request) = [] then Inl (BadRequest (plain ''attempt id must not be empty''))
      else rbind (try_fold (\<lambda>total f. ok_or (BadRequest (plain ''payload size overflow'')) (usize_checked_add total (length (rf_bytes f))))
                    0 (rx_files (lcr_execution request))) (\<lambda>input_bytes.
        if input_bytes > w_max_payload_bytes w then Inl PayloadTooLarge
        else try_for (\<lambda>f. rbind (map_err BadRequest (checked_relative_path (rf_path f))) (\<lambda>_. Inr ())) (rx_files (lcr_execution request))))"

definition new_lease :: "u64 \<Rightarrow> lease_create_request \<Rightarrow> lease_entry" where
  "new_lease now request =
     \<lparr>le_attempt_id = lcr_attempt_id request, le_execution = lcr_execution request, le_state = Lease_Queued, le_last_heartbeat_ms = now,
      le_expires_at_ms = saturating_add (saturating_add now (rx_timeout_ms (lcr_execution request))) LEASE_GRACE_MS,
      le_result = None, le_error = None, le_cancelled = False\<rparr>"

definition reserve_lease :: "worker \<Rightarrow> string \<Rightarrow> u64 \<Rightarrow> lease_create_request \<Rightarrow> lease_book
    \<Rightarrow> (reserve_error + lease_create_response) \<times> lease_book" where
  "reserve_lease w fresh now request b =
     (case check_lease_request w request of
        Inl e \<Rightarrow> (Inl e, b)
      | Inr _ \<Rightarrow>
        (case bt_get (lb_attempts b) (lcr_attempt_id request) of
           Some existing_id \<Rightarrow>
             (case bt_get (lb_leases b) existing_id of
                None \<Rightarrow> (Inl (Internal (plain ''attempt index drift'')), b)
              | Some existing \<Rightarrow>
                  if le_execution existing \<noteq> lcr_execution request then
                    (Inl (Conflict (plain ''attempt id was reused with a different execution payload'')), b)
                  else (Inr (create_response w existing_id existing), b))
         | None \<Rightarrow>
             if lb_draining b then (Inl Draining, b)
             else (Inr (create_response w fresh (new_lease now request)),
                   b\<lparr>lb_attempts := bt_insert (lcr_attempt_id request) fresh (lb_attempts b),
                     lb_leases := bt_insert fresh (new_lease now request) (lb_leases b)\<rparr>)))"

definition lease_status :: "worker \<Rightarrow> string \<Rightarrow> lease_book \<Rightarrow> lease_status_response option" where
  "lease_status w lease_id b =
     map_option (\<lambda>e. \<lparr>lsr_lease_id = lease_id, lsr_attempt_id = le_attempt_id e, lsr_worker_id = w_id w, lsr_state = le_state e,
       lsr_last_heartbeat_ms = le_last_heartbeat_ms e, lsr_expires_at_ms = le_expires_at_ms e, lsr_result = le_result e,
       lsr_error = le_error e\<rparr>) (bt_get (lb_leases b) lease_id)"

text \<open>\<open>get_mut\<close> on an entry that exists: the entry is replaced.\<close>

definition set_lease :: "string \<Rightarrow> lease_entry \<Rightarrow> lease_book \<Rightarrow> lease_book" where
  "set_lease l e b = b\<lparr>lb_leases := bt_insert l e (lb_leases b)\<rparr>"

definition lease_cancel :: "string \<Rightarrow> lease_book \<Rightarrow> bool \<times> lease_book" where
  "lease_cancel l b =
     (case bt_get (lb_leases b) l of None \<Rightarrow> (False, b) | Some e \<Rightarrow> (True, set_lease l (e\<lparr>le_cancelled := True\<rparr>) b))"

definition heartbeat :: "u64 \<Rightarrow> string \<Rightarrow> lease_book \<Rightarrow> bool \<times> lease_book" where
  "heartbeat now l b =
     (case bt_get (lb_leases b) l of
        None \<Rightarrow> (False, b)
      | Some e \<Rightarrow> if lease_is_terminal (le_state e) then (False, b) else (True, set_lease l (e\<lparr>le_last_heartbeat_ms := now\<rparr>) b))"

definition mark_running :: "u64 \<Rightarrow> string \<Rightarrow> lease_book \<Rightarrow> (message + remote_execution_request) \<times> lease_book" where
  "mark_running now l b =
     (case bt_get (lb_leases b) l of
        None \<Rightarrow> (Inl (plain ''lease disappeared before execution''), b)
      | Some e \<Rightarrow>
          if le_state e \<noteq> Lease_Queued then
            (Inl (Fmt ''lease cannot start from terminal/non-queued state {:?}'' [FStr (lease_state_debug (le_state e))]), b)
          else if le_cancelled e then
            (Inl (plain ''lease was cancelled before execution''),
             set_lease l (e\<lparr>le_state := Lease_Cancelled, le_last_heartbeat_ms := now\<rparr>) b)
          else (Inr (le_execution e), set_lease l (e\<lparr>le_state := Lease_Running, le_last_heartbeat_ms := now\<rparr>) b))"

datatype completion_disposition = Stored | Duplicate

definition complete_result :: "u64 \<Rightarrow> string \<Rightarrow> remote_execution_result \<Rightarrow> lease_book \<Rightarrow> (message + completion_disposition) \<times> lease_book" where
  "complete_result now l result b =
     (case bt_get (lb_leases b) l of
        None \<Rightarrow> (Inl (plain ''lease disappeared before result commit''), b)
      | Some e \<Rightarrow>
          (case le_result e of
             Some existing \<Rightarrow> if existing = result then (Inr Duplicate, b) else (Inl (plain ''conflicting duplicate remote result''), b)
           | None \<Rightarrow>
               (Inr Stored,
                set_lease l (e\<lparr>le_state := (if eo_cancelled (rxr_outcome result) then Lease_Cancelled else Lease_Completed),
                  le_last_heartbeat_ms := now, le_result := Some result, le_error := None\<rparr>) b)))"

definition fail_lease :: "u64 \<Rightarrow> string \<Rightarrow> message \<Rightarrow> lease_book \<Rightarrow> lease_book" where
  "fail_lease now l err b =
     (case bt_get (lb_leases b) l of
        None \<Rightarrow> b
      | Some e \<Rightarrow>
          if \<not> lease_is_terminal (le_state e) then
            set_lease l (e\<lparr>le_state := Lease_Failed, le_last_heartbeat_ms := now, le_error := Some err\<rparr>) b
          else b)"

subsection \<open>Running a lease\<close>

definition expand_workdir_path :: "string \<Rightarrow> string \<Rightarrow> string" where
  "expand_workdir_path value root =
     (if value = WORKDIR_TOKEN then root
      else case strip_prefix (WORKDIR_TOKEN @ ''/'') value of
        Some relative \<Rightarrow> path_join root relative
      | None \<Rightarrow> value)"

definition lease_execution_request :: "string \<Rightarrow> remote_execution_request \<Rightarrow> execution_request" where
  "lease_execution_request root x =
     \<lparr>er_program = rx_program x, er_args = map (\<lambda>value. expand_workdir_path value root) (rx_args x), er_working_dir = root,
      er_env = map (\<lambda>(key, value). (key, expand_workdir_path value root)) (rx_env x),
      er_timeout_ms = rx_timeout_ms x, er_max_capture_bytes_per_stream = rx_max_capture_bytes_per_stream x\<rparr>"

text \<open>
  What the world does to one execution: preparing the directory, the process executor on
  its blocking thread (whose join may fail), and collecting the files.
\<close>

record lease_world =
  lw_prepare :: "string \<Rightarrow> remote_execution_request \<Rightarrow> message + unit"
  lw_execute :: "execution_request \<Rightarrow> message + (executor_failure + execution_outcome)"
  lw_collect :: "string \<Rightarrow> message + remote_file list"

definition run_execution :: "worker \<Rightarrow> lease_world \<Rightarrow> string \<Rightarrow> remote_execution_request \<Rightarrow> message + remote_execution_result" where
  "run_execution w world l x =
     (let root = path_join (w_work_root w) l in
      rbind (lw_prepare world root x) (\<lambda>_.
      rbind (case lw_execute world (lease_execution_request root x) of
               Inr (Inr out) \<Rightarrow> Inr out
             | Inr (Inl e) \<Rightarrow> Inl (Fmt ''worker executor backend failed: {error}'' [FMsg (failure_message e)])
             | Inl e \<Rightarrow> Inl (Fmt ''worker execution task failed: {error}'' [FMsg e])) (\<lambda>out.
      rbind (lw_collect world root) (\<lambda>files. Inr \<lparr>rxr_outcome = out, rxr_files = files\<rparr>))))"

text \<open>A task of \<open>run_lease\<close> between two of its calls on the book.\<close>

datatype runner = Starting string | Executing string remote_execution_request | Committing string remote_execution_result
  | Failing string message

record worker_state =
  wk_book :: lease_book
  wk_runners :: "runner list"
  wk_started :: "(string \<times> remote_execution_request) list"

text \<open>\<open>wk_started\<close> records the executions begun, with their payload.\<close>

definition run_lease_step :: "worker \<Rightarrow> lease_world \<Rightarrow> u64 \<Rightarrow> runner \<Rightarrow> worker_state \<Rightarrow> runner list \<times> worker_state" where
  "run_lease_step w world now r s =
     (case r of
        Starting l \<Rightarrow>
          (case mark_running now l (wk_book s) of
             (Inr x, b) \<Rightarrow> ([Executing l x], s\<lparr>wk_book := b, wk_started := wk_started s @ [(l, x)]\<rparr>)
           | (Inl e, b) \<Rightarrow> ([Failing l e], s\<lparr>wk_book := b\<rparr>))
      | Executing l x \<Rightarrow>
          (case run_execution w world l x of Inr result \<Rightarrow> ([Committing l result], s) | Inl e \<Rightarrow> ([Failing l e], s))
      | Committing l result \<Rightarrow>
          (case complete_result now l result (wk_book s) of
             (Inr _, b) \<Rightarrow> ([], s\<lparr>wk_book := b\<rparr>)
           | (Inl e, b) \<Rightarrow> ([Failing l e], s\<lparr>wk_book := b\<rparr>))
      | Failing l e \<Rightarrow> ([], s\<lparr>wk_book := fail_lease now l e (wk_book s)\<rparr>))"

subsection \<open>Handlers\<close>

datatype response_body = Empty_Body | Error_Body message | Descriptor_Body worker_descriptor
  | Created_Body lease_create_response | Status_Body lease_status_response

type_synonym http_response = "nat \<times> response_body"

definition unauthorized :: http_response where
  "unauthorized = (401, Error_Body (plain ''worker authorization refused''))"

definition describe_worker :: "worker \<Rightarrow> string option \<Rightarrow> worker_state \<Rightarrow> http_response" where
  "describe_worker w authorization s =
     (if \<not> authorize w authorization then unauthorized
      else if lb_draining (wk_book s) then (503, Error_Body (plain ''worker is draining''))
      else (200, Descriptor_Body (worker_describe w)))"

fun reserve_error_response :: "reserve_error \<Rightarrow> http_response" where
  "reserve_error_response (BadRequest e) = (400, Error_Body e)"
| "reserve_error_response (Conflict e) = (409, Error_Body e)"
| "reserve_error_response Draining = (503, Error_Body (plain ''worker is draining and not accepting new leases''))"
| "reserve_error_response PayloadTooLarge = (413, Error_Body (plain ''remote payload exceeds worker limit''))"
| "reserve_error_response (Internal e) = (500, Error_Body e)"

definition create_lease :: "worker \<Rightarrow> string option \<Rightarrow> message + lease_create_request \<Rightarrow> string \<Rightarrow> u64 \<Rightarrow> worker_state
    \<Rightarrow> http_response \<times> worker_state" where
  "create_lease w authorization body fresh now s =
     (if \<not> authorize w authorization then (unauthorized, s)
      else case body of
        Inl e \<Rightarrow> ((400, Error_Body (Fmt ''invalid lease body: {error}'' [FMsg e])), s)
      | Inr request \<Rightarrow>
          (case reserve_lease w fresh now request (wk_book s) of
             (Inl e, b) \<Rightarrow> (reserve_error_response e, s\<lparr>wk_book := b\<rparr>)
           | (Inr response, b) \<Rightarrow>
               ((202, Created_Body response),
                s\<lparr>wk_book := b,
                  wk_runners := (if lcp_state response = Lease_Queued then wk_runners s @ [Starting (lcp_lease_id response)] else wk_runners s)\<rparr>)))"

definition get_lease :: "worker \<Rightarrow> string option \<Rightarrow> string \<Rightarrow> worker_state \<Rightarrow> http_response" where
  "get_lease w authorization l s =
     (if \<not> authorize w authorization then unauthorized
      else case lease_status w l (wk_book s) of
        Some status \<Rightarrow> (200, Status_Body status)
      | None \<Rightarrow> (404, Error_Body (plain ''lease not found'')))"

definition cancel_lease :: "worker \<Rightarrow> string option \<Rightarrow> string \<Rightarrow> worker_state \<Rightarrow> http_response \<times> worker_state" where
  "cancel_lease w authorization l s =
     (if \<not> authorize w authorization then (unauthorized, s)
      else case lease_cancel l (wk_book s) of
        (True, b) \<Rightarrow> ((202, Empty_Body), s\<lparr>wk_book := b\<rparr>)
      | (False, b) \<Rightarrow> ((404, Error_Body (plain ''lease not found'')), s\<lparr>wk_book := b\<rparr>))"

subsection \<open>Interleavings\<close>

text \<open>A lease identifier drawn by \<open>Uuid::new_v4\<close> is not one of the book.\<close>

inductive worker_step :: "worker \<Rightarrow> worker_state \<Rightarrow> worker_state \<Rightarrow> bool" for w where
  Create: "bt_get (lb_leases (wk_book s)) fresh = None \<Longrightarrow> worker_step w s (snd (create_lease w authorization body fresh now s))"
| Cancel: "worker_step w s (snd (cancel_lease w authorization l s))"
| Beat: "worker_step w s (s\<lparr>wk_book := snd (heartbeat now l (wk_book s))\<rparr>)"
| Drain: "worker_step w s (s\<lparr>wk_book := snd (begin_draining now (wk_book s))\<rparr>)"
| Run: "wk_runners s = xs @ r # ys \<Longrightarrow> run_lease_step w world now r s = (rs, t) \<Longrightarrow> worker_step w s (t\<lparr>wk_runners := xs @ rs @ ys\<rparr>)"

inductive worker_run :: "worker \<Rightarrow> worker_state \<Rightarrow> worker_state \<Rightarrow> bool" for w s where
  Refl: "worker_run w s s"
| Step: "worker_run w s t \<Longrightarrow> worker_step w t u \<Longrightarrow> worker_run w s u"

definition worker_start :: worker_state where
  "worker_start = \<lparr>wk_book = empty_book, wk_runners = [], wk_started = []\<rparr>"

section \<open>Specifications\<close>

text \<open>
  How a lease may change: its attempt, payload and expiry never, its result only once, and
  cancellation, the end of the queue and the end of the lease are for good.
\<close>

definition lease_le :: "lease_entry \<Rightarrow> lease_entry \<Rightarrow> bool" where
  "lease_le e e' \<longleftrightarrow> le_attempt_id e' = le_attempt_id e \<and> le_execution e' = le_execution e \<and> le_expires_at_ms e' = le_expires_at_ms e
     \<and> (\<forall>r. le_result e = Some r \<longrightarrow> le_result e' = Some r) \<and> (le_cancelled e \<longrightarrow> le_cancelled e')
     \<and> (lease_is_terminal (le_state e) \<longrightarrow> lease_is_terminal (le_state e')) \<and> (le_state e' = Lease_Queued \<longrightarrow> le_state e = Lease_Queued)"

definition book_le :: "lease_book \<Rightarrow> lease_book \<Rightarrow> bool" where
  "book_le b b' \<longleftrightarrow> (lb_draining b \<longrightarrow> lb_draining b')
     \<and> (\<forall>l e. bt_get (lb_leases b) l = Some e \<longrightarrow> (\<exists>e'. bt_get (lb_leases b') l = Some e' \<and> lease_le e e'))
     \<and> (\<forall>a l. bt_get (lb_attempts b) a = Some l \<longrightarrow> bt_get (lb_attempts b') a = Some l)"

text \<open>
  The index of attempts and the leases agree, a stored result ends its lease, and a
  draining worker has no queued lease and has cancelled the running ones.
\<close>

definition entry_ok :: "lease_entry \<Rightarrow> bool" where
  "entry_ok e \<longleftrightarrow> (le_result e \<noteq> None \<longrightarrow> lease_is_terminal (le_state e))"

definition winding_down :: "lease_entry \<Rightarrow> bool" where
  "winding_down e \<longleftrightarrow> lease_is_terminal (le_state e) \<or> le_state e = Lease_Running \<and> le_cancelled e"

definition attempt_of :: "lease_book \<Rightarrow> string \<Rightarrow> string option" where
  "attempt_of b l = map_option le_attempt_id (bt_get (lb_leases b) l)"

definition book_wf :: "lease_book \<Rightarrow> bool" where
  "book_wf b \<longleftrightarrow> bt_wf (lb_leases b) \<and> (\<forall>a l. bt_get (lb_attempts b) a = Some l \<longleftrightarrow> attempt_of b l = Some a)
     \<and> (\<forall>l e. bt_get (lb_leases b) l = Some e \<longrightarrow> entry_ok e \<and> (lb_draining b \<longrightarrow> winding_down e))"

definition state_of :: "lease_book \<Rightarrow> string \<Rightarrow> lease_state option" where
  "state_of b l = map_option le_state (bt_get (lb_leases b) l)"

fun works_on :: "string \<Rightarrow> runner \<Rightarrow> bool" where
  "works_on l (Starting _) = False"
| "works_on l (Executing l' _) = (l' = l)"
| "works_on l (Committing l' _) = (l' = l)"
| "works_on l (Failing l' _) = (l' = l)"

text \<open>Every lease that is not over has a task that ends it.\<close>

definition attended :: "worker_state \<Rightarrow> bool" where
  "attended s \<longleftrightarrow> (\<forall>l. (state_of (wk_book s) l = Some Lease_Queued \<longrightarrow> Starting l \<in> set (wk_runners s))
     \<and> (state_of (wk_book s) l = Some Lease_Running \<longrightarrow> (\<exists>r\<in>set (wk_runners s). works_on l r)))"

definition started_once :: "worker_state \<Rightarrow> bool" where
  "started_once s \<longleftrightarrow> distinct (map fst (wk_started s))
     \<and> (\<forall>(l, x)\<in>set (wk_started s). \<exists>e. bt_get (lb_leases (wk_book s)) l = Some e \<and> le_execution e = x \<and> le_state e \<noteq> Lease_Queued)"

definition worker_inv :: "worker_state \<Rightarrow> bool" where
  "worker_inv s \<longleftrightarrow> book_wf (wk_book s) \<and> attended s \<and> started_once s"

section \<open>Facts\<close>

text \<open>The bound over the integers, for evaluation.\<close>

lemma usize_checked_add_code [code]: "usize_checked_add a b = (if int (a + b) < 18446744073709551616 then Some (a + b) else None)"
  by (simp add: usize_checked_add_def)

subsection \<open>The book\<close>

lemma lease_le_refl [simp]: "lease_le e e"
  by (simp add: lease_le_def)

lemma lease_le_trans: "lease_le a b \<Longrightarrow> lease_le b c \<Longrightarrow> lease_le a c"
  by (auto simp: lease_le_def)

lemma book_le_refl [simp]: "book_le b b"
  by (simp add: book_le_def)

lemma book_le_trans:
  assumes "book_le a b" and "book_le b c"
  shows "book_le a c"
  unfolding book_le_def
proof (intro conjI allI impI)
  fix l e assume "bt_get (lb_leases a) l = Some e"
  then obtain e1 where 1: "bt_get (lb_leases b) l = Some e1" "lease_le e e1" using assms(1) unfolding book_le_def by blast
  from 1(1) obtain e2 where "bt_get (lb_leases c) l = Some e2" "lease_le e1 e2" using assms(2) unfolding book_le_def by blast
  then show "\<exists>e'. bt_get (lb_leases c) l = Some e' \<and> lease_le e e'" using lease_le_trans[OF 1(2)] by blast
qed (use assms in \<open>auto simp: book_le_def\<close>)

text \<open>One entry replaced by a later version of it.\<close>

definition entry_step :: "lease_book \<Rightarrow> lease_book \<Rightarrow> bool" where
  "entry_step b b' \<longleftrightarrow> b' = b \<or> (\<exists>l e e'. bt_get (lb_leases b) l = Some e \<and> lease_le e e' \<and> (entry_ok e \<longrightarrow> entry_ok e') \<and> b' = set_lease l e' b)"

lemma entry_step_le: "entry_step b b' \<Longrightarrow> book_le b b'"
  by (auto simp: entry_step_def book_le_def set_lease_def)

lemma entry_step_attempts:
  assumes "entry_step b b'"
  shows "attempt_of b' = attempt_of b" and "lb_attempts b' = lb_attempts b" and "lb_draining b' = lb_draining b"
  using assms by (auto simp: entry_step_def attempt_of_def set_lease_def lease_le_def fun_eq_iff)

lemma lease_le_winding_down: "lease_le e e' \<Longrightarrow> winding_down e \<Longrightarrow> winding_down e'"
  by (cases "le_state e'"; cases "le_state e") (auto simp: lease_le_def winding_down_def)

lemma entry_step_wf:
  assumes "entry_step b b'" and "book_wf b"
  shows "book_wf b'"
proof -
  have "bt_wf (lb_leases b')" using assms by (auto simp: entry_step_def book_wf_def set_lease_def)
  moreover have "entry_ok e \<and> (lb_draining b \<longrightarrow> winding_down e)" if "bt_get (lb_leases b') l = Some e" for l e
    using assms that lease_le_winding_down unfolding entry_step_def book_wf_def by (auto simp: set_lease_def split: if_splits)
  ultimately show ?thesis using assms(2) unfolding book_wf_def entry_step_attempts[OF assms(1)] by blast
qed

lemma entry_step_refl [simp]: "entry_step b b"
  by (simp add: entry_step_def)

lemma entry_step_set:
  "bt_get (lb_leases b) l = Some e \<Longrightarrow> lease_le e e' \<Longrightarrow> (entry_ok e \<Longrightarrow> entry_ok e') \<Longrightarrow> entry_step b (set_lease l e' b)"
  by (auto simp: entry_step_def)

lemma lease_cancel_step: "entry_step b (snd (lease_cancel l b))"
  by (auto simp: lease_cancel_def lease_le_def entry_ok_def split: option.splits intro!: entry_step_set)

lemma heartbeat_step: "entry_step b (snd (heartbeat now l b))"
  by (auto simp: heartbeat_def lease_le_def entry_ok_def split: option.splits intro!: entry_step_set)

lemma mark_running_step: "entry_step b (snd (mark_running now l b))"
  by (auto simp: mark_running_def lease_le_def entry_ok_def split: option.splits intro!: entry_step_set)

lemma complete_result_step: "entry_step b (snd (complete_result now l r b))"
  by (auto simp: complete_result_def lease_le_def entry_ok_def split: option.splits intro!: entry_step_set)

lemma fail_lease_step: "entry_step b (fail_lease now l e b)"
  by (auto simp: fail_lease_def lease_le_def entry_ok_def split: option.splits intro!: entry_step_set)

lemma drained_leases: "bt_get (lb_leases (snd (begin_draining now b))) l = map_option (drain_entry now) (bt_get (lb_leases b) l)"
  by (simp add: begin_draining_def map_of_map)

lemma drain_entry_le: "lease_le e (drain_entry now e) \<and> (entry_ok e \<longrightarrow> entry_ok (drain_entry now e)) \<and> winding_down (drain_entry now e)"
  by (cases "le_state e") (auto simp: drain_entry_def lease_le_def entry_ok_def winding_down_def Let_def)

lemma begin_draining_le: "book_le b (snd (begin_draining now b))"
  unfolding book_le_def drained_leases using drain_entry_le by (auto simp: begin_draining_def)

lemma begin_draining_wf:
  assumes "book_wf b"
  shows "book_wf (snd (begin_draining now b))"
proof -
  let ?b = "snd (begin_draining now b)"
  have "bt_keys (lb_leases ?b) = bt_keys (lb_leases b)" by (simp add: begin_draining_def case_prod_beta comp_def)
  moreover have "attempt_of ?b = attempt_of b"
    using drain_entry_le by (auto simp: attempt_of_def drained_leases fun_eq_iff option.map_comp comp_def lease_le_def)
  moreover have "lb_attempts ?b = lb_attempts b" by (simp add: begin_draining_def)
  moreover have "entry_ok e \<and> winding_down e" if "bt_get (lb_leases ?b) l = Some e" for l e
    using that assms drain_entry_le unfolding drained_leases book_wf_def by auto
  ultimately show ?thesis using assms unfolding book_wf_def bt_wf_def by presburger
qed

text \<open>A new lease, under an identifier that is not in use.\<close>

definition add_lease :: "string \<Rightarrow> lease_entry \<Rightarrow> lease_book \<Rightarrow> lease_book" where
  "add_lease l e b = b\<lparr>lb_attempts := bt_insert (le_attempt_id e) l (lb_attempts b), lb_leases := bt_insert l e (lb_leases b)\<rparr>"

lemma reserve_lease_cases:
  assumes "reserve_lease w fresh now request b = (q, b')"
  obtains (same) "b' = b" and "\<And>p. q = Inr p \<Longrightarrow> \<exists>e. bt_get (lb_leases b) (lcp_lease_id p) = Some e \<and> lcp_state p = le_state e"
  | (new) "\<not> lb_draining b" and "bt_get (lb_attempts b) (lcr_attempt_id request) = None" and "b' = add_lease fresh (new_lease now request) b"
      and "q = Inr (create_response w fresh (new_lease now request))"
proof (cases "check_lease_request w request")
  case (Inl e)
  then show ?thesis using assms by (intro same) (auto simp: reserve_lease_def)
next
  case ok: (Inr u)
  show ?thesis
  proof (cases "bt_get (lb_attempts b) (lcr_attempt_id request)")
    case None
    then show ?thesis using assms ok
      by (cases "lb_draining b") (auto intro: same new simp: reserve_lease_def add_lease_def new_lease_def)
  next
    case (Some l)
    then show ?thesis using assms ok
      by (intro same) (auto simp: reserve_lease_def create_response_def split: option.splits if_splits)
  qed
qed

lemma add_lease_le:
  assumes "bt_get (lb_leases b) l = None" and "bt_get (lb_attempts b) (le_attempt_id e) = None"
  shows "book_le b (add_lease l e b)"
  using assms by (auto simp: add_lease_def book_le_def)

lemma add_lease_wf:
  assumes "book_wf b" and "bt_get (lb_leases b) l = None" and "bt_get (lb_attempts b) (le_attempt_id e) = None"
    and "entry_ok e" and "\<not> lb_draining b"
  shows "book_wf (add_lease l e b)"
proof -
  have att: "attempt_of (add_lease l e b) = (attempt_of b)(l \<mapsto> le_attempt_id e)"
    by (auto simp: attempt_of_def add_lease_def)
  have none: "attempt_of b l = None" using assms(2) by (simp add: attempt_of_def)
  have index: "bt_get (lb_attempts b) a = Some k \<longleftrightarrow> attempt_of b k = Some a" for a k using assms(1) by (simp add: book_wf_def)
  have "bt_get (lb_attempts (add_lease l e b)) a = Some k \<longleftrightarrow> attempt_of (add_lease l e b) k = Some a" for a k
    using index[of a k] index[of a l] index[of "le_attempt_id e" k] none assms(3) unfolding att by (auto simp: add_lease_def)
  moreover have "bt_wf (lb_leases (add_lease l e b))" using assms(1) by (simp add: add_lease_def book_wf_def)
  moreover have "entry_ok x \<and> \<not> lb_draining (add_lease l e b)" if "bt_get (lb_leases (add_lease l e b)) k = Some x" for k x
    using that assms by (auto simp: add_lease_def book_wf_def split: if_splits)
  ultimately show ?thesis unfolding book_wf_def by blast
qed

subsection \<open>Steps\<close>

lemma create_lease_cases:
  assumes "snd (create_lease w authorization body fresh now s) = s'" and "bt_get (lb_leases (wk_book s)) fresh = None"
  obtains (same) "s' = s"
  | (replay) l where "bt_get (lb_leases (wk_book s)) l \<noteq> None" and "s' = s\<lparr>wk_runners := wk_runners s @ [Starting l]\<rparr>"
  | (new) request where "\<not> lb_draining (wk_book s)" and "bt_get (lb_attempts (wk_book s)) (lcr_attempt_id request) = None"
      and "s' = s\<lparr>wk_book := add_lease fresh (new_lease now request) (wk_book s), wk_runners := wk_runners s @ [Starting fresh]\<rparr>"
proof (cases "authorize w authorization")
  case False
  then show ?thesis using assms(1) by (intro same) (simp add: create_lease_def)
next
  case auth: True
  show ?thesis
  proof (cases body)
    case (Inl e)
    then show ?thesis using assms(1) auth by (intro same) (simp add: create_lease_def)
  next
    case (Inr request)
    obtain q b where r: "reserve_lease w fresh now request (wk_book s) = (q, b)" by (rule prod.exhaust)
    from r show ?thesis
    proof (cases rule: reserve_lease_cases)
      case same': same
      show ?thesis
      proof (cases "\<exists>p. q = Inr p \<and> lcp_state p = Lease_Queued")
        case True
        then obtain p where p: "q = Inr p" "lcp_state p = Lease_Queued" by blast
        from same'(2)[OF p(1)] have "bt_get (lb_leases (wk_book s)) (lcp_lease_id p) \<noteq> None" by auto
        moreover have "s' = s\<lparr>wk_runners := wk_runners s @ [Starting (lcp_lease_id p)]\<rparr>"
          using assms(1) auth Inr r same'(1) p by (simp add: create_lease_def)
        ultimately show ?thesis by (rule replay)
      next
        case False
        then show ?thesis using assms(1) auth Inr r same'(1)
          by (intro same) (auto simp: create_lease_def split: sum.splits)
      qed
    next
      case new': new
      have "lcp_state (create_response w fresh (new_lease now request)) = Lease_Queued" "lcp_lease_id (create_response w fresh (new_lease now request)) = fresh"
        by (simp_all add: create_response_def new_lease_def)
      then show ?thesis using assms(1) auth Inr r new' by (intro new[of request]) (simp_all add: create_lease_def)
    qed
  qed
qed

text \<open>What the calls of a task do to the state of its lease; the other leases keep theirs.\<close>

lemma mark_running_Inr:
  "mark_running now l b = (Inr x, b') \<longleftrightarrow> (\<exists>e. bt_get (lb_leases b) l = Some e \<and> le_state e = Lease_Queued \<and> \<not> le_cancelled e \<and> x = le_execution e
     \<and> b' = set_lease l (e\<lparr>le_state := Lease_Running, le_last_heartbeat_ms := now\<rparr>) b)"
  by (auto simp: mark_running_def split: option.splits)

lemma mark_running_Inl_state:
  assumes "mark_running now l b = (Inl m, b')"
  shows "state_of b' k = state_of b k \<or> (k = l \<and> state_of b' l = Some Lease_Cancelled)" and "state_of b' l \<noteq> Some Lease_Queued"
  using assms by (auto simp: mark_running_def state_of_def set_lease_def split: option.splits if_splits)

lemma complete_result_Inr_state:
  assumes "complete_result now l r b = (Inr d, b')" and "book_wf b"
  shows "k \<noteq> l \<Longrightarrow> state_of b' k = state_of b k" and "\<exists>st. state_of b' l = Some st \<and> lease_is_terminal st"
  using assms by (auto simp: complete_result_def state_of_def set_lease_def book_wf_def entry_ok_def split: option.splits if_splits)

lemma complete_result_Inl: "complete_result now l r b = (Inl m, b') \<Longrightarrow> b' = b"
  by (auto simp: complete_result_def split: option.splits if_splits)

lemma fail_lease_state:
  "k \<noteq> l \<Longrightarrow> state_of (fail_lease now l m b) k = state_of b k"
  "state_of (fail_lease now l m b) l = Some st \<Longrightarrow> lease_is_terminal st"
  by (auto simp: fail_lease_def state_of_def set_lease_def split: option.splits if_splits)

text \<open>The lease a task is for.\<close>

fun lease_of :: "runner \<Rightarrow> string" where
  "lease_of (Starting l) = l"
| "lease_of (Executing l _) = l"
| "lease_of (Committing l _) = l"
| "lease_of (Failing l _) = l"

lemma run_lease_step_cases:
  assumes "run_lease_step w world now r s = (rs, t)"
  obtains (start) l e where "r = Starting l" and "bt_get (lb_leases (wk_book s)) l = Some e" and "le_state e = Lease_Queued"
      and "rs = [Executing l (le_execution e)]" and "wk_started t = wk_started s @ [(l, le_execution e)]" and "wk_runners t = wk_runners s"
      and "wk_book t = set_lease l (e\<lparr>le_state := Lease_Running, le_last_heartbeat_ms := now\<rparr>) (wk_book s)"
  | (refuse) l m b where "r = Starting l" and "mark_running now l (wk_book s) = (Inl m, b)" and "rs = [Failing l m]" and "t = s\<lparr>wk_book := b\<rparr>"
  | (pass) r' where "rs = [r']" and "works_on (lease_of r) r'" and "t = s" and "\<And>l. r \<noteq> Starting l"
  | (commit) l res d b where "r = Committing l res" and "complete_result now l res (wk_book s) = (Inr d, b)" and "rs = []" and "t = s\<lparr>wk_book := b\<rparr>"
  | (fail) l m where "r = Failing l m" and "rs = []" and "t = s\<lparr>wk_book := fail_lease now l m (wk_book s)\<rparr>"
proof (cases r)
  case (Starting l)
  obtain q b where mb: "mark_running now l (wk_book s) = (q, b)" by (rule prod.exhaust)
  show ?thesis
  proof (cases q)
    case (Inl m)
    then show ?thesis using assms Starting mb by (intro refuse) (auto simp: run_lease_step_def)
  next
    case (Inr x)
    then obtain e where "bt_get (lb_leases (wk_book s)) l = Some e" "le_state e = Lease_Queued" "x = le_execution e"
      "b = set_lease l (e\<lparr>le_state := Lease_Running, le_last_heartbeat_ms := now\<rparr>) (wk_book s)"
      using mb by (auto simp: mark_running_Inr)
    with Inr show ?thesis using assms Starting mb by (intro start) (auto simp: run_lease_step_def)
  qed
next
  case (Executing l x)
  then show ?thesis using assms by (auto simp: run_lease_step_def split: sum.splits intro: pass)
next
  case (Committing l res)
  obtain q b where cb: "complete_result now l res (wk_book s) = (q, b)" by (rule prod.exhaust)
  show ?thesis
  proof (cases q)
    case (Inl m)
    then show ?thesis using assms Committing cb complete_result_Inl[of now l res "wk_book s" m b]
      by (intro pass[of "Failing l m"]) (auto simp: run_lease_step_def)
  next
    case (Inr d)
    then show ?thesis using assms Committing cb by (intro commit) (auto simp: run_lease_step_def)
  qed
next
  case (Failing l m)
  then show ?thesis using assms by (intro fail) (auto simp: run_lease_step_def)
qed

lemma run_lease_step_book:
  assumes "run_lease_step w world now r s = (rs, t)"
  shows "entry_step (wk_book s) (wk_book t)"
  using assms
proof (cases rule: run_lease_step_cases)
  case (start l e)
  then show ?thesis by (auto simp: lease_le_def entry_ok_def intro: entry_step_set)
next
  case (refuse l m b)
  then show ?thesis using mark_running_step[of "wk_book s" now l] by simp
next
  case (commit l res d b)
  then show ?thesis using complete_result_step[of "wk_book s" now l res] by simp
qed (simp_all add: fail_lease_step)

lemma worker_step_book:
  assumes "worker_step w s s'" and "book_wf (wk_book s)"
  shows "book_wf (wk_book s') \<and> book_le (wk_book s) (wk_book s')"
  using assms(1)
proof (cases rule: worker_step.cases)
  case (Create fresh authorization body now)
  from Create(1)[symmetric] Create(2) show ?thesis
  proof (cases rule: create_lease_cases)
    case (new request)
    then show ?thesis
      using add_lease_le[OF Create(2), of "new_lease now request"] add_lease_wf[OF assms(2) Create(2), of "new_lease now request"]
      by (simp add: new_lease_def entry_ok_def)
  qed (use assms(2) in simp_all)
next
  case (Cancel authorization l)
  then have "wk_book s' = wk_book s \<or> wk_book s' = snd (lease_cancel l (wk_book s))"
    by (auto simp: cancel_lease_def split: prod.splits bool.splits)
  then show ?thesis using assms(2) entry_step_le[OF lease_cancel_step] entry_step_wf[OF lease_cancel_step] by (elim disjE) simp_all
next
  case (Beat now l)
  then show ?thesis using assms(2) entry_step_le[OF heartbeat_step] entry_step_wf[OF heartbeat_step] by simp
next
  case (Drain now)
  then show ?thesis using assms(2) begin_draining_le begin_draining_wf by simp
next
  case (Run xs r ys world now rs t)
  then show ?thesis using assms(2) entry_step_le[OF run_lease_step_book] entry_step_wf[OF run_lease_step_book] by simp
qed

subsection \<open>Tasks\<close>

lemma attended_mono:
  assumes "attended s" and "set (wk_runners s) \<subseteq> set (wk_runners s')"
    and "\<And>l. state_of (wk_book s') l = state_of (wk_book s) l \<or> (\<exists>st. state_of (wk_book s') l = Some st \<and> lease_is_terminal st)"
  shows "attended s'"
  unfolding attended_def
proof (intro allI conjI impI)
  fix l
  assume "state_of (wk_book s') l = Some Lease_Queued"
  with assms(3)[of l] have "state_of (wk_book s) l = Some Lease_Queued" by auto
  with assms(1,2) show "Starting l \<in> set (wk_runners s')" by (auto simp: attended_def)
next
  fix l
  assume "state_of (wk_book s') l = Some Lease_Running"
  with assms(3)[of l] have "state_of (wk_book s) l = Some Lease_Running" by auto
  with assms(1,2) show "\<exists>r\<in>set (wk_runners s'). works_on l r" unfolding attended_def by blast
qed

lemma run_lease_step_state:
  assumes "run_lease_step w world now r s = (rs, t)" and "book_wf (wk_book s)"
  shows "k \<noteq> lease_of r \<Longrightarrow> state_of (wk_book t) k = state_of (wk_book s) k"
    and "state_of (wk_book t) (lease_of r) = Some Lease_Queued \<Longrightarrow> state_of (wk_book s) (lease_of r) = Some Lease_Queued \<and> (\<forall>l. r \<noteq> Starting l)"
    and "state_of (wk_book t) (lease_of r) = Some Lease_Running \<Longrightarrow> \<exists>r'\<in>set rs. works_on (lease_of r) r'"
proof -
  show "k \<noteq> lease_of r \<Longrightarrow> state_of (wk_book t) k = state_of (wk_book s) k"
    using assms(1)
  proof (cases rule: run_lease_step_cases)
    case (refuse l m b)
    then show "k \<noteq> lease_of r \<Longrightarrow> ?thesis" using mark_running_Inl_state(1)[OF refuse(2), of k] by auto
  next
    case (commit l res d b)
    then show "k \<noteq> lease_of r \<Longrightarrow> ?thesis" using complete_result_Inr_state(1)[OF commit(2) assms(2), of k] by simp
  next
    case (start l e)
    then show "k \<noteq> lease_of r \<Longrightarrow> ?thesis" by (simp add: state_of_def set_lease_def)
  qed (simp_all add: fail_lease_state)
  show "state_of (wk_book t) (lease_of r) = Some Lease_Queued \<Longrightarrow> state_of (wk_book s) (lease_of r) = Some Lease_Queued \<and> (\<forall>l. r \<noteq> Starting l)"
    using assms(1)
  proof (cases rule: run_lease_step_cases)
    case (start l e)
    then show "state_of (wk_book t) (lease_of r) = Some Lease_Queued \<Longrightarrow> ?thesis" by (simp add: state_of_def set_lease_def)
  next
    case (refuse l m b)
    then show "state_of (wk_book t) (lease_of r) = Some Lease_Queued \<Longrightarrow> ?thesis" using mark_running_Inl_state(2)[OF refuse(2)] by simp
  next
    case (commit l res d b)
    then show "state_of (wk_book t) (lease_of r) = Some Lease_Queued \<Longrightarrow> ?thesis" using complete_result_Inr_state(2)[OF commit(2) assms(2)] by auto
  next
    case (fail l m)
    then show "state_of (wk_book t) (lease_of r) = Some Lease_Queued \<Longrightarrow> ?thesis" using fail_lease_state(2)[of now l m "wk_book s" Lease_Queued] by auto
  qed simp
  show "state_of (wk_book t) (lease_of r) = Some Lease_Running \<Longrightarrow> \<exists>r'\<in>set rs. works_on (lease_of r) r'"
    using assms(1)
  proof (cases rule: run_lease_step_cases)
    case (commit l res d b)
    then show "state_of (wk_book t) (lease_of r) = Some Lease_Running \<Longrightarrow> ?thesis" using complete_result_Inr_state(2)[OF commit(2) assms(2)] by auto
  next
    case (fail l m)
    then show "state_of (wk_book t) (lease_of r) = Some Lease_Running \<Longrightarrow> ?thesis" using fail_lease_state(2)[of now l m "wk_book s" Lease_Running] by auto
  qed simp_all
qed

lemma run_lease_step_attended:
  assumes "attended s" and "book_wf (wk_book s)" and "wk_runners s = xs @ r # ys" and "run_lease_step w world now r s = (rs, t)"
  shows "attended (t\<lparr>wk_runners := xs @ rs @ ys\<rparr>)"
  unfolding attended_def
proof (intro allI conjI impI)
  note state = run_lease_step_state[OF assms(4,2)]
  fix l
  assume "state_of (wk_book (t\<lparr>wk_runners := xs @ rs @ ys\<rparr>)) l = Some Lease_Queued"
  then have "state_of (wk_book s) l = Some Lease_Queued" and "r \<noteq> Starting l"
    using state(1)[of l] state(2) by (cases "l = lease_of r"; auto)+
  with assms(1,3) show "Starting l \<in> set (wk_runners (t\<lparr>wk_runners := xs @ rs @ ys\<rparr>))" by (auto simp: attended_def)
next
  note state = run_lease_step_state[OF assms(4,2)]
  fix l
  assume run: "state_of (wk_book (t\<lparr>wk_runners := xs @ rs @ ys\<rparr>)) l = Some Lease_Running"
  show "\<exists>r'\<in>set (wk_runners (t\<lparr>wk_runners := xs @ rs @ ys\<rparr>)). works_on l r'"
  proof (cases "l = lease_of r")
    case True
    then show ?thesis using run state(3) by auto
  next
    case False
    then have "state_of (wk_book s) l = Some Lease_Running" using run state(1) by simp
    then obtain r' where "r' \<in> set (xs @ r # ys)" "works_on l r'" using assms(1,3) unfolding attended_def by metis
    moreover have "r' \<noteq> r" using False calculation(2) by (cases r) auto
    ultimately show ?thesis by auto
  qed
qed

lemma drained_state: "state_of (snd (begin_draining now b)) l = map_option (\<lambda>st. if st = Lease_Queued then Lease_Cancelled else st) (state_of b l)"
  by (cases "bt_get (lb_leases b) l") (auto simp: state_of_def drained_leases drain_entry_def Let_def)

lemma worker_step_attended:
  assumes "worker_step w s s'" and "book_wf (wk_book s)" and "attended s"
  shows "attended s'"
  using assms(1)
proof (cases rule: worker_step.cases)
  case (Create fresh authorization body now)
  from Create(1)[symmetric] Create(2) show ?thesis
  proof (cases rule: create_lease_cases)
    case (new request)
    have "state_of (wk_book s') = (state_of (wk_book s))(fresh \<mapsto> Lease_Queued)"
      by (auto simp: new(3) state_of_def add_lease_def new_lease_def)
    then show ?thesis using assms(3) by (auto simp: attended_def new(3))
  next
    case (replay l)
    then show ?thesis using attended_mono[OF assms(3), of s'] by auto
  qed (use assms(3) in simp)
next
  case (Cancel authorization l)
  have "wk_runners s' = wk_runners s" "state_of (wk_book s') k = state_of (wk_book s) k" for k
    by (auto simp: Cancel cancel_lease_def lease_cancel_def state_of_def set_lease_def split: option.splits)
  then show ?thesis using attended_mono[OF assms(3), of s'] by simp
next
  case (Beat now l)
  have "wk_runners s' = wk_runners s" "state_of (wk_book s') k = state_of (wk_book s) k" for k
    by (auto simp: Beat heartbeat_def state_of_def set_lease_def split: option.splits)
  then show ?thesis using attended_mono[OF assms(3), of s'] by simp
next
  case (Drain now)
  have "state_of (wk_book s') k = state_of (wk_book s) k \<or> (\<exists>st. state_of (wk_book s') k = Some st \<and> lease_is_terminal st)" for k
    by (cases "state_of (wk_book s) k") (auto simp: Drain drained_state)
  moreover have "wk_runners s' = wk_runners s" by (simp add: Drain)
  ultimately show ?thesis using attended_mono[OF assms(3), of s'] by simp
next
  case (Run xs r ys world now rs t)
  then show ?thesis using run_lease_step_attended[OF assms(3,2)] by blast
qed

lemma started_mono:
  assumes "started_once s" and "book_le (wk_book s) (wk_book s')" and "wk_started s' = wk_started s"
  shows "started_once s'"
  unfolding started_once_def assms(3)
proof (intro conjI ballI)
  show "distinct (map fst (wk_started s))" using assms(1) by (simp add: started_once_def)
  fix p assume p: "p \<in> set (wk_started s)"
  obtain l x where lx: "p = (l, x)" by (rule prod.exhaust)
  from assms(1) p obtain e where e: "bt_get (lb_leases (wk_book s)) l = Some e" "le_execution e = x" "le_state e \<noteq> Lease_Queued"
    unfolding started_once_def lx by fast
  from e(1) assms(2) obtain e' where "bt_get (lb_leases (wk_book s')) l = Some e'" "lease_le e e'" unfolding book_le_def by blast
  with e have "bt_get (lb_leases (wk_book s')) l = Some e' \<and> le_execution e' = x \<and> le_state e' \<noteq> Lease_Queued" by (auto simp: lease_le_def)
  then show "case p of (l, x) \<Rightarrow> \<exists>e. bt_get (lb_leases (wk_book s')) l = Some e \<and> le_execution e = x \<and> le_state e \<noteq> Lease_Queued"
    unfolding lx by auto
qed

text \<open>Only a queued lease starts, and every other step leaves the executions as they are.\<close>

lemma worker_step_started:
  assumes "worker_step w s s'"
  obtains (none) "wk_started s' = wk_started s"
  | (start) l e where "bt_get (lb_leases (wk_book s)) l = Some e" and "le_state e = Lease_Queued"
      and "wk_started s' = wk_started s @ [(l, le_execution e)]" and "state_of (wk_book s') l = Some Lease_Running"
  using assms
proof (cases rule: worker_step.cases)
  case (Create fresh authorization body now)
  from Create(1)[symmetric] Create(2) show ?thesis by (cases rule: create_lease_cases) (auto intro: none)
next
  case (Cancel authorization l)
  then show ?thesis by (intro none) (auto simp: cancel_lease_def split: prod.splits bool.splits)
next
  case (Run xs r ys world now rs t)
  from Run(3) show ?thesis
  proof (cases rule: run_lease_step_cases)
    case (start l e)
    then show ?thesis using that(2)[of l e] Run(1) by (simp add: state_of_def set_lease_def)
  qed (use none Run(1) in auto)
qed (auto intro: none)

lemma worker_step_inv:
  assumes "worker_step w s s'" and "worker_inv s"
  shows "worker_inv s'"
proof -
  have wf: "book_wf (wk_book s)" and once: "started_once s" using assms(2) by (simp_all add: worker_inv_def)
  have le: "book_le (wk_book s) (wk_book s')" using worker_step_book[OF assms(1) wf] by simp
  from assms(1) have "started_once s'"
  proof (cases rule: worker_step_started)
    case none
    then show ?thesis using started_mono[OF once le] by simp
  next
    case (start l e)
    have "started_once (s'\<lparr>wk_started := wk_started s\<rparr>)" using started_mono[OF once, of "s'\<lparr>wk_started := wk_started s\<rparr>"] le by simp
    moreover have "l \<notin> fst ` set (wk_started s)" using once start(1,2) by (fastforce simp: started_once_def)
    moreover obtain e' where "bt_get (lb_leases (wk_book s')) l = Some e'" "lease_le e e'" using le start(1) unfolding book_le_def by blast
    ultimately show ?thesis using start(3,4) by (auto simp: started_once_def state_of_def lease_le_def)
  qed
  then show ?thesis
    using worker_step_book[OF assms(1) wf] worker_step_attended[OF assms(1) wf] assms(2) by (simp add: worker_inv_def)
qed

lemma worker_run_inv:
  assumes "worker_run w s t" and "worker_inv s"
  shows "worker_inv t \<and> book_le (wk_book s) (wk_book t)"
  using assms
proof (induction rule: worker_run.induct)
  case (Step t u)
  then have t: "worker_inv t" "book_le (wk_book s) (wk_book t)" by simp_all
  then have "book_le (wk_book t) (wk_book u)" using worker_step_book[OF Step(2)] by (simp add: worker_inv_def)
  with t show ?case using worker_step_inv[OF Step(2)] book_le_trans by blast
qed simp

lemma worker_start_inv: "worker_inv worker_start"
  by (simp add: worker_inv_def worker_start_def empty_book_def book_wf_def attempt_of_def attended_def state_of_def started_once_def)

lemmas reachable_inv = worker_run_inv[OF _ worker_start_inv, THEN conjunct1]

subsection \<open>Active leases\<close>

definition active_leases :: "lease_book \<Rightarrow> string set" where
  "active_leases b = {l. \<exists>st. state_of b l = Some st \<and> \<not> lease_is_terminal st}"

lemma active_lease_count_card:
  assumes "book_wf b"
  shows "active_lease_count b = card (active_leases b)" and "finite (active_leases b)"
proof -
  let ?f = "filter (\<lambda>x. \<not> lease_is_terminal (le_state (snd x))) (lb_leases b)"
  have wf: "bt_wf (lb_leases b)" using assms by (simp add: book_wf_def)
  have "set (map fst ?f) = active_leases b"
    using bt_mem_iff[OF wf] by (force simp: active_leases_def state_of_def)
  moreover have "distinct (map fst ?f)" using bt_wf_distinct[OF wf] by (rule distinct_map_filter)
  moreover have "active_lease_count b = length ?f"
    by (simp add: active_lease_count_def filter_map comp_def case_prod_beta)
  ultimately show "active_lease_count b = card (active_leases b)" "finite (active_leases b)"
    by (metis distinct_card length_map, metis List.finite_set)
qed

lemma idle_worker: "worker_inv s \<Longrightarrow> wk_runners s = [] \<Longrightarrow> active_lease_count (wk_book s) = 0"
proof -
  assume inv: "worker_inv s" and idle: "wk_runners s = []"
  have "active_leases (wk_book s) = {}"
  proof (rule equals0I)
    fix l assume "l \<in> active_leases (wk_book s)"
    then obtain st where "state_of (wk_book s) l = Some st" "\<not> lease_is_terminal st" by (auto simp: active_leases_def)
    then show False using inv idle by (cases st) (auto simp: worker_inv_def attended_def)
  qed
  then show ?thesis using active_lease_count_card(1) inv by (simp add: worker_inv_def)
qed

lemma active_leases_mono:
  assumes "book_le b b'" and "\<And>l. bt_get (lb_leases b') l \<noteq> None \<Longrightarrow> bt_get (lb_leases b) l \<noteq> None"
  shows "active_leases b' \<subseteq> active_leases b"
proof
  fix l assume "l \<in> active_leases b'"
  then obtain e' where e': "bt_get (lb_leases b') l = Some e'" "\<not> lease_is_terminal (le_state e')" by (auto simp: active_leases_def state_of_def)
  then obtain e where e: "bt_get (lb_leases b) l = Some e" using assms(2)[of l] by auto
  then have "lease_le e e'" using assms(1) e'(1) unfolding book_le_def by fastforce
  then show "l \<in> active_leases b" using e e'(2) by (auto simp: active_leases_def state_of_def lease_le_def)
qed

lemma draining_step:
  assumes "worker_step w s s'" and "worker_inv s" and "lb_draining (wk_book s)"
  shows "wk_started s' = wk_started s \<and> (\<forall>l. bt_get (lb_leases (wk_book s')) l \<noteq> None \<longrightarrow> bt_get (lb_leases (wk_book s)) l \<noteq> None)"
proof
  from assms(1) show "wk_started s' = wk_started s"
  proof (cases rule: worker_step_started)
    case (start l e)
    then have "winding_down e" using assms(2,3) by (auto simp: worker_inv_def book_wf_def)
    then show ?thesis using start(2) by (simp add: winding_down_def)
  qed
  have keep: "bt_get (lb_leases b') l \<noteq> None \<longrightarrow> bt_get (lb_leases b) l \<noteq> None" if "entry_step b b'" for b b' l
    using that by (auto simp: entry_step_def set_lease_def split: if_splits)
  from assms(1) show "\<forall>l. bt_get (lb_leases (wk_book s')) l \<noteq> None \<longrightarrow> bt_get (lb_leases (wk_book s)) l \<noteq> None"
  proof (cases rule: worker_step.cases)
    case (Create fresh authorization body now)
    from Create(1)[symmetric] Create(2) show ?thesis by (cases rule: create_lease_cases) (use assms(3) in auto)
  next
    case (Cancel authorization l)
    then show ?thesis using keep[OF lease_cancel_step[of "wk_book s" l]] by (auto simp: cancel_lease_def split: prod.splits bool.splits)
  next
    case (Beat now l)
    then show ?thesis using keep[OF heartbeat_step[of "wk_book s" now l]] by simp
  next
    case (Drain now)
    then show ?thesis by (simp add: drained_leases)
  next
    case (Run xs r ys world now rs t)
    then show ?thesis using keep[OF run_lease_step_book[OF Run(3)]] by simp
  qed
qed

lemma draining_run:
  assumes "worker_run w s t" and "worker_inv s" and "lb_draining (wk_book s)"
  shows "wk_started t = wk_started s \<and> (\<forall>l. bt_get (lb_leases (wk_book t)) l \<noteq> None \<longrightarrow> bt_get (lb_leases (wk_book s)) l \<noteq> None)"
  using assms
proof (induction rule: worker_run.induct)
  case (Step t u)
  have t: "worker_inv t" "lb_draining (wk_book t)"
    using worker_run_inv[OF Step(1) Step.prems(1)] Step.prems(2) by (auto simp: book_le_def)
  show ?case using draining_step[OF Step(2) t] Step.IH[OF Step.prems] by auto
qed simp

section \<open>Properties\<close>

definition example_worker :: worker where
  "example_worker = \<lparr>w_id = ''w'', w_token = ''t'', w_work_root = ''/r'', w_max_payload_bytes = 64\<rparr>"

definition example_lease_request :: lease_create_request where
  "example_lease_request = \<lparr>lcr_protocol_version = 1, lcr_attempt_id = ''a'',
     lcr_execution = \<lparr>rx_program = ''p'', rx_args = [''{hub-workdir}/x''], rx_env = [], rx_timeout_ms = 5, rx_max_capture_bytes_per_stream = 9,
       rx_directories = [], rx_files = [\<lparr>rf_path = ''in/x'', rf_bytes = ''b''\<rparr>]\<rparr>\<rparr>"

definition example_lease_world :: lease_world where
  "example_lease_world = \<lparr>lw_prepare = \<lambda>_ _. Inr (),
     lw_execute = \<lambda>_. Inr (Inr \<lparr>eo_exit_code = Some 0, eo_signal = None, eo_timed_out = False, eo_cancelled = False, eo_start_error = None,
       eo_duration_ms = 1, eo_stdout = [], eo_stdout_truncated = False, eo_stderr = [], eo_stderr_truncated = False\<rparr>),
     lw_collect = \<lambda>_. Inr []\<rparr>"

definition post :: "worker_state \<Rightarrow> worker_state" where
  "post s = snd (create_lease example_worker (Some ''Bearer t'') (Inr example_lease_request) ''l'' 0 s)"

text \<open>The task at a position of the list takes its next step.\<close>

definition advance :: "nat \<Rightarrow> worker_state \<Rightarrow> worker_state" where
  "advance i s = (let (rs, t) = run_lease_step example_worker example_lease_world 1 (wk_runners s ! i) s in
     t\<lparr>wk_runners := take i (wk_runners s) @ rs @ drop (Suc i) (wk_runners s)\<rparr>)"

lemma advance_step: "worker_run w s t \<Longrightarrow> w = example_worker \<Longrightarrow> i < length (wk_runners t) \<Longrightarrow> worker_run w s (advance i t)"
proof -
  assume run: "worker_run w s t" and w: "w = example_worker" and i: "i < length (wk_runners t)"
  obtain rs u where u: "run_lease_step example_worker example_lease_world 1 (wk_runners t ! i) t = (rs, u)" by (rule prod.exhaust)
  have "worker_step w t (u\<lparr>wk_runners := take i (wk_runners t) @ rs @ drop (Suc i) (wk_runners t)\<rparr>)"
    using worker_step.Run[OF id_take_nth_drop[OF i] u] w by simp
  then show ?thesis using worker_run.Step[OF run] by (simp add: advance_def u)
qed

lemma post_step: "worker_run example_worker s t \<Longrightarrow> bt_get (lb_leases (wk_book t)) ''l'' = None \<Longrightarrow> worker_run example_worker s (post t)"
  unfolding post_def using worker_run.Step worker_step.Create by blast

lemma example_started: "worker_run example_worker worker_start (advance 0 (post worker_start))"
proof -
  have "worker_run example_worker worker_start (post worker_start)"
    by (rule post_step[OF worker_run.Refl]) (simp add: worker_start_def empty_book_def)
  moreover have "0 < length (wk_runners (post worker_start))" by code_simp
  ultimately show ?thesis by (rule advance_step[OF _ refl])
qed

text \<open>C9. Whatever the order of requests, cancellations, heartbeats, draining and the steps of the tasks, a
  worker begins at most one execution for an attempt, with the payload the attempt was created with, and
  a lease is never left behind: when no task is left, no lease is active.\<close>

theorem lease_executed_at_most_once:
  assumes "worker_run w worker_start s"
  shows "distinct (map (\<lambda>(l, x). attempt_of (wk_book s) l) (wk_started s))
    \<and> (\<forall>(l, x)\<in>set (wk_started s). \<exists>e. bt_get (lb_leases (wk_book s)) l = Some e \<and> le_execution e = x \<and> le_state e \<noteq> Lease_Queued)
    \<and> (wk_runners s = [] \<longrightarrow> active_lease_count (wk_book s) = 0)"
proof -
  note inv = reachable_inv[OF assms]
  have once: "started_once s" and wf: "book_wf (wk_book s)" using inv by (simp_all add: worker_inv_def)
  have some: "attempt_of (wk_book s) l \<noteq> None" if "l \<in> fst ` set (wk_started s)" for l
    using once that by (fastforce simp: started_once_def attempt_of_def)
  have "inj_on (attempt_of (wk_book s)) (fst ` set (wk_started s))"
  proof (rule inj_onI)
    fix k l assume kl: "k \<in> fst ` set (wk_started s)" and eq: "attempt_of (wk_book s) k = attempt_of (wk_book s) l"
    then obtain a where "attempt_of (wk_book s) k = Some a" using some by blast
    then have "bt_get (lb_attempts (wk_book s)) a = Some k" "bt_get (lb_attempts (wk_book s)) a = Some l" using wf eq by (simp_all add: book_wf_def)
    then show "k = l" by simp
  qed
  then have "distinct (map (attempt_of (wk_book s)) (map fst (wk_started s)))"
    using once unfolding distinct_map started_once_def by simp
  then show ?thesis using once idle_worker[OF inv] by (simp add: started_once_def comp_def case_prod_unfold)
qed

theorem lease_executed_at_most_once_witness:
  "worker_run example_worker worker_start (advance 0 (post worker_start)) \<and> length (wk_started (advance 0 (post worker_start))) = 1
   \<and> distinct (map (\<lambda>(l, x). attempt_of (wk_book (advance 0 (post worker_start))) l) (wk_started (advance 0 (post worker_start))))"
proof -
  have "length (wk_started (advance 0 (post worker_start))) = 1" by code_simp
  then show ?thesis using example_started lease_executed_at_most_once[OF example_started] by simp
qed



text \<open>C25. Once a worker drains it begins no execution and takes no lease; every lease that is not over is running with
  its cancellation requested, and the number of active leases never grows.\<close>

theorem draining_winds_down:
  assumes "worker_run w worker_start s" and "lb_draining (wk_book s)" and "worker_run w s t"
  shows "wk_started t = wk_started s \<and> active_lease_count (wk_book t) \<le> active_lease_count (wk_book s)
    \<and> (\<forall>l e. bt_get (lb_leases (wk_book t)) l = Some e \<longrightarrow> bt_get (lb_leases (wk_book s)) l \<noteq> None \<and> winding_down e)"
proof -
  note inv = reachable_inv[OF assms(1)]
  note t = worker_run_inv[OF assms(3) inv]
  note later = draining_run[OF assms(3) inv assms(2)]
  have wf: "book_wf (wk_book s)" "book_wf (wk_book t)" using inv t by (simp_all add: worker_inv_def)
  have "active_leases (wk_book t) \<subseteq> active_leases (wk_book s)" using active_leases_mono t later by blast
  then have "active_lease_count (wk_book t) \<le> active_lease_count (wk_book s)"
    unfolding active_lease_count_card(1)[OF wf(1)] active_lease_count_card(1)[OF wf(2)] by (rule card_mono[OF active_lease_count_card(2)[OF wf(1)]])
  moreover have "lb_draining (wk_book t)" using t assms(2) by (simp add: book_le_def)
  moreover from this have "winding_down e" if "bt_get (lb_leases (wk_book t)) l = Some e" for l e
    using that wf(2) by (auto simp: book_wf_def)
  ultimately show ?thesis using later by auto
qed

definition drained_example :: worker_state where
  "drained_example = (let s = post worker_start in s\<lparr>wk_book := snd (begin_draining 1 (wk_book s))\<rparr>)"

theorem draining_winds_down_witness:
  "active_lease_count (wk_book (post worker_start)) = 1 \<and> wk_started (advance 0 drained_example) = []
   \<and> active_lease_count (wk_book (advance 0 drained_example)) \<le> active_lease_count (wk_book drained_example)"
proof -
  have "worker_run example_worker worker_start (post worker_start)"
    by (rule post_step[OF worker_run.Refl]) (simp add: worker_start_def empty_book_def)
  from worker_run.Step[OF this worker_step.Drain[of _ _ 1]] have run: "worker_run example_worker worker_start drained_example"
    by (simp add: drained_example_def Let_def)
  have drains: "lb_draining (wk_book drained_example)" and n: "0 < length (wk_runners drained_example)" and none: "wk_started drained_example = []"
    by code_simp+
  have "active_lease_count (wk_book (post worker_start)) = 1" by code_simp
  then show ?thesis using draining_winds_down[OF run drains advance_step[OF worker_run.Refl refl n]] none by simp
qed

definition repost :: "worker_state \<Rightarrow> worker_state" where
  "repost s = snd (create_lease example_worker (Some ''Bearer t'') (Inr example_lease_request) ''m'' 0 s)"

definition replayed :: worker_state where
  "replayed = advance 1 (advance 1 (advance 0 (repost (post worker_start))))"


end
