(* ===== verification/Hub_Remote.thy ===== *)
theory Hub_Remote
  imports Hub_Worker "HOL-Library.Product_Lexorder"
begin

text \<open>
  The hub's side of remote execution: the remote executor
  (\<open>src/crates/hub-executor/src/remote.rs\<close>) with its polling loop, the rewriting of
  paths between the two work directories, and the pool that places executions on the least loaded
  worker (\<open>src/crates/hub-executor/src/pool.rs\<close>). What the network and the clock answer is a
  parameter: the loop runs over a list of observations, one per iteration.
\<close>

section \<open>Model\<close>

subsection \<open>The remote executor\<close>

definition DEFAULT_POLL_MS :: nat where "DEFAULT_POLL_MS = 100"
definition DEFAULT_LOST_AFTER_MS :: nat where "DEFAULT_LOST_AFTER_MS = 3000"
definition DEFAULT_MAX_PAYLOAD_BYTES :: nat where "DEFAULT_MAX_PAYLOAD_BYTES = 64 * 1024 * 1024"

record remote_executor =
  rem_endpoint :: string
  rem_token :: string
  rem_backend_id :: string
  rem_poll_interval_ms :: nat
  rem_lost_after_ms :: nat
  rem_max_payload_bytes :: nat
  rem_expected_worker_id :: "string option"

definition trim_end_slashes :: "string \<Rightarrow> string" where
  "trim_end_slashes s = rev (dropWhile (\<lambda>c. c = CHR ''/'') (rev s))"

definition remote_new :: "string \<Rightarrow> string \<Rightarrow> message + remote_executor" where
  "remote_new endpoint token =
     (let endpoint = trim_end_slashes endpoint in
      if \<not> (starts_with ''http://'' endpoint \<or> starts_with ''https://'' endpoint) then
        Inl (plain ''remote worker URL must start with http:// or https://'')
      else if token = [] then Inl (plain ''remote worker bearer token must not be empty'')
      else Inr \<lparr>rem_endpoint = endpoint, rem_token = token, rem_backend_id = ''remote:'' @ endpoint, rem_poll_interval_ms = DEFAULT_POLL_MS,
        rem_lost_after_ms = DEFAULT_LOST_AFTER_MS, rem_max_payload_bytes = DEFAULT_MAX_PAYLOAD_BYTES, rem_expected_worker_id = None\<rparr>)"

definition with_max_payload_bytes :: "nat \<Rightarrow> remote_executor \<Rightarrow> remote_executor" where
  "with_max_payload_bytes value r = r\<lparr>rem_max_payload_bytes := max value 1\<rparr>"

definition with_expected_worker_id :: "string \<Rightarrow> remote_executor \<Rightarrow> remote_executor" where
  "with_expected_worker_id worker_id r = r\<lparr>rem_expected_worker_id := Some worker_id\<rparr>"

datatype remote_call_error = Authorization | Status nat string | Transport string | Decode message

fun call_error_message :: "remote_call_error \<Rightarrow> message" where
  "call_error_message Authorization = plain ''authorization refused''"
| "call_error_message (Status status body) = Fmt ''HTTP {status}: {body}'' [FNat status, FStr body]"
| "call_error_message (Transport reason) = Fmt ''{reason}'' [FStr reason]"
| "call_error_message (Decode reason) = reason"

text \<open>The error of the HTTP client: a status with its body, or a transport failure.\<close>

datatype http_error = Http_Status nat string | Http_Transport string

fun classify_ureq :: "http_error \<Rightarrow> remote_call_error" where
  "classify_ureq (Http_Status status body) = (if status = 401 \<or> status = 403 then Authorization else Status status body)"
| "classify_ureq (Http_Transport e) = Transport e"

definition decode_response :: "http_error + (message + 'a) \<Rightarrow> remote_call_error + 'a" where
  "decode_response response =
     (case response of
        Inr decoded \<Rightarrow> map_err (\<lambda>e. Decode (Fmt ''decoding response: {e}'' [FMsg e])) decoded
      | Inl e \<Rightarrow> Inl (classify_ureq e))"

definition discover_eligible :: "remote_executor \<Rightarrow> remote_call_error + worker_descriptor \<Rightarrow> message + worker_descriptor" where
  "discover_eligible r described =
     rbind (map_err (\<lambda>e. case e of Authorization \<Rightarrow> plain ''authorization refused''
              | other \<Rightarrow> Fmt ''unavailable: {other}'' [FMsg (call_error_message other)]) described) (\<lambda>d.
     if trim (wd_worker_id d) = [] then Inl (plain ''worker identity is empty'')
     else if wd_protocol_version d \<noteq> WORKER_PROTOCOL_VERSION then
       Inl (Fmt ''protocol {} unsupported; expected {}'' [FNat (unat (wd_protocol_version d)), FNat (unat WORKER_PROTOCOL_VERSION)])
     else if PROCESS_EXECUTION_CAPABILITY \<notin> set (wd_capabilities d) then
       Inl (Fmt ''worker {} lacks capability {}'' [FStr (wd_worker_id d), FStr PROCESS_EXECUTION_CAPABILITY])
     else if rem_max_payload_bytes r > unat (wd_max_payload_bytes d) then
       Inl (Fmt ''worker payload limit {} is below configured client limit {}''
         [FNat (unat (wd_max_payload_bytes d)), FNat (rem_max_payload_bytes r)])
     else Inr d)"

subsection \<open>Paths in arguments\<close>

text \<open>
  \<open>Path::strip_prefix\<close> on Unix for a path whose components extend those of the root: the text
  after the consumed components, without empty and \<open>.\<close> segments at either end; when nothing is
  consumed, the path itself without those at its end.
\<close>

fun skip_components :: "nat \<Rightarrow> string list \<Rightarrow> string list" where
  "skip_components n [] = []"
| "skip_components n (seg # segs) =
     (if seg = [] \<or> seg = ''.'' then skip_components n segs
      else case n of 0 \<Rightarrow> seg # segs | Suc m \<Rightarrow> skip_components m segs)"

definition trim_segments :: "string list \<Rightarrow> string list" where
  "trim_segments segs = rev (dropWhile (\<lambda>seg. seg = [] \<or> seg = ''.'') (rev segs))"

definition path_remainder :: "string \<Rightarrow> nat \<Rightarrow> string" where
  "path_remainder path n =
     (case n of
        0 \<Rightarrow> ''/'' @ join ''/'' (trim_segments (tl (split_on CHR ''/'' path)))
      | Suc m \<Rightarrow> join ''/'' (trim_segments (skip_components m (split_on CHR ''/'' path))))"

definition path_starts_with :: "string \<Rightarrow> string \<Rightarrow> bool" where
  "path_starts_with path root \<longleftrightarrow> take (length (path_components root)) (path_components path) = path_components root"

definition encode_workdir_path :: "string \<Rightarrow> string \<Rightarrow> string" where
  "encode_workdir_path value root =
     (if is_absolute value \<and> path_starts_with value root then
        let relative = path_remainder value (length (path_components root)) in
        if relative = [] then WORKDIR_TOKEN else WORKDIR_TOKEN @ ''/'' @ relative
      else value)"

subsection \<open>Executions\<close>

text \<open>What the local file system gives: whether the directory exists, and what \<open>collect_directories\<close> and \<open>collect_files\<close> find.\<close>

record local_tree =
  lt_is_dir :: bool
  lt_directories :: "message + string list"
  lt_files :: "nat \<Rightarrow> message + remote_file list"

definition build_remote_request :: "remote_executor \<Rightarrow> local_tree \<Rightarrow> execution_request \<Rightarrow> message + remote_execution_request" where
  "build_remote_request r tree request =
     (if \<not> lt_is_dir tree then Inl (Fmt ''local execution workdir {:?} does not exist'' [FDebug (er_working_dir request)])
      else rbind (lt_directories tree) (\<lambda>directories. rbind (lt_files tree (rem_max_payload_bytes r)) (\<lambda>files.
        Inr \<lparr>rx_program = er_program request, rx_args = map (\<lambda>value. encode_workdir_path value (er_working_dir request)) (er_args request),
          rx_env = map (\<lambda>(key, value). (key, encode_workdir_path value (er_working_dir request))) (er_env request),
          rx_timeout_ms = er_timeout_ms request, rx_max_capture_bytes_per_stream = er_max_capture_bytes_per_stream request,
          rx_directories = directories, rx_files = files\<rparr>)))"

text \<open>
  The files of a result are written below the working directory, each at the components of its
  checked path; \<open>write\<close> is the outcome of creating the parent and writing.
\<close>

definition returned_path :: "string \<Rightarrow> message + path_component list" where
  "returned_path raw =
     (if raw = [] \<or> is_absolute raw then Inl (Fmt ''invalid remote relative path {raw:?}'' [FDebug raw])
      else rbind (try_for (\<lambda>c. case c of Normal _ \<Rightarrow> Inr () | _ \<Rightarrow> Inl (Fmt ''unsafe remote relative path {raw:?}'' [FDebug raw]))
                    (path_components raw)) (\<lambda>_. Inr (path_components raw)))"

fun materialize_files :: "(remote_file \<Rightarrow> message option) \<Rightarrow> nat \<Rightarrow> nat \<Rightarrow> remote_file list \<Rightarrow> (path_component list \<times> bytes) list
    \<Rightarrow> (message + unit) \<times> (path_component list \<times> bytes) list" where
  "materialize_files io limit so_far [] written = (Inr (), written)"
| "materialize_files io limit so_far (f # fs) written =
     (case usize_checked_add so_far (length (rf_bytes f)) of
        None \<Rightarrow> (Inl (plain ''remote result payload size overflow''), written)
      | Some summed \<Rightarrow>
          if summed > limit then (Inl (Fmt ''remote result files exceed {} byte transport limit'' [FNat limit]), written)
          else case returned_path (rf_path f) of
            Inl e \<Rightarrow> (Inl e, written)
          | Inr relative \<Rightarrow>
              (case io f of
                 Some e \<Rightarrow> (Inl e, written)
               | None \<Rightarrow> materialize_files io limit summed fs (written @ [(relative, rf_bytes f)])))"

text \<open>How an execution ends on the hub's side.\<close>

datatype remote_end = Remote_Cancelled | Remote_Failure message | Remote_Result remote_execution_result

text \<open>
  One iteration: the cancellation flag, the clock at the expiry test, the answer of the worker, the clock at
  the heartbeat test, the instant in nanoseconds at which it was contacted or found silent, and
  how writing the result's files goes.
\<close>

record poll =
  po_cancelled :: bool
  po_now :: u64
  po_status :: "remote_call_error + lease_status_response"
  po_heartbeat_now :: u64
  po_instant :: nat
  po_io :: "remote_file \<Rightarrow> message option"

definition poll_status :: "remote_executor \<Rightarrow> lease_create_response \<Rightarrow> string \<Rightarrow> string \<Rightarrow> poll \<Rightarrow> lease_status_response \<Rightarrow> remote_end option" where
  "poll_status r lease attempt_id worker_id p status =
     (if lsr_lease_id status \<noteq> lcp_lease_id lease \<or> lsr_attempt_id status \<noteq> attempt_id \<or> lsr_worker_id status \<noteq> worker_id then
        Some (Remote_Failure (plain ''remote worker returned mismatched status identity''))
      else if unat (saturating_sub (po_heartbeat_now p) (lsr_last_heartbeat_ms status)) > rem_lost_after_ms r
          \<and> \<not> lease_is_terminal (lsr_state status) then
        Some (Remote_Failure (plain ''remote worker heartbeat became stale''))
      else if lsr_state status = Lease_Queued \<or> lsr_state status = Lease_Running then None
      else if lsr_state status = Lease_Completed \<or> lsr_state status = Lease_Cancelled then
        Some (case lsr_result status of
            None \<Rightarrow> Remote_Failure (plain ''remote terminal lease omitted execution result'')
          | Some result \<Rightarrow>
              (case fst (materialize_files (po_io p) (rem_max_payload_bytes r) 0 (rxr_files result) []) of
                 Inl e \<Rightarrow> Remote_Failure e | Inr _ \<Rightarrow> Remote_Result result))
      else Some (Remote_Failure (case lsr_error status of Some e \<Rightarrow> e | None \<Rightarrow> plain ''remote worker lease failed'')))"

text \<open>The loop; \<open>None\<close> when it is still polling after the observations.\<close>

fun poll_loop :: "remote_executor \<Rightarrow> lease_create_response \<Rightarrow> string \<Rightarrow> string \<Rightarrow> nat \<Rightarrow> poll list \<Rightarrow> remote_end option" where
  "poll_loop r lease attempt_id worker_id last_contact [] = None"
| "poll_loop r lease attempt_id worker_id last_contact (p # ps) =
     (if po_cancelled p then Some Remote_Cancelled
      else if po_now p > lcp_expires_at_ms lease then Some (Remote_Failure (plain ''remote execution lease expired''))
      else case po_status p of
        Inr status \<Rightarrow>
          (case poll_status r lease attempt_id worker_id p status of
             Some e \<Rightarrow> Some e
           | None \<Rightarrow> poll_loop r lease attempt_id worker_id (po_instant p) ps)
      | Inl Authorization \<Rightarrow> Some (Remote_Failure (plain ''remote worker authorization refused''))
      | Inl e \<Rightarrow>
          if po_instant p - last_contact < rem_lost_after_ms r * 1000000 then poll_loop r lease attempt_id worker_id last_contact ps
          else Some (Remote_Failure (Fmt ''remote worker lost while lease was active: {error}'' [FMsg (call_error_message e)])))"

text \<open>The descriptor is checked again at execution, together with the expected identity.\<close>

definition check_descriptor :: "remote_executor \<Rightarrow> worker_descriptor \<Rightarrow> message + unit" where
  "check_descriptor r d =
     (if trim (wd_worker_id d) = [] then Inl (plain ''remote worker identity is empty'')
      else rbind (case rem_expected_worker_id r of
               Some expected \<Rightarrow>
                 if wd_worker_id d \<noteq> expected then
                   Inl (Fmt ''remote worker identity changed before lease dispatch: expected {expected:?}, found {:?}''
                     [FDebug expected, FDebug (wd_worker_id d)])
                 else Inr ()
             | None \<Rightarrow> Inr ()) (\<lambda>_.
        if wd_protocol_version d \<noteq> WORKER_PROTOCOL_VERSION then
          Inl (Fmt ''remote worker protocol {} unsupported; expected {}''
            [FNat (unat (wd_protocol_version d)), FNat (unat WORKER_PROTOCOL_VERSION)])
        else if PROCESS_EXECUTION_CAPABILITY \<notin> set (wd_capabilities d) then
          Inl (Fmt ''remote worker {} lacks capability {}'' [FStr (wd_worker_id d), FStr PROCESS_EXECUTION_CAPABILITY])
        else if rem_max_payload_bytes r > unat (wd_max_payload_bytes d) then
          Inl (Fmt ''remote worker payload limit {} is below configured client limit {}''
            [FNat (unat (wd_max_payload_bytes d)), FNat (rem_max_payload_bytes r)])
        else Inr ()))"

record remote_world =
  rwo_cancelled :: bool
  rwo_describe :: "remote_call_error + worker_descriptor"
  rwo_tree :: local_tree
  rwo_attempt_id :: string
  rwo_post :: "lease_create_request \<Rightarrow> remote_call_error + lease_create_response"
  rwo_first_contact :: nat
  rwo_polls :: "poll list"

text \<open>Up to the lease: the failure that ends the execution, or the request, the lease and the worker.\<close>

definition open_lease :: "remote_executor \<Rightarrow> remote_world \<Rightarrow> execution_request \<Rightarrow> message + (lease_create_request \<times> lease_create_response \<times> string)" where
  "open_lease r world request =
     rbind (map_err (\<lambda>e. case e of Authorization \<Rightarrow> plain ''remote worker authorization refused''
              | e \<Rightarrow> Fmt ''remote worker unavailable: {error}'' [FMsg (call_error_message e)]) (rwo_describe world)) (\<lambda>d.
     rbind (check_descriptor r d) (\<lambda>_.
     rbind (build_remote_request r (rwo_tree world) request) (\<lambda>execution.
     let lease_request = \<lparr>lcr_protocol_version = WORKER_PROTOCOL_VERSION, lcr_attempt_id = rwo_attempt_id world, lcr_execution = execution\<rparr> in
     rbind (map_err (\<lambda>e. case e of Authorization \<Rightarrow> plain ''remote worker authorization refused''
              | e \<Rightarrow> Fmt ''remote worker could not create lease: {error}'' [FMsg (call_error_message e)]) (rwo_post world lease_request)) (\<lambda>lease.
     if lcp_attempt_id lease \<noteq> rwo_attempt_id world \<or> lcp_worker_id lease \<noteq> wd_worker_id d then
       Inl (plain ''remote worker returned mismatched lease identity'')
     else Inr (lease_request, lease, wd_worker_id d)))))"

definition remote_execute :: "remote_executor \<Rightarrow> remote_world \<Rightarrow> execution_request \<Rightarrow> remote_end option" where
  "remote_execute r world request =
     (if rwo_cancelled world then Some Remote_Cancelled
      else case open_lease r world request of
        Inl e \<Rightarrow> Some (Remote_Failure e)
      | Inr (_, lease, worker_id) \<Rightarrow> poll_loop r lease (rwo_attempt_id world) worker_id (rwo_first_contact world) (rwo_polls world))"

text \<open>The outcome that \<open>cancelled_outcome\<close>, \<open>remote_failure\<close> or the worker's result gives; \<open>render\<close> is the formatter.\<close>

fun end_outcome :: "(message \<Rightarrow> string) \<Rightarrow> u64 \<Rightarrow> remote_end \<Rightarrow> execution_outcome" where
  "end_outcome render elapsed Remote_Cancelled =
     \<lparr>eo_exit_code = None, eo_signal = None, eo_timed_out = False, eo_cancelled = True, eo_start_error = None, eo_duration_ms = elapsed,
      eo_stdout = [], eo_stdout_truncated = False, eo_stderr = [], eo_stderr_truncated = False\<rparr>"
| "end_outcome render elapsed (Remote_Failure reason) =
     \<lparr>eo_exit_code = None, eo_signal = None, eo_timed_out = False, eo_cancelled = False, eo_start_error = Some (render reason),
      eo_duration_ms = elapsed, eo_stdout = [], eo_stdout_truncated = False, eo_stderr = [], eo_stderr_truncated = False\<rparr>"
| "end_outcome render elapsed (Remote_Result result) = rxr_outcome result"

definition remote_execute_report :: "(message \<Rightarrow> string) \<Rightarrow> remote_executor \<Rightarrow> remote_call_error + worker_descriptor \<Rightarrow> remote_world
    \<Rightarrow> u64 \<Rightarrow> execution_request \<Rightarrow> execution_report option" where
  "remote_execute_report render r described world elapsed request =
     (case discover_eligible r described of
        Inl _ \<Rightarrow> map_option (\<lambda>e. \<lparr>rep_outcome = end_outcome render elapsed e, rep_backend_id = rem_backend_id r\<rparr>) (remote_execute r world request)
      | Inr d \<Rightarrow>
          map_option (\<lambda>e. \<lparr>rep_outcome = end_outcome render elapsed e,
            rep_backend_id = ''remote:'' @ wd_worker_id d @ ''@'' @ rem_endpoint r\<rparr>)
            (remote_execute (with_expected_worker_id (wd_worker_id d) r) world request))"

subsection \<open>The pool\<close>

record remote_pool =
  rp_workers :: "remote_executor list"
  rp_in_flight :: "(string, u64) btree"

fun pool_workers :: "string set \<Rightarrow> (string \<times> string) list \<Rightarrow> message + remote_executor list" where
  "pool_workers seen [] = Inr []"
| "pool_workers seen ((endpoint, token) # credentials) =
     (let normalized = trim_end_slashes endpoint in
      if normalized \<in> seen then Inl (Fmt ''duplicate remote worker endpoint {normalized:?}'' [FDebug normalized])
      else if token = [] then
        Inl (Fmt ''remote worker bearer token must not be empty for endpoint {normalized:?}'' [FDebug normalized])
      else rbind (remote_new normalized token) (\<lambda>worker.
        rbind (pool_workers (insert normalized seen) credentials) (\<lambda>workers. Inr (worker # workers))))"

definition from_credentials :: "(string \<times> string) list \<Rightarrow> message + remote_pool" where
  "from_credentials credentials =
     (if length credentials < 2 then Inl (plain ''remote worker pool requires at least two endpoints'')
      else rbind (pool_workers {} credentials) (\<lambda>workers. Inr \<lparr>rp_workers = workers, rp_in_flight = []\<rparr>))"

definition pool_new :: "string list \<Rightarrow> string \<Rightarrow> message + remote_pool" where
  "pool_new endpoints token =
     (if token = [] then Inl (plain ''remote worker bearer token must not be empty'')
      else from_credentials (map (\<lambda>endpoint. (endpoint, token)) endpoints))"

definition pool_with_max_payload_bytes :: "nat \<Rightarrow> remote_pool \<Rightarrow> remote_pool" where
  "pool_with_max_payload_bytes value p = p\<lparr>rp_workers := map (with_max_payload_bytes value) (rp_workers p)\<rparr>"

text \<open>The discovery loop of \<open>select\<close>: the identities seen, the eligible workers and the diagnostics.\<close>

fun discover_workers :: "(remote_executor \<Rightarrow> remote_call_error + worker_descriptor) \<Rightarrow> (string, string) btree \<Rightarrow> (remote_executor \<times> string) list
    \<Rightarrow> message list \<Rightarrow> remote_executor list \<Rightarrow> message + (remote_executor \<times> string) list \<times> message list" where
  "discover_workers describe identities eligible diagnostics [] = Inr (eligible, diagnostics)"
| "discover_workers describe identities eligible diagnostics (worker # workers) =
     (case discover_eligible worker (describe worker) of
        Inr d \<Rightarrow>
          (case bt_get identities (wd_worker_id d) of
             Some previous_endpoint \<Rightarrow>
               Inl (Fmt ''duplicate worker identity {:?} advertised by {:?} and {:?}''
                 [FDebug (wd_worker_id d), FDebug previous_endpoint, FDebug (rem_endpoint worker)])
           | None \<Rightarrow>
               discover_workers describe (bt_insert (wd_worker_id d) (rem_endpoint worker) identities)
                 (eligible @ [(worker, wd_worker_id d)]) diagnostics workers)
      | Inl e \<Rightarrow>
          discover_workers describe identities eligible
            (diagnostics @ [Fmt ''{}: {error}'' [FStr (rem_endpoint worker), FMsg e]]) workers)"

definition load_of :: "(string, u64) btree \<Rightarrow> remote_executor \<Rightarrow> u64" where
  "load_of loads worker = (case bt_get loads (rem_endpoint worker) of Some n \<Rightarrow> n | None \<Rightarrow> 0)"

definition rank_workers :: "(string, u64) btree \<Rightarrow> (remote_executor \<times> string) list \<Rightarrow> (remote_executor \<times> string) list" where
  "rank_workers loads = sort_key (\<lambda>(worker, i). (load_of loads worker, i, rem_endpoint worker))"

text \<open>\<open>select\<close>; the third component of the result is the key of the guard.\<close>

definition pool_select :: "(remote_executor \<Rightarrow> remote_call_error + worker_descriptor) \<Rightarrow> remote_pool
    \<Rightarrow> (message + (remote_executor \<times> string \<times> string)) \<times> remote_pool" where
  "pool_select describe p =
     (case discover_workers describe [] [] [] (rp_workers p) of
        Inl e \<Rightarrow> (Inl e, p)
      | Inr (eligible, diagnostics) \<Rightarrow>
          (case rank_workers (rp_in_flight p) eligible of
             [] \<Rightarrow> (Inl (if diagnostics = [] then plain ''no eligible remote workers''
                        else Fmt ''no eligible remote workers: {}'' (map FMsg diagnostics)), p)
           | (worker, worker_id) # _ \<Rightarrow>
               (Inr (worker, worker_id, rem_endpoint worker),
                p\<lparr>rp_in_flight := bt_insert (rem_endpoint worker) (saturating_add (load_of (rp_in_flight p) worker) 1) (rp_in_flight p)\<rparr>)))"

definition drop_guard :: "string \<Rightarrow> remote_pool \<Rightarrow> remote_pool" where
  "drop_guard key p =
     (case bt_get (rp_in_flight p) key of
        None \<Rightarrow> p
      | Some n \<Rightarrow>
          let n = saturating_sub n 1 in
          if n = 0 then p\<lparr>rp_in_flight := bt_remove key (rp_in_flight p)\<rparr> else p\<lparr>rp_in_flight := bt_insert key n (rp_in_flight p)\<rparr>)"

definition pool_execute_report :: "(message \<Rightarrow> string) \<Rightarrow> (remote_executor \<Rightarrow> remote_call_error + worker_descriptor) \<Rightarrow> bool
    \<Rightarrow> (remote_executor \<Rightarrow> remote_world) \<Rightarrow> u64 \<Rightarrow> execution_request \<Rightarrow> remote_pool \<Rightarrow> execution_report option" where
  "pool_execute_report render describe cancelled world elapsed request p =
     (if cancelled then Some \<lparr>rep_outcome = end_outcome render 0 Remote_Cancelled, rep_backend_id = ''remote-pool''\<rparr>
      else case fst (pool_select describe p) of
        Inl e \<Rightarrow> Some \<lparr>rep_outcome = end_outcome render elapsed (Remote_Failure e), rep_backend_id = ''remote-pool''\<rparr>
      | Inr (worker, worker_id, _) \<Rightarrow>
          map_option (\<lambda>e. \<lparr>rep_outcome = end_outcome render elapsed e,
            rep_backend_id = ''remote:'' @ worker_id @ ''@'' @ rem_endpoint worker\<rparr>)
            (remote_execute (with_expected_worker_id worker_id worker) (world worker) request))"

text \<open>
  Executions that begin and end; the guards held are those not yet dropped. A guard is an object in
  memory, so that fewer than \<open>2 ^ 64\<close> exist.
\<close>

inductive pool_run :: "remote_pool \<Rightarrow> remote_pool \<times> string list \<Rightarrow> bool" for p0 where
  Start: "pool_run p0 (p0, [])"
| Select: "pool_run p0 (p, guards) \<Longrightarrow> pool_select describe p = (Inr (worker, worker_id, key), p') \<Longrightarrow>
    length guards < 2 ^ 64 - 1 \<Longrightarrow> pool_run p0 (p', key # guards)"
| Refused: "pool_run p0 (p, guards) \<Longrightarrow> pool_select describe p = (Inl e, p') \<Longrightarrow> pool_run p0 (p', guards)"
| Dropped: "pool_run p0 (p, guards) \<Longrightarrow> key \<in> set guards \<Longrightarrow> pool_run p0 (drop_guard key p, remove1 key guards)"

section \<open>Facts\<close>

subsection \<open>Polling\<close>

lemma poll_loop_ends:
  assumes "p \<in> set ps" and "po_cancelled p \<or> lcp_expires_at_ms lease < po_now p"
  shows "\<exists>e. poll_loop r lease a wid c ps = Some e"
  using assms(1)
proof (induction ps arbitrary: c)
  case (Cons q ps)
  show ?case
  proof (cases "p = q")
    case True
    then show ?thesis using assms(2) by auto
  next
    case False
    then have "p \<in> set ps" using Cons.prems by simp
    note IH = Cons.IH[OF this]
    show ?thesis by (auto simp: IH split: sum.splits option.splits remote_call_error.splits)
  qed
qed simp

lemma poll_status_Result:
  assumes "poll_status r lease a wid p status = Some (Remote_Result res)"
  shows "lsr_result status = Some res"
  using assms by (auto simp: poll_status_def split: if_splits option.splits sum.splits)

lemma poll_loop_Result:
  assumes "poll_loop r lease a wid c ps = Some (Remote_Result res)"
  shows "\<exists>p\<in>set ps. \<exists>status. po_status p = Inr status \<and> lsr_result status = Some res"
  using assms
proof (induction ps arbitrary: c)
  case (Cons q ps)
  show ?case
  proof (cases "\<exists>status. po_status q = Inr status \<and> poll_status r lease a wid q status = Some (Remote_Result res)")
    case True
    then show ?thesis using poll_status_Result by (metis list.set_intros(1))
  next
    case False
    then have "\<exists>c'. poll_loop r lease a wid c' ps = Some (Remote_Result res)"
      using Cons.prems by (auto split: if_splits sum.splits option.splits remote_call_error.splits)
    then show ?thesis using Cons.IH by (metis list.set_intros(2))
  qed
qed simp

lemma open_lease_Inr:
  assumes "open_lease r world request = Inr (lr, lease, wid)"
  shows "lcr_attempt_id lr = rwo_attempt_id world" and "build_remote_request r (rwo_tree world) request = Inr (lcr_execution lr)"
    and "rwo_post world lr = Inr lease"
  using assms by (auto simp: open_lease_def Let_def rbind_Inr_iff map_err_Inr_iff if_Inl_iff)

lemma create_lease_accepted:
  assumes "create_lease w auth (Inr lr) fresh now s = ((202, Created_Body lease), s')" and "book_wf (wk_book s)"
  shows "\<exists>e. bt_get (lb_leases (wk_book s')) (lcp_lease_id lease) = Some e \<and> le_attempt_id e = lcr_attempt_id lr \<and> le_execution e = lcr_execution lr"
proof -
  have auth: "authorize w auth" using assms(1) by (auto simp: create_lease_def unauthorized_def split: if_splits)
  obtain q b where r: "reserve_lease w fresh now lr (wk_book s) = (q, b)" by (rule prod.exhaust)
  have q: "q = Inr lease" and b: "wk_book s' = b"
    using assms(1) auth r by (auto simp: create_lease_def split: sum.splits if_splits elim!: reserve_error_response.elims)
  have index: "bt_get (lb_attempts (wk_book s)) a = Some l \<longleftrightarrow> attempt_of (wk_book s) l = Some a" for a l using assms(2) by (simp add: book_wf_def)
  show ?thesis using r unfolding q
    by (auto simp: b reserve_lease_def create_response_def new_lease_def index attempt_of_def split: sum.splits option.splits if_splits)
qed

lemma get_lease_status:
  "get_lease w auth l s = (200, Status_Body st) \<Longrightarrow> \<exists>e. bt_get (lb_leases (wk_book s)) l = Some e \<and> lsr_result st = le_result e"
  by (auto simp: get_lease_def unauthorized_def lease_status_def split: if_splits option.splits)

subsection \<open>Paths\<close>

lemma normal_components_Nil [simp]: "normal_components [] = []"
  by (simp add: normal_components_def)

lemma normal_components_Cons:
  "normal_components (seg # segs) = (if seg = [] \<or> seg = ''.'' then [] else [if seg = ''..'' then ParentDir else Normal seg]) @ normal_components segs"
  by (simp add: normal_components_def)

lemma normal_components_skip: "normal_components (skip_components n segs) = drop n (normal_components segs)"
  by (induction n segs rule: skip_components.induct) (auto simp: normal_components_Cons split: nat.splits)

lemma normal_components_trim: "normal_components (trim_segments segs) = normal_components segs"
proof -
  have "normal_components (rev (dropWhile (\<lambda>seg. seg = [] \<or> seg = ''.'') xs)) = normal_components (rev xs)" for xs
    by (induction xs) (auto simp: normal_components_append normal_components_Cons)
  from this[of "rev segs"] show ?thesis by (simp add: trim_segments_def)
qed

lemma set_skip_components: "set (skip_components n segs) \<subseteq> set segs"
  by (induction n segs rule: skip_components.induct) (auto split: nat.splits)

lemma skip_components_hd: "skip_components n segs = seg # rest \<Longrightarrow> seg \<noteq> [] \<and> seg \<noteq> ''.''"
  by (induction n segs rule: skip_components.induct) (auto split: if_splits nat.splits)

lemma set_trim_segments: "set (trim_segments segs) \<subseteq> set segs"
  by (auto simp: trim_segments_def dest: set_dropWhileD)

lemma trim_segments_hd: "trim_segments segs = seg # rest \<Longrightarrow> \<exists>rest'. segs = seg # rest'"
proof -
  assume trim: "trim_segments segs = seg # rest"
  obtain tail where "rev segs = tail @ dropWhile (\<lambda>seg. seg = [] \<or> seg = ''.'') (rev segs)" by (metis takeWhile_dropWhile_id)
  then have "segs = trim_segments segs @ rev tail" unfolding trim_segments_def by (metis rev_append rev_rev_ident)
  then show ?thesis using trim by simp
qed

lemma split_on_no: "d \<notin> set s \<Longrightarrow> split_on d s = [s]"
  by (induction s) auto

lemma split_on_join: "segs \<noteq> [] \<Longrightarrow> (\<forall>seg\<in>set segs. d \<notin> set seg) \<Longrightarrow> split_on d (join [d] segs) = segs"
proof (induction "[d]" segs rule: join.induct)
  case (3 s t ts)
  then show ?case using split_on_append[of d s] by (simp add: split_on_no)
qed (simp_all add: split_on_no)

lemma remainder_components:
  assumes "is_absolute v" and "n \<noteq> 0"
  shows "\<not> is_absolute (path_remainder v n)"
    and "normal_components (split_on CHR ''/'' (path_remainder v n)) = drop n (path_components v)"
    and "path_remainder v n = [] \<Longrightarrow> drop n (path_components v) = []"
proof -
  obtain m where m: "n = Suc m" using assms(2) by (cases n) auto
  let ?segs = "trim_segments (skip_components m (split_on CHR ''/'' v))"
  have rem: "path_remainder v n = join ''/'' ?segs" by (simp add: path_remainder_def m)
  have comps: "drop n (path_components v) = normal_components ?segs"
    using assms(1) by (simp add: m normal_components_trim normal_components_skip path_components_def is_absolute_def)
  have sep: "\<forall>seg\<in>set ?segs. CHR ''/'' \<notin> set seg"
    using set_trim_segments set_skip_components split_on_no_sep by fast
  have ne: "seg \<noteq> []" if "?segs = seg # rest" for seg rest
    using trim_segments_hd[OF that] skip_components_hd by blast
  show "\<not> is_absolute (path_remainder v n)"
  proof (cases ?segs)
    case (Cons seg rest)
    then obtain c cs where "seg = c # cs" using ne by (cases seg) auto
    moreover have "c \<noteq> CHR ''/''" using sep Cons calculation by auto
    ultimately show ?thesis unfolding rem Cons by (cases rest) (auto simp: is_absolute_def)
  qed (simp add: rem is_absolute_def)
  show split: "normal_components (split_on CHR ''/'' (path_remainder v n)) = drop n (path_components v)"
    unfolding rem comps using split_on_join[OF _ sep] by (cases "?segs = []") (simp_all add: normal_components_Cons)
  show "path_remainder v n = [] \<Longrightarrow> drop n (path_components v) = []"
    using split by (simp add: normal_components_Cons normal_components_def)
qed

subsection \<open>The pool\<close>

lemma discover_workers_set:
  assumes "discover_workers describe ids el dg ws = Inr (el', dg')"
  shows "set el' = set el \<union> {(x, wd_worker_id d) |x d. x \<in> set ws \<and> discover_eligible x (describe x) = Inr d}"
  using assms
proof (induction ws arbitrary: ids el dg)
  case (Cons x ws)
  show ?case
  proof (cases "discover_eligible x (describe x)")
    case (Inl e)
    with Cons show ?thesis by auto
  next
    case (Inr d)
    with Cons.prems have "discover_workers describe (bt_insert (wd_worker_id d) (rem_endpoint x) ids) (el @ [(x, wd_worker_id d)]) dg ws = Inr (el', dg')"
      by (auto split: option.splits)
    from Cons.IH[OF this] Inr show ?thesis by auto
  qed
qed simp

lemma rank_workers_least:
  assumes "rank_workers loads el = x # rest"
  shows "x \<in> set el" and "y \<in> set el \<Longrightarrow> load_of loads (fst x) \<le> load_of loads (fst y)"
proof -
  let ?k = "\<lambda>(worker, i). (load_of loads worker, i, rem_endpoint worker)"
  have set: "set (x # rest) = set el" using assms set_sort[of ?k el] by (metis rank_workers_def)
  then show "x \<in> set el" by auto
  have sorted: "sorted (map ?k (x # rest))" using sorted_sort_key[of ?k el] unfolding assms[unfolded rank_workers_def] .
  assume "y \<in> set el"
  then have "y \<in> set (x # rest)" using set by simp
  then have "?k x \<le> ?k y" using sorted by auto
  then show "load_of loads (fst x) \<le> load_of loads (fst y)" by (cases x; cases y) (auto simp: less_eq_prod_def)
qed

lemma pool_select_Inr:
  assumes "pool_select describe p = (Inr (x, i, key), p')"
  shows "x \<in> set (rp_workers p)" and "\<exists>d. discover_eligible x (describe x) = Inr d \<and> wd_worker_id d = i"
    and "y \<in> set (rp_workers p) \<Longrightarrow> discover_eligible y (describe y) = Inr d \<Longrightarrow> load_of (rp_in_flight p) x \<le> load_of (rp_in_flight p) y"
    and "key = rem_endpoint x" and "p' = p\<lparr>rp_in_flight := bt_insert key (saturating_add (load_of (rp_in_flight p) x) 1) (rp_in_flight p)\<rparr>"
proof -
  obtain el dg rest where d: "discover_workers describe [] [] [] (rp_workers p) = Inr (el, dg)" and rank: "rank_workers (rp_in_flight p) el = (x, i) # rest"
    and key: "key = rem_endpoint x" and p': "p' = p\<lparr>rp_in_flight := bt_insert key (saturating_add (load_of (rp_in_flight p) x) 1) (rp_in_flight p)\<rparr>"
    using assms by (auto simp: pool_select_def split: sum.splits list.splits)
  note el = discover_workers_set[OF d]
  show "x \<in> set (rp_workers p)" "\<exists>d. discover_eligible x (describe x) = Inr d \<and> wd_worker_id d = i"
    using rank_workers_least(1)[OF rank] unfolding el by auto
  show "y \<in> set (rp_workers p) \<Longrightarrow> discover_eligible y (describe y) = Inr d \<Longrightarrow> load_of (rp_in_flight p) x \<le> load_of (rp_in_flight p) y"
    using rank_workers_least(2)[OF rank, of "(y, wd_worker_id d)"] unfolding el by auto
  show "key = rem_endpoint x" "p' = p\<lparr>rp_in_flight := bt_insert key (saturating_add (load_of (rp_in_flight p) x) 1) (rp_in_flight p)\<rparr>"
    using key p' by simp_all
qed

lemma pool_select_Inl: "pool_select describe p = (Inl e, p') \<Longrightarrow> p' = p"
  by (auto simp: pool_select_def split: sum.splits list.splits)

text \<open>The map of loads counts the guards held.\<close>

definition loads_counted :: "(string, u64) btree \<Rightarrow> string list \<Rightarrow> bool" where
  "loads_counted loads guards \<longleftrightarrow> length guards < 2 ^ 64
     \<and> (\<forall>k. bt_get loads k = (if k \<in> set guards then Some (word_of_nat (count_list guards k)) else None))"

lemma unat_u64: "n < 2 ^ 64 \<Longrightarrow> unat (word_of_nat n :: u64) = n"
  by (simp add: unsigned_of_nat take_bit_nat_eq_self_iff)

lemma count_less: "length guards < 2 ^ 64 \<Longrightarrow> unat (word_of_nat (count_list guards k) :: u64) = count_list guards k"
  using count_le_length[of guards k] by (intro unat_u64) linarith

lemma loads_counted_load:
  assumes "loads_counted loads guards"
  shows "unat (load_of loads x) = count_list guards (rem_endpoint x)"
  using assms count_less[of guards "rem_endpoint x"] count_list_0_iff[of guards "rem_endpoint x"]
  by (auto simp: loads_counted_def load_of_def)

lemma loads_counted_insert:
  assumes "loads_counted loads guards" and "length guards < 2 ^ 64 - 1"
  shows "loads_counted (bt_insert (rem_endpoint x) (saturating_add (load_of loads x) 1) loads) (rem_endpoint x # guards)"
proof -
  let ?n = "count_list guards (rem_endpoint x)"
  have "?n < 2 ^ 64 - 1" using count_le_length[of guards "rem_endpoint x"] assms(2) by linarith
  then have "checked_add (load_of loads x) 1 = Some (word_of_nat (Suc ?n))"
    unfolding checked_add_Some_iff loads_counted_load[OF assms(1)] by (subst unat_u64) simp_all
  then have "saturating_add (load_of loads x) 1 = word_of_nat (Suc ?n)" by (simp add: saturating_add_def)
  then show ?thesis using assms by (auto simp: loads_counted_def)
qed

lemma count_list_remove1: "count_list (remove1 k xs) j = (if j = k then count_list xs k - 1 else count_list xs j)"
  by (induction xs) (auto simp: count_list_0_iff)

lemma loads_counted_drop:
  assumes "loads_counted (rp_in_flight p) guards" and "k \<in> set guards"
  shows "loads_counted (rp_in_flight (drop_guard k p)) (remove1 k guards)"
proof -
  let ?n = "count_list guards k"
  have pos: "0 < ?n" using assms(2) count_list_0_iff[of guards k] by auto
  have un: "unat (word_of_nat ?n :: u64) = ?n" using count_less[of guards k] assms(1) unfolding loads_counted_def by blast
  have get: "bt_get (rp_in_flight p) k = Some (word_of_nat ?n)" using assms by (simp add: loads_counted_def)
  have "1 \<le> (word_of_nat ?n :: u64)" using un pos by (simp add: word_le_nat_alt)
  then have sub: "saturating_sub (word_of_nat ?n) 1 = (word_of_nat (?n - 1) :: u64)"
    using pos by (simp add: saturating_sub_def)
  have zero: "(word_of_nat (?n - 1) :: u64) = 0 \<longleftrightarrow> ?n = 1"
  proof -
    have "unat (word_of_nat (?n - 1) :: u64) = ?n - 1" using count_le_length[of guards k] assms(1) unfolding loads_counted_def by (intro unat_u64) linarith
    then show ?thesis using pos by (metis One_nat_def Suc_pred unat_eq_zero diff_Suc_1)
  qed
  have mem: "j \<in> set (remove1 k guards) \<longleftrightarrow> (if j = k then ?n \<noteq> 1 else j \<in> set guards)" for j
    using count_list_remove1[of k guards j] count_list_0_iff[of "remove1 k guards" j] count_list_0_iff[of guards j] pos by (auto split: if_splits)
  have "length (remove1 k guards) < 2 ^ 64" using assms(1) length_remove1[of k guards] by (simp add: loads_counted_def split: if_splits)
  moreover have "bt_get (rp_in_flight (drop_guard k p)) j = (if j = k then if ?n = 1 then None else Some (word_of_nat (?n - 1)) else bt_get (rp_in_flight p) j)" for j
    unfolding drop_guard_def get option.case Let_def sub zero by simp
  ultimately show ?thesis
    using assms(1) unfolding loads_counted_def mem count_list_remove1 by simp
qed

lemma drop_guard_workers [simp]: "rp_workers (drop_guard k p) = rp_workers p"
  by (simp add: drop_guard_def Let_def split: option.splits)

lemma pool_run_counted:
  assumes "pool_run p0 (p, guards)" and "rp_in_flight p0 = []"
  shows "loads_counted (rp_in_flight p) guards \<and> rp_workers p = rp_workers p0"
  using assms
proof (induction "(p, guards)" arbitrary: p guards rule: pool_run.induct)
  case Start
  then show ?case by (simp add: loads_counted_def)
next
  case (Select p guards describe x i key p')
  then show ?case using loads_counted_insert pool_select_Inr(4,5)[OF Select(3)] by simp
next
  case (Refused p guards describe e p')
  then show ?case using pool_select_Inl by blast
next
  case (Dropped p guards key)
  then show ?case using loads_counted_drop by simp
qed

lemma trim_end_slashes_idem [simp]: "trim_end_slashes (trim_end_slashes s) = trim_end_slashes s"
  by (simp add: trim_end_slashes_def)

lemma pool_workers_distinct:
  assumes "pool_workers seen cs = Inr ws"
  shows "distinct (map rem_endpoint ws) \<and> seen \<inter> rem_endpoint ` set ws = {} \<and> length ws = length cs"
  using assms
proof (induction seen cs arbitrary: ws rule: pool_workers.induct)
  case (2 seen endpoint token cs)
  let ?n = "trim_end_slashes endpoint"
  from "2.prems" obtain x xs where ws: "ws = x # xs" and n: "?n \<notin> seen" "token \<noteq> []" and x: "remote_new ?n token = Inr x"
    and rest: "pool_workers (insert ?n seen) cs = Inr xs"
    by (auto simp: Let_def rbind_Inr_iff split: if_splits)
  have "rem_endpoint x = ?n" using x by (auto simp: remote_new_def Let_def split: if_splits)
  then show ?case using "2.IH"[OF refl n rest] n ws by auto
qed simp

section \<open>Properties\<close>

text \<open>C16. A remote execution does not poll for ever: once the lease was opened, an observation of the cancellation
  flag or of a clock past the expiry of the lease ends it, whatever the worker answered before.\<close>

theorem remote_execution_ends:
  assumes "p \<in> set (rwo_polls world)" and "open_lease r world request = Inr (lr, lease, wid)"
    and "po_cancelled p \<or> lcp_expires_at_ms lease < po_now p"
  shows "\<exists>e. remote_execute r world request = Some e"
  using poll_loop_ends[OF assms(1,3)] assms(2) by (simp add: remote_execute_def)

definition example_remote :: remote_executor where
  "example_remote = \<lparr>rem_endpoint = ''http://w'', rem_token = ''t'', rem_backend_id = ''remote:http://w'', rem_poll_interval_ms = 100,
     rem_lost_after_ms = 3000, rem_max_payload_bytes = 64, rem_expected_worker_id = None\<rparr>"

definition example_remote_request :: execution_request where
  "example_remote_request = \<lparr>er_program = ''p'', er_args = [''/h/r/x''], er_working_dir = ''/h/r'', er_env = [], er_timeout_ms = 5,
     er_max_capture_bytes_per_stream = 9\<rparr>"

text \<open>A world in which the worker of \<open>Hub_Worker\<close> answers: the polls read its state before and after the execution.\<close>

definition finished :: worker_state where
  "finished = advance 0 (advance 0 (advance 0 (post worker_start)))"

definition example_poll :: "worker_state \<Rightarrow> u64 \<Rightarrow> poll" where
  "example_poll s now = \<lparr>po_cancelled = False, po_now = now,
     po_status = (case lease_status example_worker ''l'' (wk_book s) of Some st \<Rightarrow> Inr st | None \<Rightarrow> Inl (Status 404 [])),
     po_heartbeat_now = now, po_instant = 0, po_io = \<lambda>_. None\<rparr>"

definition example_remote_world :: "poll list \<Rightarrow> remote_world" where
  "example_remote_world ps = \<lparr>rwo_cancelled = False, rwo_describe = Inr (worker_describe example_worker),
     rwo_tree = \<lparr>lt_is_dir = True, lt_directories = Inr [], lt_files = \<lambda>_. Inr [\<lparr>rf_path = ''in/x'', rf_bytes = ''b''\<rparr>]\<rparr>,
     rwo_attempt_id = ''a'',
     rwo_post = (\<lambda>lr. case create_lease example_worker (Some ''Bearer t'') (Inr lr) ''l'' 0 worker_start of
       ((_, Created_Body lease), _) \<Rightarrow> Inr lease | _ \<Rightarrow> Inl (Status 500 [])),
     rwo_first_contact = 0, rwo_polls = ps\<rparr>"

definition example_lease :: lease_create_response where
  "example_lease = create_response example_worker ''l'' (new_lease 0 example_lease_request)"

lemma example_open_lease: "open_lease example_remote (example_remote_world ps) example_remote_request = Inr (example_lease_request, example_lease, ''w'')"
proof -
  have "open_lease example_remote (example_remote_world ps) example_remote_request = open_lease example_remote (example_remote_world []) example_remote_request"
    by (simp add: open_lease_def example_remote_world_def)
  also have "\<dots> = Inr (example_lease_request, example_lease, ''w'')" by code_simp
  finally show ?thesis .
qed

theorem remote_execution_ends_witness:
  "\<exists>e. remote_execute example_remote (example_remote_world [example_poll (post worker_start) 1, example_poll (post worker_start) 40000]) example_remote_request = Some e"
proof -
  have late: "po_cancelled (example_poll (post worker_start) 40000) \<or> lcp_expires_at_ms example_lease < po_now (example_poll (post worker_start) 40000)"
    by code_simp
  show ?thesis
    by (rule remote_execution_ends[OF _ example_open_lease late]) (simp add: example_remote_world_def)
qed

text \<open>C10. What the hub takes as the result of a remote execution is what the worker's book holds for its attempt, and
  holds for good: the lease was opened with exactly the payload built from the hub's request, and at every later
  moment of the worker the lease is over, with that result. The polls are answered by the worker's own
  handler, in states it reaches after it accepted the lease, in whatever interleaving.\<close>

theorem remote_result_recorded:
  assumes "worker_run w worker_start s0"
    and "open_lease r world request = Inr (lr, lease, wid)"
    and "bt_get (lb_leases (wk_book s0)) fresh = None"
    and "create_lease w auth (Inr lr) fresh now s0 = ((202, Created_Body lease), s1)"
    and "\<forall>p\<in>set (rwo_polls world). \<forall>st. po_status p = Inr st \<longrightarrow>
          (\<exists>s. worker_run w s1 s \<and> worker_run w s t \<and> get_lease w auth (lcp_lease_id lease) s = (200, Status_Body st))"
    and "remote_execute r world request = Some (Remote_Result res)"
  shows "\<exists>e. bt_get (lb_leases (wk_book t)) (lcp_lease_id lease) = Some e \<and> le_result e = Some res \<and> lease_is_terminal (le_state e)
    \<and> le_attempt_id e = rwo_attempt_id world \<and> build_remote_request r (rwo_tree world) request = Inr (le_execution e)"
proof -
  note inv0 = reachable_inv[OF assms(1)]
  have "worker_step w s0 s1" using worker_step.Create[OF assms(3), of w auth "Inr lr" now] assms(4) by simp
  note inv1 = worker_step_inv[OF this inv0]
  obtain e1 where e1: "bt_get (lb_leases (wk_book s1)) (lcp_lease_id lease) = Some e1" "le_attempt_id e1 = lcr_attempt_id lr" "le_execution e1 = lcr_execution lr"
    using create_lease_accepted[OF assms(4)] inv0 by (auto simp: worker_inv_def)
  obtain p st where p: "p \<in> set (rwo_polls world)" "po_status p = Inr st" "lsr_result st = Some res"
    using assms(2,6) poll_loop_Result by (fastforce simp: remote_execute_def split: if_splits)
  then obtain s where s: "worker_run w s1 s" "worker_run w s t" "get_lease w auth (lcp_lease_id lease) s = (200, Status_Body st)"
    using assms(5) by blast
  note invs = worker_run_inv[OF s(1) inv1]
  note invt = worker_run_inv[OF s(2) invs[THEN conjunct1]]
  obtain es where es: "bt_get (lb_leases (wk_book s)) (lcp_lease_id lease) = Some es" "le_result es = Some res"
    using get_lease_status[OF s(3)] p(3) by auto
  have le1: "lease_le e1 es" using invs e1(1) es(1) unfolding book_le_def by fastforce
  obtain et where et: "bt_get (lb_leases (wk_book t)) (lcp_lease_id lease) = Some et" "lease_le es et"
    using invt es(1) unfolding book_le_def by blast
  have "le_result et = Some res" using et(2) es(2) by (simp add: lease_le_def)
  moreover have "entry_ok et" using invt et(1) unfolding worker_inv_def book_wf_def by blast
  moreover have "lease_le e1 et" using lease_le_trans[OF le1 et(2)] .
  ultimately show ?thesis using et(1) e1(2,3) open_lease_Inr[OF assms(2)] by (simp add: entry_ok_def lease_le_def)
qed

lemma example_finished: "worker_run example_worker (post worker_start) finished"
proof -
  let ?s = "post worker_start"
  have l: "0 < length (wk_runners ?s)" "0 < length (wk_runners (advance 0 ?s))" "0 < length (wk_runners (advance 0 (advance 0 ?s)))"
    by code_simp+
  show ?thesis unfolding finished_def
    by (intro advance_step[OF _ refl] worker_run.Refl l)
qed

theorem remote_result_recorded_witness:
  "\<exists>e res. bt_get (lb_leases (wk_book finished)) ''l'' = Some e \<and> le_result e = Some res
     \<and> remote_execute example_remote (example_remote_world [example_poll (post worker_start) 1, example_poll finished 2]) example_remote_request
         = Some (Remote_Result res)"
proof -
  let ?ps = "[example_poll (post worker_start) 1, example_poll finished 2]"
  let ?res = "\<lparr>rxr_outcome = end_outcome (\<lambda>_. []) 1 Remote_Cancelled\<lparr>eo_exit_code := Some 0, eo_cancelled := False\<rparr>, rxr_files = []\<rparr>"
  have posted: "create_lease example_worker (Some ''Bearer t'') (Inr example_lease_request) ''l'' 0 worker_start
      = ((202, Created_Body example_lease), post worker_start)"
    unfolding post_def by code_simp
  have id: "lcp_lease_id example_lease = ''l''" by (simp add: example_lease_def create_response_def)
  have answers: "\<exists>s. worker_run example_worker (post worker_start) s \<and> worker_run example_worker s finished
      \<and> get_lease example_worker (Some ''Bearer t'') (lcp_lease_id example_lease) s = (200, Status_Body st)"
    if "p \<in> set ?ps" "po_status p = Inr st" for p st
  proof -
    from that(1) obtain s now where p: "p = example_poll s now" and s: "s = post worker_start \<or> s = finished" by auto
    have "authorize example_worker (Some ''Bearer t'')" by code_simp
    then have "get_lease example_worker (Some ''Bearer t'') ''l'' s = (200, Status_Body st)"
      using that(2) by (auto simp: p example_poll_def get_lease_def split: option.splits)
    then show ?thesis using s example_finished worker_run.Refl unfolding id by blast
  qed
  have run: "remote_execute example_remote (example_remote_world ?ps) example_remote_request = Some (Remote_Result ?res)"
    by code_simp
  have none: "bt_get (lb_leases (wk_book worker_start)) ''l'' = None" by (simp add: worker_start_def empty_book_def)
  have "\<forall>p\<in>set (rwo_polls (example_remote_world ?ps)). \<forall>st. po_status p = Inr st \<longrightarrow>
      (\<exists>s. worker_run example_worker (post worker_start) s \<and> worker_run example_worker s finished
        \<and> get_lease example_worker (Some ''Bearer t'') (lcp_lease_id example_lease) s = (200, Status_Body st))"
    using answers by (simp add: example_remote_world_def)
  from remote_result_recorded[OF worker_run.Refl example_open_lease none posted this run] run show ?thesis unfolding id by blast
qed



text \<open>
  The token is text like any other: an argument that spells it is not a path of the hub, is sent as it
  is, and is expanded on the worker.
\<close>

lemma literal_token_rewritten: "expand_workdir_path (encode_workdir_path ''{hub-workdir}/x'' ''/h/r'') ''/k'' = ''/k/x''"
  by code_simp

text \<open>C24. The pool places an execution on an eligible worker of its configuration that has as few executions in
  flight as any other eligible one, where an execution is in flight from its selection until its guard is dropped: the map
  of loads always counts exactly the guards held, with no entry left for a worker that has none, and no two
  workers share an endpoint.\<close>

theorem pool_places_least_loaded:
  assumes "from_credentials credentials = Inr p0" and "pool_run p0 (p, guards)" and "pool_select describe p = (Inr (x, i, key), p')"
  shows "x \<in> set (rp_workers p0) \<and> (\<exists>d. discover_eligible x (describe x) = Inr d \<and> wd_worker_id d = i) \<and> key = rem_endpoint x
    \<and> (\<forall>y\<in>set (rp_workers p0). \<forall>d. discover_eligible y (describe y) = Inr d \<longrightarrow>
         count_list guards (rem_endpoint x) \<le> count_list guards (rem_endpoint y))
    \<and> (\<forall>k. bt_get (rp_in_flight p) k = (if k \<in> set guards then Some (word_of_nat (count_list guards k)) else None))
    \<and> distinct (map rem_endpoint (rp_workers p0))"
proof -
  have empty: "rp_in_flight p0 = []" and dist: "distinct (map rem_endpoint (rp_workers p0))"
    using assms(1) pool_workers_distinct by (auto simp: from_credentials_def rbind_Inr_iff split: if_splits)
  note run = pool_run_counted[OF assms(2) empty]
  have loads: "unat (load_of (rp_in_flight p) y) = count_list guards (rem_endpoint y)" for y
    using loads_counted_load run by blast
  have "count_list guards (rem_endpoint x) \<le> count_list guards (rem_endpoint y)"
    if "y \<in> set (rp_workers p0)" "discover_eligible y (describe y) = Inr d" for y d
    using pool_select_Inr(3)[OF assms(3), of y d] that run unfolding loads[symmetric] by (simp add: word_le_nat_alt)
  then show ?thesis
    using pool_select_Inr(1,2,4)[OF assms(3)] run dist unfolding loads_counted_def by simp
qed

definition example_pool :: remote_pool where
  "example_pool = \<lparr>rp_workers = map (\<lambda>e. \<lparr>rem_endpoint = e, rem_token = ''t'', rem_backend_id = ''remote:'' @ e, rem_poll_interval_ms = 100,
     rem_lost_after_ms = 3000, rem_max_payload_bytes = 67108864, rem_expected_worker_id = None\<rparr>) [''http://a'', ''http://b''], rp_in_flight = []\<rparr>"

definition example_descriptor :: "remote_executor \<Rightarrow> remote_call_error + worker_descriptor" where
  "example_descriptor x = Inr \<lparr>wd_protocol_version = 1, wd_worker_id = rem_endpoint x, wd_capabilities = [''process.execute.v1''],
     wd_max_payload_bytes = 67108864, wd_heartbeat_interval_ms = 250\<rparr>"

lemmas pool_eval = pool_select_def discover_workers.simps discover_eligible_def example_descriptor_def WORKER_PROTOCOL_VERSION_def
  PROCESS_EXECUTION_CAPABILITY_def rank_workers_def load_of_def saturating_add_def

lemma example_pool_configured: "from_credentials [(''http://a/'', ''t''), (''http://b'', ''t'')] = Inr example_pool"
  by (simp add: from_credentials_def example_pool_def remote_new_def trim_end_slashes_def DEFAULT_POLL_MS_def DEFAULT_LOST_AFTER_MS_def
      DEFAULT_MAX_PAYLOAD_BYTES_def starts_with_def Let_def)

definition example_eligible :: "(remote_executor \<times> string) list" where
  "example_eligible = map (\<lambda>x. (x, rem_endpoint x)) (rp_workers example_pool)"

lemma example_discovered: "discover_workers example_descriptor [] [] [] (rp_workers example_pool) = Inr (example_eligible, [])"
proof -
  have "trim ''http://a'' \<noteq> []" "trim ''http://b'' \<noteq> []" by code_simp+
  then show ?thesis by (simp add: pool_eval example_pool_def example_eligible_def)
qed

definition busy_pool :: remote_pool where
  "busy_pool = example_pool\<lparr>rp_in_flight := [(''http://a'', 1)]\<rparr>"

lemma example_select:
  "pool_select example_descriptor example_pool = (Inr (hd (rp_workers example_pool), ''http://a'', ''http://a''), busy_pool)"
  "pool_select example_descriptor busy_pool = (Inr (last (rp_workers example_pool), ''http://b'', ''http://b''), busy_pool\<lparr>rp_in_flight := [(''http://a'', 1), (''http://b'', 1)]\<rparr>)"
proof -
  have "''http://a'' \<le> ''http://b''" by code_simp
  then have rank: "rank_workers [] example_eligible = example_eligible" "rank_workers [(''http://a'', 1)] example_eligible = rev example_eligible"
    by (simp_all add: rank_workers_def load_of_def example_eligible_def example_pool_def)
  have workers: "rp_workers busy_pool = rp_workers example_pool" by (simp add: busy_pool_def)
  have flight: "rp_in_flight example_pool = []" "rp_in_flight busy_pool = [(''http://a'', 1)]" by (simp_all add: busy_pool_def example_pool_def)
  have "saturating_add 0 1 = 1" by code_simp
  then show "pool_select example_descriptor example_pool = (Inr (hd (rp_workers example_pool), ''http://a'', ''http://a''), busy_pool)"
    "pool_select example_descriptor busy_pool = (Inr (last (rp_workers example_pool), ''http://b'', ''http://b''), busy_pool\<lparr>rp_in_flight := [(''http://a'', 1), (''http://b'', 1)]\<rparr>)"
    unfolding pool_select_def workers example_discovered sum.case prod.case flight rank
    by (simp_all add: example_eligible_def example_pool_def busy_pool_def load_of_def)
qed

theorem pool_places_least_loaded_witness:
  "pool_run example_pool (busy_pool, [''http://a'']) \<and> count_list [''http://a''] ''http://b'' \<le> count_list [''http://a''] ''http://a''
   \<and> pool_select example_descriptor busy_pool = (Inr (last (rp_workers example_pool), ''http://b'', ''http://b''),
       busy_pool\<lparr>rp_in_flight := [(''http://a'', 1), (''http://b'', 1)]\<rparr>)"
proof -
  have run: "pool_run example_pool (busy_pool, [''http://a''])"
    by (rule pool_run.Select[OF pool_run.Start example_select(1)]) simp
  have "hd (rp_workers example_pool) \<in> set (rp_workers example_pool)" "rem_endpoint (hd (rp_workers example_pool)) = ''http://a''"
    "rem_endpoint (last (rp_workers example_pool)) = ''http://b''" by (simp_all add: example_pool_def)
  moreover have "\<exists>d. discover_eligible (hd (rp_workers example_pool)) (example_descriptor (hd (rp_workers example_pool))) = Inr d"
    using example_discovered by (auto simp: example_pool_def split: sum.splits)
  ultimately show ?thesis
    using pool_places_least_loaded[OF example_pool_configured run example_select(2)] run example_select(2) by fastforce
qed

end
