(* ===== verification/Hub_Capacity.thy ===== *)
theory Hub_Capacity
  imports Hub_Exec
begin

text \<open>
  The executor with a ceiling on local executions
  (\<open>src/crates/hub-executor/src/local_capacity.rs\<close>): the shared state behind its lock, one iteration
  of the waiting loop, and the calls of \<open>execute\<close> as they interleave. Clock readings, the
  cancellation flag and the inner process executor are parameters. Durations are in nanoseconds.
\<close>

section \<open>Model\<close>

record capacity =
  lc_limit :: nat
  lc_backend :: string
  lc_active :: nat
  lc_quarantined :: bool

definition capacity_new :: "nat \<Rightarrow> message + capacity" where
  "capacity_new limit =
     (if \<not> (1 \<le> limit \<and> limit \<le> 256) then Inl (plain ''local max inflight must be in 1..=256'')
      else Inr \<lparr>lc_limit = limit, lc_backend = ''process-capacity/v1/slots/'' @ show_nat limit, lc_active = 0, lc_quarantined = False\<rparr>)"

definition unavailable :: executor_failure where
  "unavailable = Backend (plain ''local capacity quarantined or poisoned; execution termination is unproven'')"

abbreviation millis :: "nat \<Rightarrow> nat" where
  "millis n \<equiv> n * 1000000"

text \<open>One iteration of the loop of \<open>acquire\<close>: an answer, or another wait.\<close>

datatype acquisition = Acquired capacity | Not_Acquired executor_failure | Wait

definition acquire_once :: "bool \<Rightarrow> nat \<Rightarrow> u64 \<Rightarrow> capacity \<Rightarrow> acquisition" where
  "acquire_once cancelled elapsed timeout_ms c =
     (if lc_quarantined c then Not_Acquired unavailable
      else if cancelled then Not_Acquired ExecCancelled
      else if millis (unat timeout_ms) - elapsed < millis 1 then Not_Acquired (TimedOut timeout_ms)
      else if lc_active c < lc_limit c then Acquired (c\<lparr>lc_active := lc_active c + 1\<rparr>)
      else Wait)"

text \<open>Dropping a slot; \<open>None\<close> when the counter would underflow.\<close>

definition drop_slot :: "bool \<Rightarrow> capacity \<Rightarrow> capacity option" where
  "drop_slot completed c =
     (if completed then (case lc_active c of 0 \<Rightarrow> None | Suc n \<Rightarrow> Some (c\<lparr>lc_active := n\<rparr>))
      else Some (c\<lparr>lc_quarantined := True\<rparr>))"

definition capacity_descriptor :: "capacity \<Rightarrow> backend_descriptor" where
  "capacity_descriptor c =
     \<lparr>bd_backend_id = lc_backend c, bd_isolation = Iso_Process, bd_isolation_qualified = False, bd_isolation_evidence_id = None,
      bd_enforces_network_policy = False, bd_enforces_default_deny_network = False, bd_enforces_workspace_write_policy = False,
      bd_resources = \<lparr>re_wall_clock_ms = True, re_cpu_millis = False, re_memory_bytes = False, re_gpu_devices = False, re_model_tokens = False\<rparr>,
      bd_capabilities = []\<rparr>"

text \<open>The second test of \<open>execute\<close>, after admission: the request for the inner executor, with what is left of the timeout.\<close>

definition bound_request :: "bool \<Rightarrow> nat \<Rightarrow> execution_request \<Rightarrow> executor_failure + execution_request" where
  "bound_request cancelled elapsed request =
     (if cancelled then Inl ExecCancelled
      else
        let bounded = request\<lparr>er_timeout_ms := word_of_nat ((millis (unat (er_timeout_ms request)) - elapsed) div millis 1)\<rparr> in
        if er_timeout_ms bounded = 0 then Inl (TimedOut (er_timeout_ms request)) else Inr bounded)"

text \<open>The inner executor answers, or panics (\<open>None\<close>); the answer of \<open>execute\<close> and whether the slot is completed.\<close>

definition inner_result :: "u64 \<Rightarrow> (executor_failure + execution_outcome) option \<Rightarrow> (executor_failure + execution_outcome) option \<times> bool" where
  "inner_result elapsed_ms answer =
     (case answer of
        Some (Inr out) \<Rightarrow> (Some (Inr (out\<lparr>eo_duration_ms := elapsed_ms\<rparr>)), True)
      | Some (Inl e) \<Rightarrow> (Some (Inl e), False)
      | None \<Rightarrow> (None, False))"

subsection \<open>Concurrent calls\<close>

text \<open>A call of \<open>execute\<close>: before its slot, with its slot, or in the inner executor.\<close>

datatype call = Acquiring execution_request | Admitted execution_request | Dispatched execution_request execution_request

record calls =
  ca_capacity :: capacity
  ca_calls :: "call list"
  ca_leaked :: nat

inductive call_step :: "calls \<Rightarrow> calls \<Rightarrow> bool" where
  Call: "call_step s (s\<lparr>ca_calls := Acquiring request # ca_calls s\<rparr>)"
| Acquire: "ca_calls s = xs @ Acquiring request # ys \<Longrightarrow>
    acquire_once cancelled elapsed (er_timeout_ms request) (ca_capacity s) = Acquired c \<Longrightarrow>
    call_step s (s\<lparr>ca_capacity := c, ca_calls := xs @ Admitted request # ys\<rparr>)"
| Refuse: "ca_calls s = xs @ Acquiring request # ys \<Longrightarrow>
    acquire_once cancelled elapsed (er_timeout_ms request) (ca_capacity s) = Not_Acquired e \<Longrightarrow>
    call_step s (s\<lparr>ca_calls := xs @ ys\<rparr>)"
| Abandon: "ca_calls s = xs @ Admitted request # ys \<Longrightarrow> bound_request cancelled elapsed request = Inl e \<Longrightarrow>
    drop_slot True (ca_capacity s) = Some c \<Longrightarrow> call_step s (s\<lparr>ca_capacity := c, ca_calls := xs @ ys\<rparr>)"
| Dispatch: "ca_calls s = xs @ Admitted request # ys \<Longrightarrow> bound_request cancelled elapsed request = Inr bounded \<Longrightarrow>
    call_step s (s\<lparr>ca_calls := xs @ Dispatched request bounded # ys\<rparr>)"
| Return: "ca_calls s = xs @ Dispatched request bounded # ys \<Longrightarrow> inner_result elapsed_ms answer = (result, completed) \<Longrightarrow>
    drop_slot completed (ca_capacity s) = Some c \<Longrightarrow>
    call_step s (s\<lparr>ca_capacity := c, ca_calls := xs @ ys, ca_leaked := ca_leaked s + (if completed then 0 else 1)\<rparr>)"

text \<open>\<open>ca_leaked\<close> records how many slots were dropped without completion.\<close>

inductive call_run :: "calls \<Rightarrow> calls \<Rightarrow> bool" for s where
  Refl: "call_run s s"
| Step: "call_run s t \<Longrightarrow> call_step t u \<Longrightarrow> call_run s u"

definition calls_start :: "capacity \<Rightarrow> calls" where
  "calls_start c = \<lparr>ca_capacity = c, ca_calls = [], ca_leaked = 0\<rparr>"

section \<open>Specifications\<close>

fun holds_slot :: "call \<Rightarrow> bool" where
  "holds_slot (Acquiring _) = False"
| "holds_slot (Admitted _) = True"
| "holds_slot (Dispatched _ _) = True"

definition dispatched :: "calls \<Rightarrow> call list" where
  "dispatched s = filter (\<lambda>c. case c of Dispatched _ _ \<Rightarrow> True | _ \<Rightarrow> False) (ca_calls s)"

text \<open>The inner executor is given the same request with a positive part of its timeout.\<close>

definition bounded_by :: "execution_request \<Rightarrow> execution_request \<Rightarrow> bool" where
  "bounded_by request bounded \<longleftrightarrow> 0 < er_timeout_ms bounded \<and> er_timeout_ms bounded \<le> er_timeout_ms request
     \<and> bounded = request\<lparr>er_timeout_ms := er_timeout_ms bounded\<rparr>"

definition calls_inv :: "nat \<Rightarrow> calls \<Rightarrow> bool" where
  "calls_inv limit s \<longleftrightarrow> lc_limit (ca_capacity s) = limit \<and> lc_active (ca_capacity s) = length (filter holds_slot (ca_calls s)) + ca_leaked s
     \<and> lc_active (ca_capacity s) \<le> limit \<and> (lc_quarantined (ca_capacity s) \<longleftrightarrow> 0 < ca_leaked s)
     \<and> (\<forall>request bounded. Dispatched request bounded \<in> set (ca_calls s) \<longrightarrow> bounded_by request bounded)"

section \<open>Facts\<close>

lemma acquire_once_Acquired:
  "acquire_once cancelled elapsed t c = Acquired c' \<longleftrightarrow> \<not> lc_quarantined c \<and> \<not> cancelled \<and> millis 1 \<le> millis (unat t) - elapsed
     \<and> lc_active c < lc_limit c \<and> c' = c\<lparr>lc_active := lc_active c + 1\<rparr>"
  by (auto simp: acquire_once_def)

lemma bound_request_Inr:
  assumes "bound_request cancelled elapsed request = Inr bounded"
  shows "bounded_by request bounded"
proof -
  let ?n = "(millis (unat (er_timeout_ms request)) - elapsed) div millis 1"
  have b: "bounded = request\<lparr>er_timeout_ms := word_of_nat ?n\<rparr>" and pos: "er_timeout_ms bounded \<noteq> 0"
    using assms by (auto simp: bound_request_def Let_def split: if_splits)
  have le: "?n \<le> unat (er_timeout_ms request)"
    by (metis diff_le_self div_le_mono mult.left_neutral nonzero_mult_div_cancel_right zero_neq_numeral)
  then have "?n < 2 ^ 64" using unsigned_less[of "er_timeout_ms request", where 'a = nat] by simp
  then have "unat (word_of_nat ?n :: u64) = ?n" by (simp add: unsigned_of_nat take_bit_nat_eq_self_iff)
  then have "er_timeout_ms bounded \<le> er_timeout_ms request" using le by (simp add: b word_le_nat_alt)
  then show ?thesis using pos by (simp add: bounded_by_def b word_neq_0_conv)
qed

lemma call_step_inv:
  assumes "call_step s s'" and "calls_inv limit s"
  shows "calls_inv limit s'"
  using assms
proof (cases rule: call_step.cases)
  case (Return xs request bounded ys elapsed_ms answer result completed c)
  then show ?thesis using assms(2)
    by (auto simp: calls_inv_def drop_slot_def split: if_splits nat.splits)
next
  case (Dispatch xs request ys cancelled elapsed bounded)
  then show ?thesis using assms(2) bound_request_Inr[OF Dispatch(3)] by (auto simp: calls_inv_def)
qed (auto simp: calls_inv_def acquire_once_Acquired drop_slot_def split: nat.splits)

lemma call_run_inv: "call_run s t \<Longrightarrow> calls_inv limit s \<Longrightarrow> calls_inv limit t"
  by (induction rule: call_run.induct) (auto intro: call_step_inv)

lemma calls_start_inv: "capacity_new limit = Inr c \<Longrightarrow> calls_inv limit (calls_start c) \<and> lc_active c = 0"
  by (auto simp: capacity_new_def calls_inv_def calls_start_def split: if_splits)

lemma quarantine_stays:
  assumes "call_step s s'" and "lc_quarantined (ca_capacity s)"
  shows "lc_quarantined (ca_capacity s')"
  using assms by cases (auto simp: acquire_once_Acquired drop_slot_def split: if_splits nat.splits)

section \<open>Properties\<close>

text \<open>C14. At no moment, whatever the interleaving of calls, cancellations and failures, are more executions in the inner
  executor than the configured limit, and each runs the caller's request with a positive timeout no longer than the
  caller's. The counter is the number of slots held plus those that were never completed, so that completing a held slot
  cannot underflow it. One slot that is dropped without completion (a failure or a panic of
  the inner executor) closes the executor for good: no call is admitted any more.\<close>

theorem local_capacity_respected:
  assumes "capacity_new limit = Inr c" and "call_run (calls_start c) s"
  shows "length (dispatched s) \<le> limit
    \<and> (\<forall>request bounded. Dispatched request bounded \<in> set (ca_calls s) \<longrightarrow> bounded_by request bounded)
    \<and> lc_active (ca_capacity s) = length (filter holds_slot (ca_calls s)) + ca_leaked s
    \<and> (\<forall>call completed. call \<in> set (ca_calls s) \<and> holds_slot call \<longrightarrow> drop_slot completed (ca_capacity s) \<noteq> None)
    \<and> (0 < ca_leaked s \<longrightarrow> (\<forall>t cancelled elapsed timeout_ms. call_run s t \<longrightarrow>
         acquire_once cancelled elapsed timeout_ms (ca_capacity t) = Not_Acquired unavailable))"
proof -
  have inv: "calls_inv limit s" using call_run_inv[OF assms(2)] calls_start_inv[OF assms(1)] by blast
  have "length (dispatched s) \<le> length (filter holds_slot (ca_calls s))"
  proof -
    have "dispatched s = filter (\<lambda>c. case c of Dispatched _ _ \<Rightarrow> True | _ \<Rightarrow> False) (filter holds_slot (ca_calls s))"
      unfolding dispatched_def filter_filter by (rule filter_cong) (auto split: call.splits)
    then show ?thesis by (metis length_filter_le)
  qed
  moreover have "drop_slot completed (ca_capacity s) \<noteq> None" if "call \<in> set (ca_calls s)" "holds_slot call" for call completed
  proof -
    have "filter holds_slot (ca_calls s) \<noteq> []" using that by (auto simp: filter_empty_conv)
    then have "0 < lc_active (ca_capacity s)" using inv by (simp add: calls_inv_def)
    then show ?thesis by (auto simp: drop_slot_def split: nat.splits)
  qed
  moreover have "lc_quarantined (ca_capacity t)" if "0 < ca_leaked s" "call_run s t" for t
    using that(2) by induction (use inv that(1) quarantine_stays in \<open>auto simp: calls_inv_def\<close>)
  ultimately show ?thesis using inv by (auto simp: calls_inv_def acquire_once_def)
qed

definition example_slots :: capacity where
  "example_slots = \<lparr>lc_limit = 1, lc_backend = ''process-capacity/v1/slots/1'', lc_active = 0, lc_quarantined = False\<rparr>"

definition example_slot_call :: execution_request where
  "example_slot_call = \<lparr>er_program = ''p'', er_args = [], er_working_dir = ''/w'', er_env = [], er_timeout_ms = 5, er_max_capture_bytes_per_stream = 1\<rparr>"

definition example_running :: calls where
  "example_running = \<lparr>ca_capacity = example_slots\<lparr>lc_active := 1\<rparr>, ca_calls = [Dispatched example_slot_call (example_slot_call\<lparr>er_timeout_ms := 3\<rparr>)], ca_leaked = 0\<rparr>"

lemma example_running_reached: "call_run (calls_start example_slots) example_running"
proof -
  let ?s0 = "calls_start example_slots" and ?c = "example_slots\<lparr>lc_active := 1\<rparr>"
  let ?s1 = "?s0\<lparr>ca_calls := [Acquiring example_slot_call]\<rparr>"
  let ?s2 = "?s1\<lparr>ca_capacity := ?c, ca_calls := [Admitted example_slot_call]\<rparr>"
  have "call_step ?s0 ?s1" using call_step.Call[of ?s0 example_slot_call] by (simp add: calls_start_def)
  moreover have "call_step ?s1 ?s2"
    using call_step.Acquire[of ?s1 "[]" example_slot_call "[]" False 0 ?c]
    by (simp add: calls_start_def acquire_once_def example_slots_def example_slot_call_def)
  moreover have "call_step ?s2 example_running"
    using call_step.Dispatch[of ?s2 "[]" example_slot_call "[]" False 1500000 "example_slot_call\<lparr>er_timeout_ms := 3\<rparr>"]
    by (simp add: calls_start_def bound_request_def example_slot_call_def example_running_def)
  ultimately show ?thesis by (meson call_run.intros)
qed

theorem local_capacity_respected_witness:
  "length (dispatched example_running) = 1 \<and> length (dispatched example_running) \<le> lc_limit (ca_capacity example_running)
   \<and> bounded_by example_slot_call (example_slot_call\<lparr>er_timeout_ms := 3\<rparr>)"
proof -
  have new: "capacity_new 1 = Inr example_slots" by code_simp
  have "length (dispatched example_running) = 1" "lc_limit (ca_capacity example_running) = 1"
    "Dispatched example_slot_call (example_slot_call\<lparr>er_timeout_ms := 3\<rparr>) \<in> set (ca_calls example_running)"
    by (simp_all add: dispatched_def example_running_def example_slots_def)
  then show ?thesis using local_capacity_respected[OF new example_running_reached] by auto
qed

end
