(* ===== verification/Spec2Isabelle.thy ===== *)
theory Spec2Isabelle
  imports Hub_Prelude Hub_Error Hub_Digest Hub_Component Hub_Dag Hub_Run Hub_Workflow Hub_Publication Hub_Memory
    Hub_Task Hub_Task_Lifecycle Hub_Events Hub_Store
    Hub_Exec Hub_Blobs Hub_Action Hub_Orchestrator Hub_Execution Hub_Flow Hub_Attempts Hub_Scheduler Hub_RemoteOps Hub_Remote Hub_Capacity
begin

text \<open>
  A model of the SciRust hub, a control plane that registers components, stores artifacts by
  content, and runs components alone or as workflows, with the theorems that make it correct.

  \<^bold>\<open>The program.\<close> The core crate (\<open>src/crates/hub-core/src\<close>) has four layers. Values: identifiers, digests,
  versions, manifests, run, workflow and task specifications, each with a validator. Records:
  state machines of runs, workflows and tasks. Repositories: keyed stores of the records,
  an event log derived from every write, publication fences, and a file system store of blobs. The
  orchestrator composes them: it admits runs against the registry, executes them through an
  executor, schedules the steps of a workflow on parallel workers with retries, cancels, and
  recovers after a restart. Executors (\<open>src/crates/hub-executor/src\<close>) run a process here, within a ceiling, or on a worker that
  holds leases.

  \<^bold>\<open>Theories.\<close> In the order of their dependencies, with the sources they model:
  \<^item> \<open>Hub_Prelude\<close>: words, Rust's results and validation loops, UTF-8 text, ordered maps and sets.
  \<^item> \<open>Hub_Error\<close> (\<open>id.rs\<close>, \<open>error.rs\<close>): identifiers, the states named by errors, errors and their texts.
  \<^item> \<open>Hub_Digest\<close> (\<open>digest.rs\<close>), \<open>Hub_Component\<close> (\<open>limits.rs\<close>, \<open>version.rs\<close>, \<open>capability.rs\<close>, \<open>component.rs\<close>),
    \<open>Hub_Dag\<close> (\<open>dag.rs\<close>), \<open>Hub_Run\<close> (\<open>run.rs\<close>, \<open>artifact.rs\<close>), \<open>Hub_Workflow\<close> (\<open>workflow.rs\<close>), \<open>Hub_Task\<close> (\<open>task.rs\<close>),
    \<open>Hub_Task_Lifecycle\<close> (\<open>task_lifecycle.rs\<close>).
  \<^item> \<open>Hub_Publication\<close> (\<open>publication.rs\<close>), \<open>Hub_Memory\<close> (\<open>memory.rs\<close>, \<open>store.rs\<close>), \<open>Hub_Events\<close> (\<open>event.rs\<close>), \<open>Hub_Store\<close>
    (the composite store of \<open>memory.rs\<close>), \<open>Hub_Blobs\<close> (the file system store of \<open>memory.rs\<close>).
  \<^item> \<open>Hub_Exec\<close> (\<open>exec.rs\<close>, \<open>scicapsule.rs\<close>, placeholders and requests of \<open>orchestrator.rs\<close>), \<open>Hub_Action\<close> (stateful
    operations that may fail), \<open>Hub_Orchestrator\<close> and \<open>Hub_Execution\<close> (the run half of \<open>orchestrator.rs\<close>), \<open>Hub_Flow\<close>,
    \<open>Hub_Attempts\<close> and \<open>Hub_Scheduler\<close> (its workflow half).
  \<^item> \<open>Hub_RemoteOps\<close> (\<open>remoteops_qualification.rs\<close>, \<open>remoteops_host_snapshot.rs\<close>): the importers of RemoteOps documents.
  \<^item> Execution back ends (\<open>src/crates/hub-executor/src\<close>): \<open>Hub_Worker\<close> (\<open>worker.rs\<close> over \<open>distributed.rs\<close> of \<open>hub-protocol\<close>), the
    lease book of a worker and the tasks that run leases; \<open>Hub_Remote\<close> (\<open>remote.rs\<close>, \<open>pool.rs\<close>), the hub's side of it;
    \<open>Hub_Capacity\<close> (\<open>local_capacity.rs\<close>), the ceiling on local executions.

  \<^bold>\<open>Conventions.\<close> Definitions keep the names of the source. A struct is a record, an enum a datatype, a fixed
  width integer a word. Fallible code returns \<open>core_error + 'a\<close>; a panic is the value \<open>None\<close> of an outer
  option. A method that changes state returns its result and the state it leaves, also on an early
  return. A \<open>BTreeMap\<close> is a strictly sorted association list. Texts of errors are templates with
  arguments, so that two errors are equal only if the program would print the same. Clock
  readings, fresh identifiers, outcomes of system calls and reports of the executor are
  arguments; SHA-256 and the JSON serialisers are parameters, with collision freedom and similar
  behaviour as named hypotheses where a theorem needs it.

  \<^bold>\<open>What is shown.\<close> Validators accept exactly the values of a declarative well-formedness predicate. Graph
  construction keeps acyclicity and the topological sort is total and deterministic. State
  machines only reach records with a legal history, and a task snapshot is accepted exactly when
  the lifecycle reaches it. Each repository is an instance of a locale with its laws: records
  are found as written, manifests never change, cancellation intent is never lost, task histories
  only grow, superseded attempts never publish, the event log is the history of the records.
  Blobs are read back as written and verified reads return only bytes of their digest.
  Submission is atomic and only queues runs that can be executed; executions are isolated and end
  in a terminal record; artifact metadata never dangles. The worker of a step ends within its
  attempts and publishes exactly the outputs of the attempt that succeeded, and the scheduler starts
  each step once, after its dependencies, within the concurrency bound, never stalls and
  ends, for every interleaving of workers and other threads. Restart recovery ends every
  interrupted workflow. A remote worker executes an attempt at most once
  and the result the hub takes is the one the worker's book keeps; a draining worker winds down; the polling loop
  ends; the pool balances by the executions in flight; local executions stay within their limit. A backend
  imported from a qualification document admits only what the document covers.

  \<^bold>\<open>Concurrency.\<close> Operations of the stores are atomic, as their mutexes make them. A worker takes what other
  threads do between its own accesses as arguments, and its theorems assume that they leave its
  step alone (\<open>neighbourly\<close>). The scheduling loop is a step relation; other threads may change the
  flow in any step but never reset the token or end the workflow (\<open>considerate\<close>).
  The worker service and the local ceiling are step relations over their shared state, for every interleaving.

  \<^bold>\<open>Fuel.\<close> The attempt loop has fuel; \<open>worker_terminates\<close> shows that the attempts allowed by the retry policy are
  enough and that more changes nothing. Reading loops of the blob store consume the list of chunks
  the operating system delivers, and the polling loop a list of observations. All other recursion is structural or has a termination proof.

  \<^bold>\<open>Not modelled.\<close> Mutex poisoning, tracing, timing of sleeps. The HTTP and tool surfaces (\<open>hub-api\<close>,
  \<open>hub-mcp\<close>, the API types of \<open>hub-protocol\<close>), the process and sandbox back ends of \<open>hub-executor\<close> with the walks of work
  directories, the SQLite repositories (\<open>hub-store-sqlite\<close>), whose contracts are those of the in-memory ones, and the binaries
  under \<open>src/apps\<close>: they are I/O around the code modelled here.
\<close>

end
